(* ===== verification/Prelude.thy ===== *)
theory Prelude
  imports "HOL-Library.Word" "HOL-Library.List_Lexorder"
begin

text \<open>
  Shared vocabulary of the development: the machine integer types of the source, the ways in which
  the compiled program can go wrong, the result type that carries them, and the ordered containers
  \<open>std::map\<close> and \<open>std::multimap\<close> as association lists sorted by key. The laws of the containers
  are stated once, as locales, and every store of the tracker uses them through an interpretation.
\<close>

unbundle bit_operations_syntax

named_theorems container_simps \<open>laws of the ordered containers\<close>
named_theorems reader_simps \<open>reads of the binary reader on known input\<close>
named_theorems writer_defs \<open>the writers of the binary writer, unfolded to appends\<close>

section \<open>Machine integers and bytes\<close>

type_synonym u8 = "8 word"
type_synonym u16 = "16 word"
type_synonym u32 = "32 word"
type_synonym u64 = "64 word"

text \<open>A \<open>std::vector<uint8_t>\<close>, a raw buffer or a \<open>std::string\<close>: a list of bytes.\<close>

type_synonym bytes = "u8 list"

section \<open>Failures of the compiled program\<close>

text \<open>
  A dereferenced null pointer, a pointer to an object that is gone, an access outside an array, a
  failed \<open>assert\<close>, a \<open>static_cast\<close> to a class the object does not have, a signed integer overflow,
  and a loop that does not end.
\<close>

datatype failure =
    NullDereference
  | DanglingPointer
  | OutOfBounds
  | AssertionFailed
  | BadCast
  | SignedOverflow
  | Diverges

type_synonym 'a result = "failure + 'a"

definition bind_result :: "'a result \<Rightarrow> ('a \<Rightarrow> 'b result) \<Rightarrow> 'b result" where
  "bind_result r f = (case r of Inl e \<Rightarrow> Inl e | Inr a \<Rightarrow> f a)"

lemma bind_result_simps [simp]:
  "bind_result (Inl e) f = Inl e"
  "bind_result (Inr a) f = f a"
  by (simp_all add: bind_result_def)

lemma bind_result_eq_Inr [simp]:
  "bind_result r f = Inr b \<longleftrightarrow> (\<exists>a. r = Inr a \<and> f a = Inr b)"
  by (cases r) auto

lemma bind_result_eq_Inl:
  "bind_result r f = Inl e \<longleftrightarrow> r = Inl e \<or> (\<exists>a. r = Inr a \<and> f a = Inl e)"
  by (cases r) auto

text \<open>A loop whose body may fail.\<close>

fun fold_result :: "('a \<Rightarrow> 's \<Rightarrow> 's result) \<Rightarrow> 'a list \<Rightarrow> 's \<Rightarrow> 's result" where
  "fold_result f [] s = Inr s"
| "fold_result f (x # xs) s = bind_result (f x s) (fold_result f xs)"

lemma fold_result_append:
  "fold_result f (xs @ ys) s = bind_result (fold_result f xs s) (fold_result f ys)"
  by (induction xs arbitrary: s) (auto simp: bind_result_def split: sum.splits)

lemma fold_result_invariant:
  assumes "fold_result f xs s = Inr t" and "P s"
    and "\<And>x s t. x \<in> set xs \<Longrightarrow> P s \<Longrightarrow> f x s = Inr t \<Longrightarrow> P t"
  shows "P t"
  using assms by (induction xs arbitrary: s) auto

section \<open>Ordered maps\<close>

text \<open>
  \<open>std::map\<close> iterates in key order, so it is an association list with strictly increasing keys.
  \<open>map_of\<close> is \<open>find\<close>; \<open>map_put\<close> is the assignment \<open>m[k] = v\<close>; \<open>map_erase\<close> is \<open>erase(k)\<close>.
\<close>

type_synonym ('k, 'v) omap = "('k \<times> 'v) list"

definition map_ok :: "('k::linorder, 'v) omap \<Rightarrow> bool" where
  "map_ok m \<longleftrightarrow> sorted_wrt (<) (map fst m)"

fun map_put :: "'k::linorder \<Rightarrow> 'v \<Rightarrow> ('k, 'v) omap \<Rightarrow> ('k, 'v) omap" where
  "map_put k v [] = [(k, v)]"
| "map_put k v ((k', v') # m) =
     (if k < k' then (k, v) # (k', v') # m
      else if k = k' then (k, v) # m
      else (k', v') # map_put k v m)"

definition map_erase :: "'k \<Rightarrow> ('k, 'v) omap \<Rightarrow> ('k, 'v) omap" where
  "map_erase k m = filter (\<lambda>(k', v). k' \<noteq> k) m"

definition map_erase_if :: "('k \<Rightarrow> 'v \<Rightarrow> bool) \<Rightarrow> ('k, 'v) omap \<Rightarrow> ('k, 'v) omap" where
  "map_erase_if P m = filter (\<lambda>(k, v). \<not> P k v) m"

lemma map_ok_Nil [simp]: "map_ok []"
  by (simp add: map_ok_def)

lemma map_ok_Cons [simp]: "map_ok ((k, v) # m) \<longleftrightarrow> (\<forall>k' \<in> fst ` set m. k < k') \<and> map_ok m"
  by (auto simp: map_ok_def)

lemma map_ok_distinct: "map_ok m \<Longrightarrow> distinct (map fst m)"
  by (simp add: map_ok_def strict_sorted_iff)

lemma map_put_keys [simp, container_simps]: "fst ` set (map_put k v m) = insert k (fst ` set m)"
  by (induction k v m rule: map_put.induct) auto

lemma map_put_ok [simp, intro]: "map_ok m \<Longrightarrow> map_ok (map_put k v m)"
  by (induction k v m rule: map_put.induct) auto

lemma map_of_map_put [simp, container_simps]:
  "map_of (map_put k v m) x = (if x = k then Some v else map_of m x)"
  by (induction k v m rule: map_put.induct) auto

lemma map_erase_ok [simp, intro]: "map_ok m \<Longrightarrow> map_ok (map_erase k m)"
  by (induction m) (auto simp: map_erase_def)

lemma map_erase_if_ok [simp, intro]: "map_ok m \<Longrightarrow> map_ok (map_erase_if P m)"
  by (induction m) (auto simp: map_erase_if_def)

lemma map_of_map_erase [simp, container_simps]:
  "map_of (map_erase k m) x = (if x = k then None else map_of m x)"
  by (induction m) (auto simp: map_erase_def)

lemma map_of_map_erase_if [container_simps]:
  assumes "map_ok m"
  shows "map_of (map_erase_if P m) x =
     (case map_of m x of None \<Rightarrow> None | Some v \<Rightarrow> if P x v then None else Some v)"
  using assms
proof (induction m)
  case Nil
  then show ?case by (simp add: map_erase_if_def)
next
  case (Cons p m)
  obtain k v where p: "p = (k, v)" by (cases p)
  have fresh: "map_of m k = None"
    using Cons.prems p by (auto simp: map_of_eq_None_iff)
  have "map_of (map_erase_if P (p # m)) x =
      (if x = k \<and> \<not> P k v then Some v else map_of (map_erase_if P m) x)"
    by (simp add: map_erase_if_def p)
  then show ?case using Cons fresh p by auto
qed

lemma set_map_put_subset: "set (map_put k v m) \<subseteq> insert (k, v) (set m)"
  by (induction k v m rule: map_put.induct) auto

lemma map_put_same:
  assumes "map_ok m" and "map_of m k = Some v"
  shows "map_put k v m = m"
  using assms
proof (induction m)
  case Nil
  then show ?case by simp
next
  case (Cons p m)
  obtain k' v' where p: "p = (k', v')" by (cases p)
  show ?case
  proof (cases "k = k'")
    case False
    with Cons.prems p have "k' < k"
      by (force dest: map_of_SomeD)
    with Cons p False show ?thesis by auto
  qed (use Cons p in auto)
qed

lemma length_map_put:
  "map_ok m \<Longrightarrow> length (map_put k v m) = length m + (if map_of m k = None then 1 else 0)"
proof (induction k v m rule: map_put.induct)
  case (2 k v k' v' m)
  have "k < k' \<Longrightarrow> map_of m k = None"
    using "2.prems" by (auto simp: map_of_eq_None_iff)
  with 2 show ?case by auto
qed simp

lemma set_map_put_new:
  "map_of m k = None \<Longrightarrow> set (map_put k v m) = insert (k, v) (set m)"
  by (induction k v m rule: map_put.induct) (auto split: if_splits)

lemma distinct_map_put_new:
  assumes "map_of m k = None"
  shows "distinct (map f (map_put k v m)) \<longleftrightarrow> f (k, v) \<notin> f ` set m \<and> distinct (map f m)"
  using assms
  by (induction k v m rule: map_put.induct) (auto simp: set_map_put_new split: if_splits)

lemma map_of_iff_set: "map_ok m \<Longrightarrow> map_of m k = Some v \<longleftrightarrow> (k, v) \<in> set m"
  using map_of_eq_Some_iff [of m k v] by (simp add: map_ok_distinct)

lemma insert_Diff_insert: "insert a (A - insert a B) = insert a (A - B)"
  by blast

text \<open>The contract the stores of the program rely on: a finite map with put and erase.\<close>

locale key_value_store =
  fixes lookup :: "'s \<Rightarrow> 'k \<Rightarrow> 'v option"
    and put :: "'k \<Rightarrow> 'v \<Rightarrow> 's \<Rightarrow> 's"
    and erase :: "'k \<Rightarrow> 's \<Rightarrow> 's"
    and good :: "'s \<Rightarrow> bool"
  assumes lookup_put: "lookup (put k v s) x = (if x = k then Some v else lookup s x)"
    and lookup_erase: "lookup (erase k s) x = (if x = k then None else lookup s x)"
    and good_put: "good s \<Longrightarrow> good (put k v s)"
    and good_erase: "good s \<Longrightarrow> good (erase k s)"
begin

lemma put_then_lookup: "lookup (put k v s) k = Some v"
  by (simp add: lookup_put)

lemma put_frame: "x \<noteq> k \<Longrightarrow> lookup (put k v s) x = lookup s x"
  by (simp add: lookup_put)

lemma erase_undoes_put: "lookup s k = None \<Longrightarrow> lookup (erase k (put k v s)) = lookup s"
  by (rule ext) (simp add: lookup_erase lookup_put)

lemma last_put_wins: "lookup (put k v (put k w s)) = lookup (put k v s)"
  by (rule ext) (simp add: lookup_put)

end

interpretation omap: key_value_store map_of map_put map_erase map_ok
  by unfold_locales simp_all

section \<open>Ordered multimaps\<close>

text \<open>
  \<open>std::multimap\<close>: sorted by key, \<open>emplace\<close> puts a new element after those with the same key.
  \<open>multi_range\<close> is \<open>equal_range(k)\<close>, \<open>multi_from\<close> the elements from \<open>find(k)\<close> (the first element with
  the key, or the end) to the end, and \<open>multi_lower\<close> those from \<open>lower_bound(k)\<close> to the end.
\<close>

fun multi_emplace :: "'k::linorder \<Rightarrow> 'v \<Rightarrow> ('k \<times> 'v) list \<Rightarrow> ('k \<times> 'v) list" where
  "multi_emplace k v [] = [(k, v)]"
| "multi_emplace k v ((k', v') # m) =
     (if k < k' then (k, v) # (k', v') # m else (k', v') # multi_emplace k v m)"

definition multi_ok :: "('k::linorder \<times> 'v) list \<Rightarrow> bool" where
  "multi_ok m \<longleftrightarrow> sorted (map fst m)"

definition multi_range :: "'k \<Rightarrow> ('k \<times> 'v) list \<Rightarrow> ('k \<times> 'v) list" where
  "multi_range k m = filter (\<lambda>(k', v). k' = k) m"

definition multi_lower :: "'k::linorder \<Rightarrow> ('k \<times> 'v) list \<Rightarrow> ('k \<times> 'v) list" where
  "multi_lower k m = dropWhile (\<lambda>(k', v). k' < k) m"

definition multi_from :: "'k::linorder \<Rightarrow> ('k \<times> 'v) list \<Rightarrow> ('k \<times> 'v) list" where
  "multi_from k m = (if k \<in> fst ` set m then multi_lower k m else [])"

definition multi_erase_if :: "('k \<Rightarrow> 'v \<Rightarrow> bool) \<Rightarrow> ('k \<times> 'v) list \<Rightarrow> ('k \<times> 'v) list" where
  "multi_erase_if P m = filter (\<lambda>(k, v). \<not> P k v) m"

lemma set_multi_emplace [simp, container_simps]:
  "set (multi_emplace k v m) = insert (k, v) (set m)"
  by (induction k v m rule: multi_emplace.induct) auto

lemma multi_emplace_ok [simp, intro]: "multi_ok m \<Longrightarrow> multi_ok (multi_emplace k v m)"
  by (induction k v m rule: multi_emplace.induct) (auto simp: multi_ok_def)

lemma multi_erase_if_ok [simp, intro]: "multi_ok m \<Longrightarrow> multi_ok (multi_erase_if P m)"
  by (induction m) (auto simp: multi_ok_def multi_erase_if_def)

lemma set_multi_range [simp, container_simps]: "set (multi_range k m) = {(k', v) \<in> set m. k' = k}"
  by (auto simp: multi_range_def)

lemma set_multi_erase_if [simp, container_simps]:
  "set (multi_erase_if P m) = {(k, v) \<in> set m. \<not> P k v}"
  by (auto simp: multi_erase_if_def)

lemma set_multi_lower:
  "multi_ok m \<Longrightarrow> set (multi_lower k m) = {(k', v) \<in> set m. k \<le> k'}"
  by (induction m) (force simp: multi_ok_def multi_lower_def)+

lemma set_multi_from:
  assumes "multi_ok m"
  shows "set (multi_from k m) = (if k \<in> fst ` set m then {(k', v) \<in> set m. k \<le> k'} else {})"
  using assms by (simp add: multi_from_def set_multi_lower)

lemma multi_range_subset_from:
  assumes "multi_ok m"
  shows "set (multi_range k m) \<subseteq> set (multi_from k m)"
  using assms by (force simp: set_multi_from)

lemma length_multi_emplace [simp]: "length (multi_emplace k v m) = Suc (length m)"
  by (induction k v m rule: multi_emplace.induct) auto

lemma multi_range_emplace:
  assumes "multi_ok m"
  shows "multi_range k (multi_emplace k' v m) =
    (if k = k' then multi_range k m @ [(k, v)] else multi_range k m)"
  using assms
proof (induction k' v m rule: multi_emplace.induct)
  case (2 k' v k'' v'' m)
  have "k' < k'' \<Longrightarrow> multi_range k' m = []"
    using "2.prems" by (force simp: multi_range_def multi_ok_def filter_empty_conv)
  with 2 show ?case by (auto simp: multi_range_def multi_ok_def)
qed (simp add: multi_range_def)

end
