(* ===== verification/BinaryReader.thy ===== *)
theory BinaryReader
  imports Prelude
begin

text \<open>
  The reader of \<open>Bitchat/BinaryReader.cpp\<close>: a position in a byte buffer; a read that does not fit
  returns 0 (or a null pointer) and leaves the position where it is. \<open>unread\<close> is what is left to
  read; the lemmas describe every read by what it takes off the unread bytes.
\<close>

section \<open>Model\<close>

text \<open>
  \<open>buffer_size\<close> is the number of bytes of \<open>rbuffer\<close>. Position and size are \<open>uint16_t\<close>, compared
  after promotion to \<open>int\<close>; a position is only moved to at most \<open>buffer_size\<close>, so it never wraps.
\<close>

record binary_reader =
  rbuffer :: bytes
  rpos :: nat

abbreviation buffer_size :: "binary_reader \<Rightarrow> nat" where
  "buffer_size r \<equiv> length (rbuffer r)"

definition new_BinaryReader :: "nat \<Rightarrow> bytes \<Rightarrow> binary_reader" where
  "new_BinaryReader offset buf = \<lparr>rbuffer = buf, rpos = offset\<rparr>"

definition advance :: "nat \<Rightarrow> binary_reader \<Rightarrow> binary_reader" where
  "advance n r = r\<lparr>rpos := rpos r + n\<rparr>"

text \<open>The byte at \<open>pos + i\<close>, widened to the result type.\<close>

definition byte_at :: "binary_reader \<Rightarrow> nat \<Rightarrow> 'w::len word" where
  "byte_at r i = ucast (rbuffer r ! (rpos r + i))"

definition read_uint8 :: "binary_reader \<Rightarrow> u8 \<times> binary_reader" where
  "read_uint8 r =
     (if rpos r + 1 > buffer_size r then (0, r) else (rbuffer r ! rpos r, advance 1 r))"

definition read_uint16 :: "binary_reader \<Rightarrow> u16 \<times> binary_reader" where
  "read_uint16 r =
     (if rpos r + 2 > buffer_size r then (0, r)
      else (push_bit 8 (byte_at r 0) OR byte_at r 1, advance 2 r))"

definition read_uint64 :: "binary_reader \<Rightarrow> u64 \<times> binary_reader" where
  "read_uint64 r =
     (if rpos r + 8 > buffer_size r then (0, r)
      else (push_bit 56 (byte_at r 0) OR push_bit 48 (byte_at r 1) OR push_bit 40 (byte_at r 2) OR
            push_bit 32 (byte_at r 3) OR push_bit 24 (byte_at r 4) OR push_bit 16 (byte_at r 5) OR
            push_bit 8 (byte_at r 6) OR byte_at r 7, advance 8 r))"

text \<open>\<open>read_data\<close> returns a pointer to \<open>len\<close> bytes of the buffer, or null.\<close>

definition read_data :: "nat \<Rightarrow> binary_reader \<Rightarrow> bytes option \<times> binary_reader" where
  "read_data len r =
     (if rpos r + len > buffer_size r then (None, r)
      else (Some (take len (drop (rpos r) (rbuffer r))), advance len r))"

section \<open>Reads and the unread bytes\<close>

definition unread :: "binary_reader \<Rightarrow> bytes" where
  "unread r = drop (rpos r) (rbuffer r)"

text \<open>The reader is inside its buffer.\<close>

definition reader_ok :: "binary_reader \<Rightarrow> bool" where
  "reader_ok r \<longleftrightarrow> rpos r \<le> buffer_size r"

lemma unread_new [reader_simps]: "unread (new_BinaryReader n buf) = drop n buf"
  by (simp add: unread_def new_BinaryReader_def)

lemma unread_advance [reader_simps]: "unread (advance n r) = drop n (unread r)"
  by (simp add: unread_def advance_def add.commute)

lemma rpos_advance [simp]: "rpos (advance n r) = rpos r + n" and
  rbuffer_advance [simp]: "rbuffer (advance n r) = rbuffer r"
  by (simp_all add: advance_def)

lemma advance_advance [reader_simps]: "advance m (advance n r) = advance (n + m) r"
  by (simp add: advance_def)

lemma length_unread: "length (unread r) = buffer_size r - rpos r"
  by (simp add: unread_def)

lemma unread_room: "unread r \<noteq> [] \<Longrightarrow> rpos r + length (unread r) = buffer_size r"
  by (auto simp: unread_def)

lemma byte_at_unread: "i < length (unread r) \<Longrightarrow> byte_at r i = ucast (unread r ! i)"
  by (simp add: byte_at_def unread_def)

lemma read_uint8_unread [reader_simps]:
  "read_uint8 r = (case unread r of [] \<Rightarrow> (0, r) | b # _ \<Rightarrow> (b, advance 1 r))"
proof (cases "unread r")
  case Nil
  then show ?thesis by (simp add: read_uint8_def unread_def)
next
  case (Cons b bs)
  then show ?thesis
    using unread_room [of r] by (simp add: read_uint8_def unread_def nth_via_drop)
qed

lemma read_uint16_unread [reader_simps]:
  "unread r = a # b # bs \<Longrightarrow> read_uint16 r = (push_bit 8 (ucast a) OR ucast b, advance 2 r)"
  using unread_room [of r] by (simp add: read_uint16_def byte_at_unread)

lemma read_uint64_unread [reader_simps]:
  assumes "unread r = a # b # c # d # e # f # g # h # bs"
  shows "read_uint64 r =
    (push_bit 56 (ucast a) OR push_bit 48 (ucast b) OR push_bit 40 (ucast c) OR
     push_bit 32 (ucast d) OR push_bit 24 (ucast e) OR push_bit 16 (ucast f) OR
     push_bit 8 (ucast g) OR ucast h, advance 8 r)"
  using assms unread_room [of r] by (simp add: read_uint64_def byte_at_unread)

lemma read_data_unread [reader_simps]:
  assumes "reader_ok r"
  shows "read_data n r =
    (if n \<le> length (unread r) then (Some (take n (unread r)), advance n r) else (None, r))"
  using assms by (auto simp: read_data_def unread_def reader_ok_def)

lemma read_data_out_of_range: "length (unread r) < n \<Longrightarrow> read_data n r = (None, r)"
  by (auto simp: read_data_def unread_def)

lemma reader_ok_advance: "reader_ok r \<Longrightarrow> n \<le> length (unread r) \<Longrightarrow> reader_ok (advance n r)"
  by (auto simp: reader_ok_def length_unread)

lemma reads_stay_inside [intro]:
  assumes "reader_ok r"
  shows "reader_ok (snd (read_uint8 r))" and "reader_ok (snd (read_uint16 r))"
    and "reader_ok (snd (read_uint64 r))" and "reader_ok (snd (read_data n r))"
  using assms
  by (auto simp: reader_ok_def read_uint8_def read_uint16_def read_uint64_def read_data_def)

section \<open>The contract of a field reader\<close>

text \<open>
  A field of fixed width: reading it where its encoding stands gives the value and moves past it,
  and a read that finds too few bytes does not move.
\<close>

locale field_codec =
  fixes enc :: "'a \<Rightarrow> bytes"
    and dec :: "binary_reader \<Rightarrow> 'a \<times> binary_reader"
    and width :: nat
  assumes enc_width: "length (enc x) = width"
    and dec_enc: "unread r = enc x @ bs \<Longrightarrow> dec r = (x, advance width r)"
    and dec_short: "length (unread r) < width \<Longrightarrow> snd (dec r) = r"
begin

lemma enc_inj: "enc x = enc y \<Longrightarrow> x = y"
  using dec_enc [of "\<lparr>rbuffer = enc x, rpos = 0\<rparr>" x "[]"]
    dec_enc [of "\<lparr>rbuffer = enc x, rpos = 0\<rparr>" y "[]"]
  by (simp add: unread_def)

lemma dec_enc_unread: "unread r = enc x @ bs \<Longrightarrow> unread (snd (dec r)) = bs"
  by (simp add: dec_enc unread_advance enc_width)

end

section \<open>Properties\<close>

text \<open>
  C27: a read past the end of the buffer returns 0 or a null pointer and does not move, a read that
  fits moves by its width, and so a reader inside its buffer stays inside, whatever is read.
\<close>

theorem reader_never_leaves_buffer:
  assumes "reader_ok r"
  shows "reader_ok (snd (read_uint8 r)) \<and> reader_ok (snd (read_uint16 r)) \<and>
    reader_ok (snd (read_uint64 r)) \<and> reader_ok (snd (read_data n r)) \<and>
    (length (unread r) < 1 \<longrightarrow> read_uint8 r = (0, r)) \<and>
    (length (unread r) < 2 \<longrightarrow> read_uint16 r = (0, r)) \<and>
    (length (unread r) < 8 \<longrightarrow> read_uint64 r = (0, r)) \<and>
    (length (unread r) < n \<longrightarrow> read_data n r = (None, r))"
  using assms reads_stay_inside [OF assms]
  by (auto simp: read_uint8_def read_uint16_def read_uint64_def read_data_def length_unread)

theorem reader_never_leaves_buffer_witness:
  "read_uint64 (new_BinaryReader 1 [1, 2, 3]) = (0, new_BinaryReader 1 [1, 2, 3]) \<and>
   reader_ok (snd (read_uint16 (new_BinaryReader 1 [1, 2, 3])))"
proof -
  have ok: "reader_ok (new_BinaryReader 1 [1, 2, 3])"
    by (simp add: reader_ok_def new_BinaryReader_def)
  from reader_never_leaves_buffer [OF ok, of 0] show ?thesis
    by (simp add: reader_simps)
qed

end
