(* ===== verification/BinaryWriter.thy ===== *)
theory BinaryWriter
  imports BinaryReader
begin

text \<open>
  The writer of \<open>Bitchat/BinaryWriter.cpp\<close>: every operation appends to a byte vector. The integer
  writers are the inverses of the reads of \<open>BinaryReader\<close>, which interprets the field contract for
  8, 16 and 64 bits; the hexadecimal writers are inverted by the parser of sender peer ids.
\<close>

section \<open>Model\<close>

definition write_uint8 :: "u8 \<Rightarrow> bytes \<Rightarrow> bytes" where
  "write_uint8 x v = v @ [x]"

definition write_uint16 :: "u16 \<Rightarrow> bytes \<Rightarrow> bytes" where
  "write_uint16 x v = v @ [ucast (drop_bit 8 x), ucast x AND 0xFF]"

definition write_uint64 :: "u64 \<Rightarrow> bytes \<Rightarrow> bytes" where
  "write_uint64 x v = v @
     [ucast (drop_bit 56 x), ucast (drop_bit 48 x) AND 0xFF, ucast (drop_bit 40 x) AND 0xFF,
      ucast (drop_bit 32 x) AND 0xFF, ucast (drop_bit 24 x) AND 0xFF, ucast (drop_bit 16 x) AND 0xFF,
      ucast (drop_bit 8 x) AND 0xFF, ucast x AND 0xFF]"

text \<open>Both overloads of \<open>write_data\<close>: every caller passes a length that the data has.\<close>

definition write_data :: "bytes \<Rightarrow> nat \<Rightarrow> bytes \<Rightarrow> bytes" where
  "write_data data len v = v @ take len data"

definition hexify :: "u8 \<Rightarrow> u8" where
  "hexify nibble = (if nibble < 10 then nibble + 48 else nibble + (97 - 10))"

definition write_uint8_hex16 :: "u8 \<Rightarrow> bytes \<Rightarrow> bytes" where
  "write_uint8_hex16 x v = v @ [hexify (drop_bit 4 x AND 0xF), hexify (x AND 0xF)]"

definition write_uint16_hex16 :: "u16 \<Rightarrow> bytes \<Rightarrow> bytes" where
  "write_uint16_hex16 x v =
     write_uint8_hex16 (ucast x) (write_uint8_hex16 (ucast (drop_bit 8 x)) v)"

definition write_uint32_hex16 :: "u32 \<Rightarrow> bytes \<Rightarrow> bytes" where
  "write_uint32_hex16 x v =
     write_uint8_hex16 (ucast x) (write_uint8_hex16 (ucast (drop_bit 8 x))
       (write_uint8_hex16 (ucast (drop_bit 16 x)) (write_uint8_hex16 (ucast (drop_bit 24 x)) v)))"

definition write_uint48_hex16 :: "u64 \<Rightarrow> bytes \<Rightarrow> bytes" where
  "write_uint48_hex16 x v =
     write_uint8_hex16 (ucast x) (write_uint8_hex16 (ucast (drop_bit 8 x))
       (write_uint8_hex16 (ucast (drop_bit 16 x)) (write_uint8_hex16 (ucast (drop_bit 24 x))
         (write_uint8_hex16 (ucast (drop_bit 32 x)) (write_uint8_hex16 (ucast (drop_bit 40 x)) v)))))"

definition write_uint64_hex16 :: "u64 \<Rightarrow> bytes \<Rightarrow> bytes" where
  "write_uint64_hex16 x v =
     write_uint8_hex16 (ucast x) (write_uint8_hex16 (ucast (drop_bit 8 x))
       (write_uint8_hex16 (ucast (drop_bit 16 x)) (write_uint8_hex16 (ucast (drop_bit 24 x))
         (write_uint8_hex16 (ucast (drop_bit 32 x)) (write_uint8_hex16 (ucast (drop_bit 40 x))
           (write_uint8_hex16 (ucast (drop_bit 48 x)) (write_uint8_hex16 (ucast (drop_bit 56 x)) v)))))))"

section \<open>Encodings\<close>

definition be16 :: "u16 \<Rightarrow> bytes" where
  "be16 x = [ucast (drop_bit 8 x), ucast x]"

definition be64 :: "u64 \<Rightarrow> bytes" where
  "be64 x =
     [ucast (drop_bit 56 x), ucast (drop_bit 48 x), ucast (drop_bit 40 x), ucast (drop_bit 32 x),
      ucast (drop_bit 24 x), ucast (drop_bit 16 x), ucast (drop_bit 8 x), ucast x]"

definition hex8 :: "u8 \<Rightarrow> bytes" where
  "hex8 x = [hexify (drop_bit 4 x AND 0xF), hexify (x AND 0xF)]"

lemma byte_and_FF [simp]: "(x :: u8) AND 0xFF = x"
proof -
  have m: "(0xFF :: u8) = mask 8" by (simp add: mask_eq_exp_minus_1)
  show ?thesis
    unfolding m take_bit_eq_mask [symmetric] by (simp add: take_bit_word_eq_self)
qed

lemma write_uint8_app [writer_defs]: "write_uint8 x v = v @ [x]"
  by (simp add: write_uint8_def)

lemma write_uint16_app [writer_defs]: "write_uint16 x v = v @ be16 x"
  by (simp add: write_uint16_def be16_def)

lemma write_uint64_app [writer_defs]: "write_uint64 x v = v @ be64 x"
  by (simp add: write_uint64_def be64_def)

lemma write_data_app [writer_defs]: "write_data data n v = v @ take n data"
  by (simp add: write_data_def)

lemma write_uint8_hex16_app [writer_defs]: "write_uint8_hex16 x v = v @ hex8 x"
  by (simp add: write_uint8_hex16_def hex8_def)

lemma write_uint64_hex16_app [writer_defs]:
  "write_uint64_hex16 x v = v @ concat (map hex8 (be64 x))"
  by (simp add: write_uint64_hex16_def be64_def writer_defs)

lemma length_be16 [simp]: "length (be16 x) = 2" and length_be64 [simp]: "length (be64 y) = 8"
  and length_hex8 [simp]: "length (hex8 b) = 2"
  by (simp_all add: be16_def be64_def hex8_def)

text \<open>A byte cut out of a word and put back over the bits below it.\<close>

lemma rejoin_byte:
  fixes x :: "'w::len word"
  shows "push_bit k (ucast (ucast (drop_bit k x) :: u8)) OR take_bit k x = take_bit (k + 8) x"
  by (rule bit_word_eqI) (auto simp: bit_simps)

lemma low_byte:
  fixes x :: "'w::len word"
  shows "ucast (ucast x :: u8) = take_bit 8 x"
  by (rule bit_word_eqI) (auto simp: bit_simps)

lemma join16:
  fixes x :: u16
  shows "push_bit 8 (ucast (ucast (drop_bit 8 x) :: u8)) OR ucast (ucast x :: u8) = x"
  using rejoin_byte [of 8 x] by (simp add: low_byte take_bit_word_eq_self)

lemma join64:
  fixes x :: u64
  shows "push_bit 56 (ucast (ucast (drop_bit 56 x) :: u8)) OR push_bit 48 (ucast (ucast (drop_bit 48 x) :: u8)) OR
    push_bit 40 (ucast (ucast (drop_bit 40 x) :: u8)) OR push_bit 32 (ucast (ucast (drop_bit 32 x) :: u8)) OR
    push_bit 24 (ucast (ucast (drop_bit 24 x) :: u8)) OR push_bit 16 (ucast (ucast (drop_bit 16 x) :: u8)) OR
    push_bit 8 (ucast (ucast (drop_bit 8 x) :: u8)) OR ucast (ucast x :: u8) = x"
  unfolding low_byte [of x] rejoin_byte numeral_plus_numeral Num.add_num_simps
  by (simp add: take_bit_word_eq_self)

lemma read_uint16_be16: "unread r = be16 x @ bs \<Longrightarrow> read_uint16 r = (x, advance 2 r)"
  using read_uint16_unread [of r "ucast (drop_bit 8 x)" "ucast x" bs] by (simp add: be16_def join16)

lemma read_uint64_be64:
  assumes "unread r = be64 x @ bs"
  shows "read_uint64 r = (x, advance 8 r)"
  using assms unfolding be64_def append_Cons append_Nil
  by (subst read_uint64_unread) (assumption, simp only: join64)

interpretation field8: field_codec "\<lambda>x. [x]" read_uint8 1
  by unfold_locales (auto simp: read_uint8_unread split: list.split)

interpretation field16: field_codec be16 read_uint16 2
  by (unfold_locales, simp, erule read_uint16_be16, auto simp: read_uint16_def length_unread)

interpretation field64: field_codec be64 read_uint64 8
  by (unfold_locales, simp, erule read_uint64_be64, auto simp: read_uint64_def length_unread)

end
