(* ===== verification/Packets.thy ===== *)
theory Packets
  imports BinaryWriter
begin

text \<open>
  The data of \<open>Bitchat/\<close>: packet types and flags (\<open>BitchatPacketTypes.h\<close>), the base class
  \<open>PacketBase\<close> and its subclasses \<open>Message\<close>, \<open>Announce\<close> and \<open>PacketPassAlong\<close> as record extensions
  of it, \<open>Peer\<close>, and the hash under which packets are remembered.
\<close>

section \<open>Packet types and flags\<close>

datatype packet_type_code =
    type_unknown | type_announce | type_leave | type_message | type_fragment_start
  | fragmentContinue | fragmentEnd | channelAnnounce | channelRetention | deliveryAck
  | deliveryStatusRequest | readReceipt | noiseHandshakeInit | noiseHandshakeResp
  | noiseEncrypted | noiseIdentityAnnounce | channelKeyVerifyRequest | channelKeyVerifyResponse
  | channelPasswordUpdate | channelMetadata | versionHello | versionAck | protocolAck
  | protocolNack | systemValidation | handshakeRequest | favorited | unfavorited

fun type_value :: "packet_type_code \<Rightarrow> u8" where
  "type_value type_unknown = 0"
| "type_value type_announce = 0x01"
| "type_value type_leave = 0x03"
| "type_value type_message = 0x04"
| "type_value type_fragment_start = 0x05"
| "type_value fragmentContinue = 0x06"
| "type_value fragmentEnd = 0x07"
| "type_value channelAnnounce = 0x08"
| "type_value channelRetention = 0x09"
| "type_value deliveryAck = 0x0A"
| "type_value deliveryStatusRequest = 0x0B"
| "type_value readReceipt = 0x0C"
| "type_value noiseHandshakeInit = 0x10"
| "type_value noiseHandshakeResp = 0x11"
| "type_value noiseEncrypted = 0x12"
| "type_value noiseIdentityAnnounce = 0x13"
| "type_value channelKeyVerifyRequest = 0x14"
| "type_value channelKeyVerifyResponse = 0x15"
| "type_value channelPasswordUpdate = 0x16"
| "type_value channelMetadata = 0x17"
| "type_value versionHello = 0x20"
| "type_value versionAck = 0x21"
| "type_value protocolAck = 0x22"
| "type_value protocolNack = 0x23"
| "type_value systemValidation = 0x24"
| "type_value handshakeRequest = 0x25"
| "type_value favorited = 0x30"
| "type_value unfavorited = 0x31"

definition packet_type_codes :: "packet_type_code list" where
  "packet_type_codes =
     [type_unknown, type_announce, type_leave, type_message, type_fragment_start,
      fragmentContinue, fragmentEnd, channelAnnounce, channelRetention, deliveryAck,
      deliveryStatusRequest, readReceipt, noiseHandshakeInit, noiseHandshakeResp,
      noiseEncrypted, noiseIdentityAnnounce, channelKeyVerifyRequest, channelKeyVerifyResponse,
      channelPasswordUpdate, channelMetadata, versionHello, versionAck, protocolAck,
      protocolNack, systemValidation, handshakeRequest, favorited, unfavorited]"

text \<open>The enumerator a \<open>switch\<close> over a type byte selects, if there is one.\<close>

definition type_of_value :: "u8 \<Rightarrow> packet_type_code option" where
  "type_of_value v = find (\<lambda>t. type_value t = v) packet_type_codes"

definition packet_flag_has_recipient :: u8 where
  "packet_flag_has_recipient = 0x01"

definition packet_flag_has_signature :: u8 where
  "packet_flag_has_signature = 0x02"

definition packet_flag_is_compressed :: u8 where
  "packet_flag_is_compressed = 0x04"

definition has_flag :: "u8 \<Rightarrow> u8 \<Rightarrow> bool" where
  "has_flag flags f \<longleftrightarrow> flags AND f \<noteq> 0"

section \<open>Packets\<close>

record packet_base =
  packet_type :: u8
  packet_ttl :: u8
  packet_timestamp :: u64
  packet_flags :: u8
  packet_sender_id :: u64
  packet_recipient_id :: u64
  packet_signature :: bytes

definition PacketBase_of_type :: "u8 \<Rightarrow> packet_base" where
  "PacketBase_of_type t =
     \<lparr>packet_type = t, packet_ttl = 0, packet_timestamp = 0, packet_flags = 0,
      packet_sender_id = 0, packet_recipient_id = 0, packet_signature = []\<rparr>"

definition PacketBase_from :: "u8 \<Rightarrow> u8 \<Rightarrow> u64 \<Rightarrow> u8 \<Rightarrow> u64 \<Rightarrow> packet_base" where
  "PacketBase_from t ttl timestamp flags sender =
     \<lparr>packet_type = t, packet_ttl = ttl, packet_timestamp = timestamp, packet_flags = flags,
      packet_sender_id = sender, packet_recipient_id = 0, packet_signature = []\<rparr>"

definition PacketBase_full ::
    "u8 \<Rightarrow> u8 \<Rightarrow> u64 \<Rightarrow> u8 \<Rightarrow> u64 \<Rightarrow> u64 \<Rightarrow> bytes \<Rightarrow> packet_base" where
  "PacketBase_full t ttl timestamp flags sender recipient signature =
     \<lparr>packet_type = t, packet_ttl = ttl, packet_timestamp = timestamp, packet_flags = flags,
      packet_sender_id = sender, packet_recipient_id = recipient, packet_signature = signature\<rparr>"

text \<open>The accessor divides the stored milliseconds by 1000.\<close>

definition getPacketTimestampMs :: "'z packet_base_scheme \<Rightarrow> u64" where
  "getPacketTimestampMs p = packet_timestamp p div 1000"

definition hasPacketRecipient :: "'z packet_base_scheme \<Rightarrow> bool" where
  "hasPacketRecipient p = has_flag (packet_flags p) packet_flag_has_recipient"

definition hasPacketSignature :: "'z packet_base_scheme \<Rightarrow> bool" where
  "hasPacketSignature p = has_flag (packet_flags p) packet_flag_has_signature"

definition setPacketTtl :: "u8 \<Rightarrow> 'z packet_base_scheme \<Rightarrow> 'z packet_base_scheme" where
  "setPacketTtl ttl p = p\<lparr>packet_ttl := ttl\<rparr>"

definition setPacketTimestamp :: "u64 \<Rightarrow> 'z packet_base_scheme \<Rightarrow> 'z packet_base_scheme" where
  "setPacketTimestamp timestamp p = p\<lparr>packet_timestamp := timestamp\<rparr>"

definition setPacketFlags :: "u8 \<Rightarrow> 'z packet_base_scheme \<Rightarrow> 'z packet_base_scheme" where
  "setPacketFlags flags p = p\<lparr>packet_flags := flags\<rparr>"

definition setPacketSenderId :: "u64 \<Rightarrow> 'z packet_base_scheme \<Rightarrow> 'z packet_base_scheme" where
  "setPacketSenderId sender p = p\<lparr>packet_sender_id := sender\<rparr>"

subsection \<open>Messages\<close>

text \<open>
  \<open>sender_peer\<close> is a \<open>Peer *\<close> into the tracker's peer map, whose nodes are never erased: it is null
  or the key of the peer.
\<close>

record message = packet_base +
  message_flags :: u8
  message_timestamp :: u64
  message_id :: bytes
  sender_nickname :: bytes
  original_sender_nickname :: bytes
  content :: bytes
  encrypted_content :: bytes
  recipient_nickname :: bytes
  sender_peer :: "u64 option"
  mentions :: "bytes list"
  channel :: bytes

definition message_over :: "packet_base \<Rightarrow> message" where
  "message_over p = packet_base.extend p (message.fields 0 0 [] [] [] [] [] [] None [] [])"

definition new_Message :: message where
  "new_Message = message_over (PacketBase_of_type (type_value type_message))"

definition Message_from :: "u8 \<Rightarrow> u64 \<Rightarrow> u8 \<Rightarrow> u64 \<Rightarrow> message" where
  "Message_from ttl timestamp flags sender =
     message_over (PacketBase_from (type_value type_message) ttl timestamp flags sender)"

definition Message_full :: "u8 \<Rightarrow> u64 \<Rightarrow> u8 \<Rightarrow> u64 \<Rightarrow> u64 \<Rightarrow> bytes \<Rightarrow> message" where
  "Message_full ttl timestamp flags sender recipient signature =
     message_over
       (PacketBase_full (type_value type_message) ttl timestamp flags sender recipient signature)"

definition isRelay :: "message \<Rightarrow> bool" where
  "isRelay m = has_flag (message_flags m) 0x01"

definition isPrivate :: "message \<Rightarrow> bool" where
  "isPrivate m = has_flag (message_flags m) 0x02"

definition hasOriginalSender :: "message \<Rightarrow> bool" where
  "hasOriginalSender m = has_flag (message_flags m) 0x04"

definition hasRecipientNickname :: "message \<Rightarrow> bool" where
  "hasRecipientNickname m = has_flag (message_flags m) 0x08"

definition hasSenderPeerID :: "message \<Rightarrow> bool" where
  "hasSenderPeerID m = has_flag (message_flags m) 0x10"

definition hasMentions :: "message \<Rightarrow> bool" where
  "hasMentions m = has_flag (message_flags m) 0x20"

definition hasChannel :: "message \<Rightarrow> bool" where
  "hasChannel m = has_flag (message_flags m) 0x40"

definition isEncrypted :: "message \<Rightarrow> bool" where
  "isEncrypted m = has_flag (message_flags m) 0x80"

definition setMessageFlags :: "u8 \<Rightarrow> message \<Rightarrow> message" where
  "setMessageFlags flags m = m\<lparr>message_flags := flags\<rparr>"

definition setMessageTimestamp :: "u64 \<Rightarrow> message \<Rightarrow> message" where
  "setMessageTimestamp t m = m\<lparr>message_timestamp := t\<rparr>"

definition setMessageId :: "bytes \<Rightarrow> message \<Rightarrow> message" where
  "setMessageId s m = m\<lparr>message_id := s\<rparr>"

definition setSenderNickname :: "bytes \<Rightarrow> message \<Rightarrow> message" where
  "setSenderNickname s m = m\<lparr>sender_nickname := s\<rparr>"

definition setContent :: "bytes \<Rightarrow> message \<Rightarrow> message" where
  "setContent s m = m\<lparr>content := s\<rparr>"

definition setEncryptedContent :: "bytes \<Rightarrow> message \<Rightarrow> message" where
  "setEncryptedContent s m = m\<lparr>encrypted_content := s\<rparr>"

definition setOriginalSenderNickname :: "bytes \<Rightarrow> message \<Rightarrow> message" where
  "setOriginalSenderNickname s m = m\<lparr>original_sender_nickname := s\<rparr>"

definition setRecipientNickname :: "bytes \<Rightarrow> message \<Rightarrow> message" where
  "setRecipientNickname s m = m\<lparr>recipient_nickname := s\<rparr>"

definition addMention :: "bytes \<Rightarrow> message \<Rightarrow> message" where
  "addMention s m = m\<lparr>mentions := mentions m @ [s]\<rparr>"

definition setChannel :: "bytes \<Rightarrow> message \<Rightarrow> message" where
  "setChannel s m = m\<lparr>channel := s\<rparr>"

definition setSenderPeer :: "u64 \<Rightarrow> message \<Rightarrow> message" where
  "setSenderPeer k m = m\<lparr>sender_peer := Some k\<rparr>"

subsection \<open>Announcements and packets passed along\<close>

record announce = packet_base +
  announce_name :: bytes

definition new_Announce :: announce where
  "new_Announce =
     packet_base.extend (PacketBase_of_type (type_value type_announce)) (announce.fields [])"

definition setName :: "bytes \<Rightarrow> announce \<Rightarrow> announce" where
  "setName s a = a\<lparr>announce_name := s\<rparr>"

record pass_along = packet_base +
  payload :: bytes

definition new_PacketPassAlong :: pass_along where
  "new_PacketPassAlong =
     packet_base.extend (PacketBase_of_type (type_value type_unknown)) (pass_along.fields [])"

definition PacketPassAlong_full ::
    "u8 \<Rightarrow> u8 \<Rightarrow> u64 \<Rightarrow> u8 \<Rightarrow> u64 \<Rightarrow> u64 \<Rightarrow> bytes \<Rightarrow> pass_along" where
  "PacketPassAlong_full t ttl timestamp flags sender recipient signature =
     packet_base.extend (PacketBase_full t ttl timestamp flags sender recipient signature)
       (pass_along.fields [])"

definition setPayload :: "bytes \<Rightarrow> pass_along \<Rightarrow> pass_along" where
  "setPayload s p = p\<lparr>payload := s\<rparr>"

text \<open>
  The key of a packet in the tracker. \<open>std::hash<std::string>\<close> belongs to the C++ library and is a
  parameter; \<open>size_t\<close> has 32 bits on the target.
\<close>

definition getPacketHash :: "(bytes \<Rightarrow> u32) \<Rightarrow> pass_along \<Rightarrow> u32" where
  "getPacketHash std_hash p =
     (let hash_payload = std_hash (payload p);
          meta_buffer = write_uint64 (packet_recipient_id p) (write_uint64 (packet_sender_id p)
            (write_uint64 (packet_timestamp p) (write_uint8 (packet_flags p)
              (write_uint8 (packet_type p) []))));
          hash_meta = std_hash meta_buffer
      in hash_payload XOR push_bit 1 hash_meta)"

section \<open>Peers\<close>

record peer =
  peer_id :: u64
  peer_name :: bytes
  public_key :: bytes
  max_ttl :: u8
  peer_connection_handle :: u16

definition new_Peer :: peer where
  "new_Peer =
     \<lparr>peer_id = 0, peer_name = [], public_key = [], max_ttl = 0, peer_connection_handle = 0\<rparr>"

definition Peer_named :: "u64 \<Rightarrow> bytes \<Rightarrow> peer" where
  "Peer_named i s = new_Peer\<lparr>peer_id := i, peer_name := s\<rparr>"

definition updateName :: "bytes \<Rightarrow> peer \<Rightarrow> peer" where
  "updateName s p = p\<lparr>peer_name := s\<rparr>"

definition setId :: "u64 \<Rightarrow> peer \<Rightarrow> peer" where
  "setId i p = p\<lparr>peer_id := i\<rparr>"

definition updateNoisePublicKey :: "bytes \<Rightarrow> peer \<Rightarrow> peer" where
  "updateNoisePublicKey k p = p\<lparr>public_key := k\<rparr>"

definition setAnnounceTtl :: "u8 \<Rightarrow> peer \<Rightarrow> peer" where
  "setAnnounceTtl ttl p = p\<lparr>max_ttl := ttl\<rparr>"

definition setConnectionHandle_peer :: "u16 \<Rightarrow> peer \<Rightarrow> peer" where
  "setConnectionHandle_peer h p = p\<lparr>peer_connection_handle := h\<rparr>"

section \<open>Objects of any packet class\<close>

text \<open>What a \<open>const PacketBase *\<close> can point to, by dynamic class.\<close>

datatype packet = MessagePacket message | AnnouncePacket announce | PassAlongPacket pass_along

fun base :: "packet \<Rightarrow> packet_base" where
  "base (MessagePacket m) = packet_base.truncate m"
| "base (AnnouncePacket a) = packet_base.truncate a"
| "base (PassAlongPacket p) = packet_base.truncate p"

section \<open>Facts\<close>

lemma type_of_type_value [simp]: "type_of_value (type_value t) = Some t"
  by (cases t) (simp_all add: type_of_value_def packet_type_codes_def)

lemma type_value_inj: "type_value s = type_value t \<Longrightarrow> s = t"
  by (metis option.inject type_of_type_value)

lemma type_of_value_Some: "type_of_value v = Some t \<Longrightarrow> type_value t = v"
  by (auto simp: type_of_value_def find_Some_iff)

lemmas message_flag_defs = isRelay_def isPrivate_def hasOriginalSender_def
  hasRecipientNickname_def hasSenderPeerID_def hasMentions_def hasChannel_def isEncrypted_def

lemmas message_setters = setMessageFlags_def setMessageTimestamp_def setMessageId_def
  setSenderNickname_def setContent_def setEncryptedContent_def setOriginalSenderNickname_def
  setRecipientNickname_def addMention_def setChannel_def setSenderPeer_def

lemmas packet_setters = setPacketTtl_def setPacketTimestamp_def setPacketFlags_def
  setPacketSenderId_def setName_def setPayload_def

lemmas new_packet_defs = PacketBase_of_type_def PacketBase_from_def PacketBase_full_def
  message_over_def new_Message_def Message_from_def Message_full_def new_Announce_def
  new_PacketPassAlong_def PacketPassAlong_full_def packet_base.defs message.defs announce.defs
  pass_along.defs

text \<open>
  A packet that comes round again, with a lower time to live, has the same key.
\<close>

lemma getPacketHash_ignores_ttl [simp]:
  "getPacketHash h (p\<lparr>packet_ttl := t\<rparr>) = getPacketHash h p"
  by (simp add: getPacketHash_def)

declare base.simps [simp del]

lemma message_base_simps [simp]:
  "packet_type (base (MessagePacket m)) = packet_type m"
  "packet_ttl (base (MessagePacket m)) = packet_ttl m"
  "packet_timestamp (base (MessagePacket m)) = packet_timestamp m"
  "packet_flags (base (MessagePacket m)) = packet_flags m"
  "packet_sender_id (base (MessagePacket m)) = packet_sender_id m"
  "packet_recipient_id (base (MessagePacket m)) = packet_recipient_id m"
  "packet_signature (base (MessagePacket m)) = packet_signature m"
  by (simp_all add: base.simps packet_base.defs)

lemma pass_along_base_simps [simp]:
  "packet_type (base (PassAlongPacket p)) = packet_type p"
  "packet_ttl (base (PassAlongPacket p)) = packet_ttl p"
  "packet_timestamp (base (PassAlongPacket p)) = packet_timestamp p"
  "packet_flags (base (PassAlongPacket p)) = packet_flags p"
  "packet_sender_id (base (PassAlongPacket p)) = packet_sender_id p"
  "packet_recipient_id (base (PassAlongPacket p)) = packet_recipient_id p"
  "packet_signature (base (PassAlongPacket p)) = packet_signature p"
  by (simp_all add: base.simps packet_base.defs)

lemma announce_base_simps [simp]:
  "packet_type (base (AnnouncePacket a)) = packet_type a"
  "packet_ttl (base (AnnouncePacket a)) = packet_ttl a"
  "packet_timestamp (base (AnnouncePacket a)) = packet_timestamp a"
  "packet_flags (base (AnnouncePacket a)) = packet_flags a"
  "packet_sender_id (base (AnnouncePacket a)) = packet_sender_id a"
  "packet_recipient_id (base (AnnouncePacket a)) = packet_recipient_id a"
  "packet_signature (base (AnnouncePacket a)) = packet_signature a"
  by (simp_all add: base.simps packet_base.defs)

end
