(* ===== verification/ProtocolWriter.thy ===== *)
theory ProtocolWriter
  imports Packets
begin

text \<open>
  The serialiser of \<open>Bitchat/ProtocolWriter.cpp\<close>: a packet is written as it is relayed, with its time
  to live reduced by one. The lemmas give the bytes in closed form, which is what the parser's
  round trips start from.
\<close>

section \<open>Model\<close>

text \<open>A string after its length in one byte, cut at 255 bytes.\<close>

definition write_short_string :: "bytes \<Rightarrow> bytes \<Rightarrow> bytes" where
  "write_short_string s v =
     (let n = min 255 (length s) in write_data s n (write_uint8 (of_nat n) v))"

text \<open>A string after its length in two bytes, cut at 65535 bytes.\<close>

definition write_long_string :: "bytes \<Rightarrow> bytes \<Rightarrow> bytes" where
  "write_long_string s v =
     (let n = min 65535 (length s) in write_data s n (write_uint16 (of_nat n) v))"

text \<open>\<open>message.getSenderPeer()->getId()\<close>, over the tracker's peers.\<close>

definition sender_peer_id :: "(u64, peer) omap \<Rightarrow> message \<Rightarrow> u64 result" where
  "sender_peer_id peers m =
     (case sender_peer m of
        None \<Rightarrow> Inl NullDereference
      | Some k \<Rightarrow> (case map_of peers k of None \<Rightarrow> Inl DanglingPointer | Some p \<Rightarrow> Inr (peer_id p)))"

definition write_if :: "bool \<Rightarrow> (bytes \<Rightarrow> bytes) \<Rightarrow> bytes \<Rightarrow> bytes" where
  "write_if c w v = (if c then w v else v)"

definition writeMessagePayload :: "(u64, peer) omap \<Rightarrow> message \<Rightarrow> bytes \<Rightarrow> bytes result" where
  "writeMessagePayload peers m v =
     (let v = write_uint8 (message_flags m) v;
          v = write_uint64 (message_timestamp m) v;
          v = write_short_string (message_id m) v;
          v = write_short_string (sender_nickname m) v;
          v = write_long_string (content m) v;
          v = write_if (hasOriginalSender m) (write_short_string (original_sender_nickname m)) v;
          v = write_if (hasRecipientNickname m) (write_short_string (recipient_nickname m)) v
      in bind_result
           (if hasSenderPeerID m
            then bind_result (sender_peer_id peers m) (\<lambda>i.
                   Inr (write_uint64_hex16 i (write_uint8 16 v)))
            else Inr v)
           (\<lambda>v. let
              v = write_if (hasMentions m)
                    (\<lambda>v. fold write_short_string (mentions m)
                           (write_uint8 (of_nat (min 255 (length (mentions m)))) v)) v;
              v = write_if (hasChannel m) (write_short_string (channel m)) v
            in Inr v))"

text \<open>
  \<open>static_cast\<close> to a derived class: it checks nothing, and using the result is undefined unless the
  object is of that class.
\<close>

fun as_announce :: "packet \<Rightarrow> announce result" where
  "as_announce (AnnouncePacket a) = Inr a"
| "as_announce (MessagePacket m) = Inl BadCast"
| "as_announce (PassAlongPacket p) = Inl BadCast"

fun as_message :: "packet \<Rightarrow> message result" where
  "as_message (MessagePacket m) = Inr m"
| "as_message (AnnouncePacket a) = Inl BadCast"
| "as_message (PassAlongPacket p) = Inl BadCast"

fun as_pass_along :: "packet \<Rightarrow> pass_along result" where
  "as_pass_along (PassAlongPacket p) = Inr p"
| "as_pass_along (AnnouncePacket a) = Inl BadCast"
| "as_pass_along (MessagePacket m) = Inl BadCast"

text \<open>The switch over the packet's type. The length argument of \<open>write_data\<close> is a \<open>uint16_t\<close>.\<close>

definition packet_payload :: "(u64, peer) omap \<Rightarrow> packet \<Rightarrow> bytes result" where
  "packet_payload peers p =
     (if packet_type (base p) = type_value type_announce
      then bind_result (as_announce p) (\<lambda>a.
             Inr (write_data (announce_name a) (length (announce_name a) mod 65536) []))
      else if packet_type (base p) = type_value type_message
      then bind_result (as_message p) (\<lambda>m. writeMessagePayload peers m [])
      else bind_result (as_pass_along p) (\<lambda>q.
             Inr (write_data (payload q) (length (payload q) mod 65536) [])))"

definition writePacket :: "(u64, peer) omap \<Rightarrow> packet \<Rightarrow> bytes \<Rightarrow> bytes result" where
  "writePacket peers p v =
     (let b = base p;
          v = write_uint8 1 v;
          v = write_uint8 (packet_type b) v;
          v = write_uint8 (packet_ttl b - 1) v;
          v = write_uint64 (packet_timestamp b) v;
          v = write_uint8 (packet_flags b) v
      in bind_result (packet_payload peers p) (\<lambda>payload.
         let payload_len = min 65535 (length payload);
             v = write_uint16 (of_nat payload_len) v;
             v = write_uint64 (packet_sender_id b) v;
             v = write_if (hasPacketRecipient b) (write_uint64 (packet_recipient_id b)) v;
             v = write_data payload payload_len v;
             v = write_if (hasPacketSignature b)
                   (write_short_string (packet_signature b)) v
         in Inr (write_uint8 0 v)))"

section \<open>The bytes in closed form\<close>

definition short_string :: "bytes \<Rightarrow> bytes" where
  "short_string s = of_nat (min 255 (length s)) # take 255 s"

definition long_string :: "bytes \<Rightarrow> bytes" where
  "long_string s = be16 (of_nat (min 65535 (length s))) @ take 65535 s"

lemma write_short_string_app [writer_defs]: "write_short_string s v = v @ short_string s"
  by (simp add: write_short_string_def short_string_def writer_defs min_def Let_def)

lemma write_long_string_app [writer_defs]: "write_long_string s v = v @ long_string s"
  by (simp add: write_long_string_def long_string_def writer_defs min_def Let_def)

lemma fold_write_short_string [writer_defs]:
  "fold write_short_string ss v = v @ concat (map short_string ss)"
  by (induction ss arbitrary: v) (simp_all add: writer_defs)

lemma write_if_app [writer_defs]:
  "(\<And>v. w v = v @ xs) \<Longrightarrow> write_if c w v = v @ (if c then xs else [])"
  by (simp add: write_if_def)

text \<open>The parts of a message payload.\<close>

definition message_fields :: "message \<Rightarrow> bytes" where
  "message_fields m =
     message_flags m # be64 (message_timestamp m) @ short_string (message_id m) @
     short_string (sender_nickname m) @ long_string (content m) @
     (if hasOriginalSender m then short_string (original_sender_nickname m) else []) @
     (if hasRecipientNickname m then short_string (recipient_nickname m) else [])"

definition message_tail :: "message \<Rightarrow> bytes" where
  "message_tail m =
     (if hasMentions m
      then of_nat (min 255 (length (mentions m))) # concat (map short_string (mentions m)) else []) @
     (if hasChannel m then short_string (channel m) else [])"

lemma writeMessagePayload_bytes:
  "writeMessagePayload peers m v =
     (if hasSenderPeerID m
      then bind_result (sender_peer_id peers m) (\<lambda>i.
        Inr (v @ message_fields m @ (16 # concat (map hex8 (be64 i))) @ message_tail m))
      else Inr (v @ message_fields m @ message_tail m))"
  by (cases "sender_peer_id peers m")
    (simp_all add: writeMessagePayload_def message_fields_def message_tail_def write_if_def
      writer_defs Let_def)

text \<open>The header up to the payload, and what follows it.\<close>

definition header_bytes :: "packet_base \<Rightarrow> nat \<Rightarrow> bytes" where
  "header_bytes b n =
     [1, packet_type b, packet_ttl b - 1] @ be64 (packet_timestamp b) @ [packet_flags b] @
     be16 (of_nat n) @ be64 (packet_sender_id b) @
     (if hasPacketRecipient b then be64 (packet_recipient_id b) else [])"

definition trailer_bytes :: "packet_base \<Rightarrow> bytes" where
  "trailer_bytes b = (if hasPacketSignature b then short_string (packet_signature b) else []) @ [0]"

lemma writePacket_bytes:
  "writePacket peers p v = bind_result (packet_payload peers p) (\<lambda>payload.
     Inr (v @ header_bytes (base p) (min 65535 (length payload)) @ take 65535 payload @
       trailer_bytes (base p)))"
  by (cases "packet_payload peers p")
    (simp_all add: writePacket_def header_bytes_def trailer_bytes_def write_if_def writer_defs
      Let_def min_def)

lemma length_header_bytes:
  "length (header_bytes b n) = (if hasPacketRecipient b then 30 else 22)"
  by (simp add: header_bytes_def)

lemma packet_payload_pass_along:
  assumes "packet_type p \<noteq> type_value type_message" and "packet_type p \<noteq> type_value type_announce"
    and "length (payload p) < 65536"
  shows "packet_payload peers (PassAlongPacket p) = Inr (payload p)"
  using assms by (simp add: packet_payload_def write_data_def)

end
