(* ===== verification/BleConnection.thy ===== *)
theory BleConnection
  imports Prelude
begin

text \<open>
  A connection or scanned neighbour as \<open>BLE/BleConnection.cpp\<close> keeps it, with the discovery of the
  bitchat service and characteristic. The constants of the Bluetooth stack that the code compares
  with (roles, address types) have the values of its headers, which \<open>test/bitchat_repeater_mocks.h\<close>
  repeats; the stack's notification listener is opaque and not part of the record.
\<close>

section \<open>Constants\<close>

definition bitchat_service_uuid :: bytes where
  "bitchat_service_uuid =
     [0xF4, 0x7B, 0x5E, 0x2D, 0x4A, 0x9E, 0x4C, 0x5A, 0x9B, 0x3F, 0x8E, 0x1D, 0x2C, 0x3A, 0x4B, 0x5C]"

definition bitchat_service_uuid_reversed :: bytes where
  "bitchat_service_uuid_reversed =
     [0x5C, 0x4B, 0x3A, 0x2C, 0x1D, 0x8E, 0x3F, 0x9B, 0x5A, 0x4C, 0x9E, 0x4A, 0x2D, 0x5E, 0x7B, 0xF4]"

text \<open>\<^verbatim>\<open>Repeater\<close>.\<close>

definition bitchat_service_name :: bytes where
  "bitchat_service_name = [0x52, 0x65, 0x70, 0x65, 0x61, 0x74, 0x65, 0x72]"

definition bitchat_characteristic_uuid :: bytes where
  "bitchat_characteristic_uuid =
     [0xA1, 0xB2, 0xC3, 0xD4, 0xE5, 0xF6, 0x4A, 0x5B, 0x8C, 0x9D, 0x0E, 0x1F, 0x2A, 0x3B, 0x4C, 0x5D]"

datatype service_uuid_check_status =
    ServiceUUIDNotFound | ServiceUUIDFound | ServiceUUIDAndNameFound

definition HCI_ROLE_MASTER :: u8 where "HCI_ROLE_MASTER = 0"
definition HCI_ROLE_SLAVE :: u8 where "HCI_ROLE_SLAVE = 1"
definition HCI_ROLE_INVALID :: u8 where "HCI_ROLE_INVALID = 0xFF"
definition BD_ADDR_TYPE_LE_RANDOM :: u8 where "BD_ADDR_TYPE_LE_RANDOM = 1"
definition BD_ADDR_TYPE_UNKNOWN :: u8 where "BD_ADDR_TYPE_UNKNOWN = 0xFE"

section \<open>Connections\<close>

record ble_connection =
  connection_handle :: u16
  bt_address :: bytes
  bt_address_type :: u8
  bt_mtu :: u16
  bitchat_service_start_group_handle :: u16
  bitchat_service_end_group_handle :: u16
  bitchat_characteristic_value_handle :: u16
  notification_enabled :: bool
  has_data_to_send :: bool
  connected :: bool
  services_found :: service_uuid_check_status
  rssi :: int
  role :: u8
  last_seen_time :: u64

definition new_BleConnection :: ble_connection where
  "new_BleConnection =
     \<lparr>connection_handle = 0, bt_address = replicate 6 0, bt_address_type = BD_ADDR_TYPE_UNKNOWN,
      bt_mtu = 0, bitchat_service_start_group_handle = 0, bitchat_service_end_group_handle = 0,
      bitchat_characteristic_value_handle = 0, notification_enabled = False,
      has_data_to_send = False, connected = False, services_found = ServiceUUIDFound, rssi = 0,
      role = HCI_ROLE_INVALID, last_seen_time = 0\<rparr>"

definition setConnectionHandle :: "u16 \<Rightarrow> ble_connection \<Rightarrow> ble_connection" where
  "setConnectionHandle h c = c\<lparr>connection_handle := h\<rparr>"

definition setNotificationEnabled :: "bool \<Rightarrow> ble_connection \<Rightarrow> ble_connection" where
  "setNotificationEnabled b c = c\<lparr>notification_enabled := b\<rparr>"

definition setBitchatCharacteristicValueHandle :: "u16 \<Rightarrow> ble_connection \<Rightarrow> ble_connection" where
  "setBitchatCharacteristicValueHandle h c = c\<lparr>bitchat_characteristic_value_handle := h\<rparr>"

definition setConnected :: "bool \<Rightarrow> ble_connection \<Rightarrow> ble_connection" where
  "setConnected b c = c\<lparr>connected := b\<rparr>"

definition setBleAddress :: "bytes \<Rightarrow> u8 \<Rightarrow> ble_connection \<Rightarrow> ble_connection" where
  "setBleAddress addr addr_type c = c\<lparr>bt_address := take 6 addr, bt_address_type := addr_type\<rparr>"

definition setHasData :: "bool \<Rightarrow> ble_connection \<Rightarrow> ble_connection" where
  "setHasData b c = c\<lparr>has_data_to_send := b\<rparr>"

definition setServices :: "service_uuid_check_status \<Rightarrow> ble_connection \<Rightarrow> ble_connection" where
  "setServices s c = c\<lparr>services_found := s\<rparr>"

definition setRssi :: "int \<Rightarrow> ble_connection \<Rightarrow> ble_connection" where
  "setRssi r c = c\<lparr>rssi := r\<rparr>"

definition setTimestamp :: "u64 \<Rightarrow> ble_connection \<Rightarrow> ble_connection" where
  "setTimestamp t c = c\<lparr>last_seen_time := t\<rparr>"

definition setMtu :: "u16 \<Rightarrow> ble_connection \<Rightarrow> ble_connection" where
  "setMtu m c = c\<lparr>bt_mtu := m\<rparr>"

definition setRole :: "u8 \<Rightarrow> ble_connection \<Rightarrow> ble_connection" where
  "setRole r c = c\<lparr>role := r\<rparr>"

definition isRepeater :: "ble_connection \<Rightarrow> bool" where
  "isRepeater c \<longleftrightarrow> services_found c = ServiceUUIDAndNameFound"

definition isRandom :: "ble_connection \<Rightarrow> bool" where
  "isRandom c \<longleftrightarrow> bt_address_type c = BD_ADDR_TYPE_LE_RANDOM"

definition getTimestampMs :: "ble_connection \<Rightarrow> u64" where
  "getTimestampMs c = last_seen_time c div 1000"

section \<open>Service discovery\<close>

record gatt_service =
  start_group_handle :: u16
  end_group_handle :: u16
  service_uuid16 :: u16
  service_uuid128 :: bytes

record gatt_characteristic =
  value_handle :: u16
  characteristic_uuid16 :: u16
  characteristic_uuid128 :: bytes

definition storeHandlesIfServiceMatches :: "gatt_service \<Rightarrow> ble_connection \<Rightarrow> ble_connection" where
  "storeHandlesIfServiceMatches s c =
     (if bitchat_service_uuid = service_uuid128 s
      then c\<lparr>bitchat_service_start_group_handle := start_group_handle s,
             bitchat_service_end_group_handle := end_group_handle s\<rparr>
      else c)"

definition storeHandlesIfCharacteristicMatches ::
    "gatt_characteristic \<Rightarrow> ble_connection \<Rightarrow> ble_connection" where
  "storeHandlesIfCharacteristicMatches ch c =
     (if bitchat_characteristic_uuid = characteristic_uuid128 ch
      then c\<lparr>bitchat_characteristic_value_handle := value_handle ch\<rparr>
      else c)"

text \<open>The query to send next, if the service is known and the characteristic is not.\<close>

definition canAndNeedToDiscoverBitchatCharacteristicsQuery :: "ble_connection \<Rightarrow> gatt_service option" where
  "canAndNeedToDiscoverBitchatCharacteristicsQuery c =
     (if bitchat_service_start_group_handle c > 0 \<and> bitchat_characteristic_value_handle c = 0
      then Some \<lparr>start_group_handle = bitchat_service_start_group_handle c,
                 end_group_handle = bitchat_service_end_group_handle c,
                 service_uuid16 = 0, service_uuid128 = bitchat_service_uuid\<rparr>
      else None)"

lemmas connection_setters = setConnectionHandle_def setNotificationEnabled_def
  setBitchatCharacteristicValueHandle_def setConnected_def setBleAddress_def setHasData_def
  setServices_def setRssi_def setTimestamp_def setMtu_def setRole_def

section \<open>Properties\<close>

text \<open>
  C28: discovery makes progress and stops: the answer to the service query that names the bitchat
  service makes the characteristic query due, for exactly the handles of the answer; the answer
  that names the bitchat characteristic makes no further query due; other answers change nothing.
\<close>

theorem discovery_progress:
  assumes "bitchat_characteristic_value_handle c = 0"
    and "service_uuid128 s = bitchat_service_uuid" and "start_group_handle s > 0"
    and "characteristic_uuid128 ch = bitchat_characteristic_uuid" and "value_handle ch > 0"
    and "service_uuid128 s' \<noteq> bitchat_service_uuid"
    and "characteristic_uuid128 ch' \<noteq> bitchat_characteristic_uuid"
  shows "canAndNeedToDiscoverBitchatCharacteristicsQuery (storeHandlesIfServiceMatches s c) =
      Some \<lparr>start_group_handle = start_group_handle s, end_group_handle = end_group_handle s,
            service_uuid16 = 0, service_uuid128 = bitchat_service_uuid\<rparr> \<and>
    canAndNeedToDiscoverBitchatCharacteristicsQuery
      (storeHandlesIfCharacteristicMatches ch (storeHandlesIfServiceMatches s c)) = None \<and>
    storeHandlesIfServiceMatches s' c = c \<and> storeHandlesIfCharacteristicMatches ch' c = c"
  using assms
  by (auto simp: canAndNeedToDiscoverBitchatCharacteristicsQuery_def
      storeHandlesIfServiceMatches_def storeHandlesIfCharacteristicMatches_def)

theorem discovery_progress_witness:
  "canAndNeedToDiscoverBitchatCharacteristicsQuery
     (storeHandlesIfCharacteristicMatches
       \<lparr>value_handle = 9, characteristic_uuid16 = 0, characteristic_uuid128 = bitchat_characteristic_uuid\<rparr>
       (storeHandlesIfServiceMatches
         \<lparr>start_group_handle = 1, end_group_handle = 5, service_uuid16 = 0,
          service_uuid128 = bitchat_service_uuid\<rparr> new_BleConnection)) = None"
  using discovery_progress [of new_BleConnection
      "\<lparr>start_group_handle = 1, end_group_handle = 5, service_uuid16 = 0,
        service_uuid128 = bitchat_service_uuid\<rparr>"
      "\<lparr>value_handle = 9, characteristic_uuid16 = 0,
        characteristic_uuid128 = bitchat_characteristic_uuid\<rparr>"
      "\<lparr>start_group_handle = 0, end_group_handle = 0, service_uuid16 = 0, service_uuid128 = []\<rparr>"
      "\<lparr>value_handle = 9, characteristic_uuid16 = 0, characteristic_uuid128 = []\<rparr>"]
  by (simp add: new_BleConnection_def bitchat_service_uuid_def bitchat_characteristic_uuid_def)

lemma service_uuid_reversed: "bitchat_service_uuid_reversed = rev bitchat_service_uuid"
  by (simp add: bitchat_service_uuid_reversed_def bitchat_service_uuid_def)

end
