(* ===== verification/Tracker.thy ===== *)
theory Tracker
  imports ProtocolWriter BleConnection
begin

text \<open>
  The state of \<open>BLE/BleConnectionTracker.h\<close> and the operations of \<open>BleConnectionTracker.cpp\<close> that keep
  its stores: peers, messages and packets seen, connections, neighbours, the queues of packets to
  send and the time offset. Sending and clean-up are in the theories that import this one.

  Pointers are modelled as the code uses them. A \<open>PacketBase *\<close> is the address of a map node (or
  of the tracker's own announcement), because the multimaps are ordered by it; the address a new node
  gets is an argument, the allocator's choice. A \<open>Peer *\<close> is the key of a node that is never erased.
  A \<open>BleConnection *\<close> points to a node of \<open>connections\<close> or to a local copy in some stack frame.
\<close>

section \<open>State\<close>

type_synonym addr = u32

datatype connection_ptr = ConnectionNode u16 | LocalCopy addr

text \<open>Calls into the Bluetooth stack, oldest first.\<close>

datatype stack_call =
    Listen_value_updates u16 u16
  | Stop_listening u16
  | Read_rssi u16
  | Request_notification u16
  | Request_write u16
  | Notify u16 u16 bytes
  | Write_value u16 u16 bytes
  | Set_max_peripheral_connections nat
  | Set_advertisement_params u16 u16 u8 u8 bytes u8 u8
  | Set_advertisement_data u8 bytes
  | Enable_advertisements bool
  | Set_scan_params u8 u16 u16 u8
  | Set_scan_duplicate_filter bool
  | Start_scan
  | Stop_scan
  | Start_timer u32
  | Connect bytes u8
  | Disconnect u16
  | Discover_primary_services u16 bytes
  | Discover_characteristics u16 u16 u16 bytes
  | Set_led bool

text \<open>The static iterator of \<open>requestNextRssi\<close>: at a node, at the end, or at an erased node.\<close>

datatype rssi_iterator = At_node u16 | At_end | Erased

record tracker =
  peers :: "(u64, peer) omap"
  messages :: "(bytes, addr \<times> message) omap"
  packets :: "(u32, addr \<times> pass_along) omap"
  announcement :: announce
  announcement_addr :: addr
  connections :: "(u16, ble_connection) omap"
  available_neighbours :: "(bytes, ble_connection) omap"
  raw_packet_to_notify :: "(u16 \<times> bytes) list"
  raw_packet_to_write :: "(u16 \<times> bytes) list"
  timestamp_offset_ms :: u64
  handle_peer_map :: "(u16, u64) omap"
  packets_connections_sent_list :: "(addr \<times> connection_ptr) list"
  packets_peers_sent_list :: "(addr \<times> u64) list"
  broadcast_packets_to_send_list :: "addr list"
  targeted_packets_to_send_list :: "(addr \<times> connection_ptr) list"
  rssi_position :: "rssi_iterator option"
  notify_context :: u16
  write_context :: u16
  stack_calls :: "stack_call list"

definition new_tracker :: "addr \<Rightarrow> tracker" where
  "new_tracker a =
     \<lparr>peers = [], messages = [], packets = [], announcement = new_Announce, announcement_addr = a,
      connections = [], available_neighbours = [], raw_packet_to_notify = [],
      raw_packet_to_write = [], timestamp_offset_ms = 0, handle_peer_map = [],
      packets_connections_sent_list = [], packets_peers_sent_list = [],
      broadcast_packets_to_send_list = [], targeted_packets_to_send_list = [],
      rssi_position = None, notify_context = 0, write_context = 0, stack_calls = []\<rparr>"

text \<open>\<open>build_time_ms\<close> (the value is in seconds) and \<open>ten_minutes_in_ms\<close>.\<close>

definition build_time_ms :: u64 where
  "build_time_ms = 1755685519"

definition ten_minutes_in_ms :: u64 where
  "ten_minutes_in_ms = 1000 * 60 * 10"

definition call_stack :: "stack_call \<Rightarrow> tracker \<Rightarrow> tracker" where
  "call_stack c s = s\<lparr>stack_calls := stack_calls s @ [c]\<rparr>"

section \<open>Dereferencing\<close>

text \<open>The object of a store whose node stands at an address.\<close>

definition node_at :: "('k, addr \<times> 'v) omap \<Rightarrow> addr \<Rightarrow> 'v option" where
  "node_at m p = map_option (snd \<circ> snd) (find (\<lambda>(k, a, v). a = p) m)"

definition message_at :: "tracker \<Rightarrow> addr \<Rightarrow> message option" where
  "message_at s p = node_at (messages s) p"

definition pass_along_at :: "tracker \<Rightarrow> addr \<Rightarrow> pass_along option" where
  "pass_along_at s p = node_at (packets s) p"

definition deref_packet :: "tracker \<Rightarrow> addr \<Rightarrow> packet result" where
  "deref_packet s p =
     (if p = announcement_addr s then Inr (AnnouncePacket (announcement s))
      else (case message_at s p of
              Some m \<Rightarrow> Inr (MessagePacket m)
            | None \<Rightarrow> (case pass_along_at s p of
                Some q \<Rightarrow> Inr (PassAlongPacket q)
              | None \<Rightarrow> Inl DanglingPointer)))"

definition deref_connection :: "tracker \<Rightarrow> connection_ptr \<Rightarrow> ble_connection result" where
  "deref_connection s p =
     (case p of
        ConnectionNode h \<Rightarrow>
          (case map_of (connections s) h of Some c \<Rightarrow> Inr c | None \<Rightarrow> Inl DanglingPointer)
      | LocalCopy a \<Rightarrow> Inl DanglingPointer)"

section \<open>Connections, messages, packets and peers\<close>

text \<open>\<open>connections[handle]\<close>: the node, made by the default constructor if it is not there.\<close>

definition connection_or_new :: "tracker \<Rightarrow> u16 \<Rightarrow> ble_connection" where
  "connection_or_new s h =
     (case map_of (connections s) h of Some c \<Rightarrow> c | None \<Rightarrow> new_BleConnection)"

definition update_connection :: "u16 \<Rightarrow> (ble_connection \<Rightarrow> ble_connection) \<Rightarrow> tracker \<Rightarrow> tracker" where
  "update_connection h f s = s\<lparr>connections := map_put h (f (connection_or_new s h)) (connections s)\<rparr>"

definition connectionForConnHandle :: "u16 \<Rightarrow> tracker \<Rightarrow> tracker" where
  "connectionForConnHandle h s =
     (if map_of (connections s) h \<noteq> None then s
      else update_connection h (setConnectionHandle h) s)"

text \<open>Both stores return the address of the stored object if it is new, and null otherwise.\<close>

definition storeMessageAndReturnIfNew :: "addr \<Rightarrow> message \<Rightarrow> tracker \<Rightarrow> addr option \<times> tracker" where
  "storeMessageAndReturnIfNew a m s =
     (if map_of (messages s) (message_id m) \<noteq> None then (None, s)
      else (Some a, s\<lparr>messages := map_put (message_id m) (a, m) (messages s)\<rparr>))"

definition storePacketAndReturnIfNew ::
    "(bytes \<Rightarrow> u32) \<Rightarrow> addr \<Rightarrow> pass_along \<Rightarrow> tracker \<Rightarrow> addr option \<times> tracker" where
  "storePacketAndReturnIfNew std_hash a p s =
     (if map_of (packets s) (getPacketHash std_hash p) \<noteq> None then (None, s)
      else (Some a, s\<lparr>packets := map_put (getPacketHash std_hash p) (a, p) (packets s)\<rparr>))"

definition messageWithId :: "bytes \<Rightarrow> tracker \<Rightarrow> message option" where
  "messageWithId i s = map_option snd (map_of (messages s) i)"

definition peerWithId :: "u64 \<Rightarrow> tracker \<Rightarrow> peer option" where
  "peerWithId i s = map_of (peers s) i"

definition checkSenderInPeers :: "u64 \<Rightarrow> tracker \<Rightarrow> tracker" where
  "checkSenderInPeers sender s =
     (if map_of (peers s) sender = None
      then s\<lparr>peers := map_put sender (setId sender new_Peer) (peers s)\<rparr> else s)"

definition update_peer :: "u64 \<Rightarrow> (peer \<Rightarrow> peer) \<Rightarrow> tracker \<Rightarrow> tracker" where
  "update_peer k f s =
     (case map_of (peers s) k of
        None \<Rightarrow> s | Some p \<Rightarrow> s\<lparr>peers := map_put k (f p) (peers s)\<rparr>)"

section \<open>Queues\<close>

definition enqueueTargetedPacket :: "addr \<Rightarrow> u16 \<Rightarrow> tracker \<Rightarrow> tracker result" where
  "enqueueTargetedPacket p h s =
     bind_result (deref_packet s p) (\<lambda>pk.
       if packet_ttl (base pk) > 0
       then (let s = connectionForConnHandle h s
             in Inr (s\<lparr>targeted_packets_to_send_list :=
                  multi_emplace p (ConnectionNode h) (targeted_packets_to_send_list s)\<rparr>))
       else Inr s)"

definition enqueueBroadcastPacket :: "addr \<Rightarrow> tracker \<Rightarrow> tracker result" where
  "enqueueBroadcastPacket p s =
     bind_result (deref_packet s p) (\<lambda>pk.
       if packet_ttl (base pk) > 0
       then Inr (s\<lparr>broadcast_packets_to_send_list := broadcast_packets_to_send_list s @ [p]\<rparr>)
       else Inr s)"

text \<open>The overload that notes where the packet came from.\<close>

definition enqueueBroadcastPacketFrom ::
    "addr \<Rightarrow> connection_ptr \<Rightarrow> u64 \<Rightarrow> tracker \<Rightarrow> tracker result" where
  "enqueueBroadcastPacketFrom p from_connection from_peer s =
     enqueueBroadcastPacket p
       (s\<lparr>packets_connections_sent_list :=
            multi_emplace p from_connection (packets_connections_sent_list s),
          packets_peers_sent_list := multi_emplace p from_peer (packets_peers_sent_list s)\<rparr>)"

section \<open>Neighbours and connections coming and going\<close>

definition update_neighbour :: "bytes \<Rightarrow> (ble_connection \<Rightarrow> ble_connection) \<Rightarrow> tracker \<Rightarrow> tracker" where
  "update_neighbour a f s =
     s\<lparr>available_neighbours :=
         map_put a (f (case map_of (available_neighbours s) a of Some c \<Rightarrow> c
                                                           | None \<Rightarrow> new_BleConnection))
           (available_neighbours s)\<rparr>"

text \<open>\<open>now_us\<close> is what \<open>time_us_64()\<close> returns. A device address is its first six bytes.\<close>

definition addAvailablePeer ::
    "u64 \<Rightarrow> bytes \<Rightarrow> u8 \<Rightarrow> service_uuid_check_status \<Rightarrow> int \<Rightarrow> tracker \<Rightarrow> tracker" where
  "addAvailablePeer now_us bt_addr addr_type services rssi_value s =
     (let address = take 6 bt_addr
      in update_neighbour address
           (setTimestamp now_us \<circ> setRssi rssi_value \<circ> setServices services \<circ>
            setBleAddress bt_addr addr_type) s)"

definition reportConnection :: "u64 \<Rightarrow> u16 \<Rightarrow> bytes \<Rightarrow> u8 \<Rightarrow> tracker \<Rightarrow> tracker" where
  "reportConnection now_us handle bt_addr addr_type s =
     (let address = take 6 bt_addr;
          s = (case map_of (available_neighbours s) address of
                 None \<Rightarrow> s
               | Some item \<Rightarrow>
                   s\<lparr>connections := map_put handle item (connections s),
                     available_neighbours := map_erase address (available_neighbours s)\<rparr>);
          s = update_connection handle
                (setTimestamp now_us \<circ> setBleAddress bt_addr addr_type \<circ> setConnected True \<circ>
                 setConnectionHandle handle) s
      in s\<lparr>available_neighbours := map_erase address (available_neighbours s)\<rparr>)"

definition reportConnectionWithRole ::
    "u64 \<Rightarrow> u16 \<Rightarrow> bytes \<Rightarrow> u8 \<Rightarrow> u8 \<Rightarrow> tracker \<Rightarrow> tracker" where
  "reportConnectionWithRole now_us handle bt_addr addr_type new_role s =
     (let s = reportConnection now_us handle bt_addr addr_type s;
          s = update_connection handle (setRole new_role) s
      in if new_role = HCI_ROLE_MASTER
         then call_stack (Listen_value_updates handle
                (bitchat_characteristic_value_handle (connection_or_new s handle))) s
         else s)"

text \<open>
  The lambda that picks the announcements to forget captures the connection by value and compares
  addresses with its own copy, which stands at \<open>closure\<close>.
\<close>

definition reportDisconnection :: "addr \<Rightarrow> u16 \<Rightarrow> tracker \<Rightarrow> tracker" where
  "reportDisconnection closure handle s =
     (let s = update_connection handle (setConnected False \<circ> setNotificationEnabled False) s;
          s = (if role (connection_or_new s handle) = HCI_ROLE_MASTER
               then call_stack (Stop_listening handle) s else s)
      in s\<lparr>handle_peer_map := map_erase handle (handle_peer_map s),
           packets_connections_sent_list :=
             multi_erase_if (\<lambda>packet connection.
                 packet = announcement_addr s \<and> connection = LocalCopy closure)
               (packets_connections_sent_list s)\<rparr>)"

definition getConnectableNeighbours :: "tracker \<Rightarrow> (bytes \<times> ble_connection) list" where
  "getConnectableNeighbours s =
     filter (\<lambda>(a, c). (timestamp_offset_ms s \<ge> build_time_ms \<or> isRepeater c) \<and>
                      \<not> connected c \<and> \<not> isRandom c) (available_neighbours s)"

text \<open>The iterator starts at the first connection; reading the end or an erased node is undefined.\<close>

definition requestNextRssi :: "bool \<Rightarrow> tracker \<Rightarrow> (bool \<times> tracker) result" where
  "requestNextRssi restart s =
     (let start = (case connections s of [] \<Rightarrow> At_end | (h, c) # _ \<Rightarrow> At_node h);
          it = (case rssi_position s of None \<Rightarrow> start | Some it \<Rightarrow> it);
          it = (if it = At_end \<or> restart then start else it)
      in (case it of
            At_node h \<Rightarrow>
              (let s = call_stack (Read_rssi h) s;
                   next_it = (case dropWhile (\<lambda>(h', c). h' \<le> h) (connections s) of
                                [] \<Rightarrow> At_end | (h', c) # _ \<Rightarrow> At_node h')
               in Inr (next_it \<noteq> At_end, s\<lparr>rssi_position := Some next_it\<rparr>))
          | At_end \<Rightarrow> Inl DanglingPointer
          | Erased \<Rightarrow> Inl DanglingPointer))"

definition setConnectionStarted :: "ble_connection \<Rightarrow> tracker \<Rightarrow> tracker" where
  "setConnectionStarted neighbour s =
     s\<lparr>available_neighbours := map_erase (take 6 (bt_address neighbour)) (available_neighbours s)\<rparr>"

definition getConnectionsCount :: "tracker \<Rightarrow> nat" where
  "getConnectionsCount s = length (connections s) + length (available_neighbours s)"

definition setConnectionHandleForPeer :: "u16 \<Rightarrow> u64 \<Rightarrow> tracker \<Rightarrow> tracker" where
  "setConnectionHandleForPeer h k s = s\<lparr>handle_peer_map := map_put h k (handle_peer_map s)\<rparr>"

definition peerWithConnectionHandle :: "u16 \<Rightarrow> tracker \<Rightarrow> u64 option" where
  "peerWithConnectionHandle h s = map_of (handle_peer_map s) h"

definition getConnectionForAddress :: "bytes \<Rightarrow> tracker \<Rightarrow> u16 option" where
  "getConnectionForAddress address s =
     map_option fst (find (\<lambda>(h, c). connected c \<and> bt_address c = take 6 address) (connections s))"

definition getTargetedPacketsToSendSize :: "tracker \<Rightarrow> nat" where
  "getTargetedPacketsToSendSize s = length (targeted_packets_to_send_list s)"

definition getAnyPacket :: "tracker \<Rightarrow> addr option" where
  "getAnyPacket s = (case packets s of [] \<Rightarrow> None | (h, a, p) # _ \<Rightarrow> Some a)"

text \<open>
  The loop over the handles known to belong to peers; \<open>reversed\<close> is the map built so far, in which
  a missing peer reads as handle 0. Looking at the time stamps makes missing connections.
\<close>

fun duplicate_loop :: "(u16, u64) omap \<Rightarrow> (u64 \<Rightarrow> u16) \<Rightarrow> tracker \<Rightarrow> u16 \<times> tracker" where
  "duplicate_loop [] reversed s = (0, s)"
| "duplicate_loop ((handle, k) # rest) reversed s =
     (if reversed k \<noteq> 0
      then (let s = update_connection handle id (update_connection (reversed k) id s)
            in (if last_seen_time (connection_or_new s (reversed k)) <
                   last_seen_time (connection_or_new s handle)
                then reversed k else handle, s))
      else duplicate_loop rest (reversed(k := handle)) s)"

definition getAnyDuplicateHandle :: "tracker \<Rightarrow> u16 \<times> tracker" where
  "getAnyDuplicateHandle s = duplicate_loop (handle_peer_map s) (\<lambda>_. 0) s"

section \<open>Time\<close>

definition getTimeMs :: "u64 \<Rightarrow> tracker \<Rightarrow> u64" where
  "getTimeMs now_us s = timestamp_offset_ms s + now_us div 1000"

definition MESSAGE_TIMEOUT :: u64 where
  "MESSAGE_TIMEOUT = 300000"

text \<open>
  The difference is computed on \<open>int64_t\<close>: it is undefined where it overflows, as is \<open>llabs\<close> of the
  smallest value.
\<close>

definition possiblyUpdateTimeOffset :: "u64 \<Rightarrow> u64 \<Rightarrow> tracker \<Rightarrow> tracker result" where
  "possiblyUpdateTimeOffset now_us timestamp_ms s =
     (let our_now = getTimeMs now_us s;
          diff = sint timestamp_ms - sint our_now
      in if diff \<le> - (2 ^ 63) \<or> diff \<ge> 2 ^ 63 then Inl SignedOverflow
         else if (word_of_int \<bar>diff\<bar> :: u64) > MESSAGE_TIMEOUT \<or> timestamp_ms > our_now
         then Inr (s\<lparr>timestamp_offset_ms := timestamp_offset_ms s + word_of_int diff\<rparr>)
         else Inr s)"

section \<open>Flood control\<close>

text \<open>
  The stores accept an object whose key is not known and make the key known; they refuse one whose
  key is. That is all that flood control relies on.
\<close>

fun store_run :: "(addr \<Rightarrow> 'p \<Rightarrow> 's \<Rightarrow> addr option \<times> 's) \<Rightarrow> (addr \<times> 'p) list \<Rightarrow> 's \<Rightarrow> 'p list \<times> 's" where
  "store_run st [] s = ([], s)"
| "store_run st ((a, p) # ps) s =
     (case st a p s of (r, s') \<Rightarrow>
        (case store_run st ps s' of (accepted, s'') \<Rightarrow>
           (if r = None then accepted else p # accepted, s'')))"

locale dedup_store =
  fixes key :: "'p \<Rightarrow> 'k"
    and known :: "'s \<Rightarrow> 'k set"
    and store :: "addr \<Rightarrow> 'p \<Rightarrow> 's \<Rightarrow> addr option \<times> 's"
  assumes store_new: "key p \<notin> known s \<Longrightarrow>
      fst (store a p s) = Some a \<and> known (snd (store a p s)) = insert (key p) (known s)"
    and store_old: "key p \<in> known s \<Longrightarrow> store a p s = (None, s)"
begin

lemma run_known: "known (snd (store_run store ps s)) = known s \<union> key ` snd ` set ps"
proof (induction ps arbitrary: s)
  case (Cons ap ps)
  obtain a p where ap: "ap = (a, p)" by (cases ap)
  show ?case
  proof (cases "key p \<in> known s")
    case True
    then show ?thesis using Cons.IH [of s] by (auto simp: ap store_old split: prod.splits)
  next
    case False
    then show ?thesis
      using store_new [OF False, of a] Cons.IH [of "snd (store a p s)"]
      by (simp add: ap case_prod_beta)
  qed
qed simp

lemma run_accepts_once:
  "distinct (map key (fst (store_run store ps s))) \<and>
   key ` set (fst (store_run store ps s)) = key ` snd ` set ps - known s"
proof (induction ps arbitrary: s)
  case (Cons ap ps)
  obtain a p where ap: "ap = (a, p)" by (cases ap)
  show ?case
  proof (cases "key p \<in> known s")
    case True
    then show ?thesis using Cons.IH [of s] by (auto simp: ap store_old split: prod.splits)
  next
    case False
    then show ?thesis
      using store_new [OF False, of a] Cons.IH [of "snd (store a p s)"]
      by (simp add: ap case_prod_beta insert_Diff_if insert_Diff_insert)
  qed
qed simp

end

interpretation message_store: dedup_store message_id "\<lambda>s. fst ` set (messages s)" storeMessageAndReturnIfNew
  by unfold_locales
    (auto simp: storeMessageAndReturnIfNew_def map_of_eq_None_iff dest: map_of_SomeD)

interpretation packet_store: dedup_store "getPacketHash std_hash" "\<lambda>s. fst ` set (packets s)"
    "storePacketAndReturnIfNew std_hash" for std_hash
  by unfold_locales
    (auto simp: storePacketAndReturnIfNew_def map_of_eq_None_iff dest: map_of_SomeD)

section \<open>Properties\<close>

text \<open>
  In any sequence of arrivals, each message id that was not known is accepted exactly once, and
  nothing known before is accepted; the same holds of passed along packets and their hashes.
\<close>

lemma arrivals_accepted_once:
  "distinct (map message_id (fst (store_run storeMessageAndReturnIfNew ms s))) \<and>
   message_id ` set (fst (store_run storeMessageAndReturnIfNew ms s)) =
     message_id ` snd ` set ms - fst ` set (messages s) \<and>
   distinct (map (getPacketHash h) (fst (store_run (storePacketAndReturnIfNew h) ps s))) \<and>
   getPacketHash h ` set (fst (store_run (storePacketAndReturnIfNew h) ps s)) =
     getPacketHash h ` snd ` set ps - fst ` set (packets s)"
  using message_store.run_accepts_once [of ms s] packet_store.run_accepts_once [of h ps s] by simp

lemma small_sint:
  fixes x :: u64
  assumes "x < 2 ^ 63"
  shows "sint x = uint x"
proof -
  have "uint x < 2 ^ 63" using assms by (simp add: word_less_def)
  then show ?thesis
    using signed_take_bit_int_eq_self [of 63 "uint x"] uint_nonnegative [of x] by (simp add: sint_uint)
qed

lemma word_diff_small:
  fixes x y :: u64
  assumes "x < 2 ^ 63" and "y < 2 ^ 63"
  shows "\<bar>sint x - sint y\<bar> < 2 ^ 63"
    and "word_of_int (sint x - sint y) = x - y"
    and "word_of_int \<bar>sint x - sint y\<bar> = (if y \<le> x then x - y else y - x)"
proof -
  have "uint x < 2 ^ 63" "uint y < 2 ^ 63"
    using assms by (simp_all add: word_less_def)
  then show "\<bar>sint x - sint y\<bar> < 2 ^ 63"
    unfolding small_sint [OF assms(1)] small_sint [OF assms(2)]
    using uint_nonnegative [of x] uint_nonnegative [of y] by linarith
  show "word_of_int (sint x - sint y) = x - y"
    by (simp add: small_sint assms)
  show "word_of_int \<bar>sint x - sint y\<bar> = (if y \<le> x then x - y else y - x)"
    unfolding small_sint [OF assms(1)] small_sint [OF assms(2)] by (simp add: word_le_def abs_if)
qed

text \<open>
  C22: an announcement that is newer than the repeater's clock, or more than five minutes older, sets
  the clock to its time stamp; any other leaves the clock alone. There is no overflow as long as both
  times are below $2^{63}$ ms.
\<close>

theorem time_offset_follows_announcements:
  assumes "timestamp_ms < 2 ^ 63" and "getTimeMs now_us s < 2 ^ 63"
  shows "\<exists>s'. possiblyUpdateTimeOffset now_us timestamp_ms s = Inr s' \<and>
    (if timestamp_ms > getTimeMs now_us s \<or> getTimeMs now_us s - timestamp_ms > MESSAGE_TIMEOUT
     then getTimeMs now_us s' = timestamp_ms else s' = s)"
proof -
  let ?n = "getTimeMs now_us s"
  note d = word_diff_small [OF assms]
  have ok: "\<not> (sint timestamp_ms - sint ?n \<le> - (2 ^ 63) \<or> sint timestamp_ms - sint ?n \<ge> 2 ^ 63)"
    using d(1) by linarith
  have set: "getTimeMs now_us (s\<lparr>timestamp_offset_ms := timestamp_offset_ms s + (timestamp_ms - ?n)\<rparr>)
      = timestamp_ms"
    by (simp add: getTimeMs_def)
  have "word_of_int \<bar>sint timestamp_ms - sint ?n\<bar> > MESSAGE_TIMEOUT \<or> timestamp_ms > ?n \<longleftrightarrow>
      timestamp_ms > ?n \<or> ?n - timestamp_ms > MESSAGE_TIMEOUT"
    by (auto simp: d(3) not_le le_less)
  then show ?thesis
    using ok set by (simp add: possiblyUpdateTimeOffset_def Let_def d(2))
qed

theorem time_offset_follows_announcements_witness:
  "\<exists>s'. possiblyUpdateTimeOffset 5000 1755685519000 (new_tracker 0) = Inr s' \<and>
    getTimeMs 5000 s' = 1755685519000"
  using time_offset_follows_announcements [of 1755685519000 5000 "new_tracker 0"]
  by (simp add: getTimeMs_def new_tracker_def)

lemma connection_or_new_id [simp]: "connection_or_new (update_connection h id s) = connection_or_new s"
  by (rule ext) (simp add: connection_or_new_def update_connection_def)

lemma only_first_zero:
  assumes "sorted_wrt (<) (map fst m)"
  shows "m = filter (\<lambda>(x, k). x \<noteq> (0 :: 'a :: len word)) m \<or>
    (\<exists>k. m = (0, k) # filter (\<lambda>(x, k). x \<noteq> 0) m)"
proof (cases m)
  case (Cons xk rest)
  then have "\<forall>(x, k) \<in> set rest. x \<noteq> 0"
    using assms by auto
  then have "filter (\<lambda>(x, k). x \<noteq> 0) rest = rest"
    by (simp add: filter_id_conv)
  then show ?thesis using Cons by (cases xk) auto
qed simp

lemma duplicate_loop_result:
  assumes "duplicate_loop m reversed s = (h, s')"
    and "\<forall>k. reversed k \<noteq> 0 \<longrightarrow> (reversed k, k) \<in> set seen" and "\<forall>(x, k) \<in> set seen. reversed k \<noteq> 0"
    and "distinct (map snd seen)" and "0 \<notin> fst ` set m" and "distinct (map fst (seen @ m))"
  shows "if h = 0 then distinct (map snd (seen @ m))
    else (\<exists>h' k. (h, k) \<in> set (seen @ m) \<and> (h', k) \<in> set (seen @ m) \<and> h \<noteq> h' \<and>
      last_seen_time (connection_or_new s h) \<le> last_seen_time (connection_or_new s h'))"
  using assms
proof (induction m reversed s arbitrary: seen rule: duplicate_loop.induct)
  case (1 reversed s)
  then show ?case by simp
next
  case (2 handle k rest reversed s)
  show ?case
  proof (cases "reversed k = 0")
    case False
    then have mem: "(reversed k, k) \<in> set seen"
      using "2.prems"(2) by blast
    then have ne: "reversed k \<noteq> handle" "handle \<noteq> 0"
      using "2.prems"(5,6) by (force, auto)
    have "h = (if last_seen_time (connection_or_new s (reversed k)) <
        last_seen_time (connection_or_new s handle) then reversed k else handle)"
      using False "2.prems"(1) by (simp add: Let_def)
    then have "h \<in> {reversed k, handle} \<and>
        last_seen_time (connection_or_new s h) \<le> last_seen_time (connection_or_new s (reversed k)) \<and>
        last_seen_time (connection_or_new s h) \<le> last_seen_time (connection_or_new s handle)"
      by (auto simp: not_less less_imp_le)
    then obtain h' where "h' \<in> {reversed k, handle}" "h \<in> {reversed k, handle}" "h \<noteq> h'"
        "last_seen_time (connection_or_new s h) \<le> last_seen_time (connection_or_new s h')"
      using ne by blast
    then show ?thesis
      using False mem ne by auto
  next
    case True
    have fresh: "k \<notin> snd ` set seen"
      using "2.prems"(3) True by auto
    have a1: "duplicate_loop rest (reversed(k := handle)) s = (h, s')"
      using "2.prems"(1) True by simp
    have a2: "\<forall>k'. (reversed(k := handle)) k' \<noteq> 0 \<longrightarrow>
        ((reversed(k := handle)) k', k') \<in> set (seen @ [(handle, k)])"
      using "2.prems"(2) by simp
    have a3: "\<forall>(x, k') \<in> set (seen @ [(handle, k)]). (reversed(k := handle)) k' \<noteq> 0"
      using "2.prems"(3,5) by auto
    have "distinct (map snd (seen @ [(handle, k)]))" "0 \<notin> fst ` set rest"
      "distinct (map fst ((seen @ [(handle, k)]) @ rest))"
      using fresh "2.prems"(4,5,6) by auto
    from "2.IH" [OF _ a1 a2 a3 this] True show ?thesis by (cases "h = 0") simp_all
  qed
qed

text \<open>
  A duplicate handle that is returned belongs to the same peer as another one, and was not seen later
  than it. 0 is returned if no peer has two handles, and a connection with the handle 0 does not count: the
  search takes a 0 in \<open>reversed\<close> for a peer not met before.
\<close>

lemma duplicate_handle_is_older:
  assumes "map_ok (handle_peer_map s)" and "getAnyDuplicateHandle s = (h, s')"
  shows "if h = 0 then distinct (map snd (filter (\<lambda>(x, k). x \<noteq> 0) (handle_peer_map s)))
    else (\<exists>h' k. h' \<noteq> h \<and> h' \<noteq> 0 \<and> peerWithConnectionHandle h s = Some k \<and>
      peerWithConnectionHandle h' s = Some k \<and>
      last_seen_time (connection_or_new s h) \<le> last_seen_time (connection_or_new s h'))"
proof -
  let ?m = "filter (\<lambda>(x, k). x \<noteq> 0) (handle_peer_map s)"
  have "handle_peer_map s = ?m \<or> (\<exists>k. handle_peer_map s = (0, k) # ?m)"
    using assms(1) by (intro only_first_zero) (auto simp: map_ok_def)
  moreover have "duplicate_loop ((0, k) # ?m) (\<lambda>_. 0) s = duplicate_loop ?m (\<lambda>_. 0) s" for k
    by (simp add: fun_upd_idem)
  ultimately have "duplicate_loop ?m (\<lambda>_. 0) s = (h, s')"
    using assms(2) unfolding getAnyDuplicateHandle_def by metis
  moreover have "distinct (map fst ?m)" "0 \<notin> fst ` set ?m"
    using map_ok_distinct [OF assms(1)] by (auto simp: distinct_map_filter)
  ultimately have "if h = 0 then distinct (map snd ?m)
    else (\<exists>h' k. (h, k) \<in> set ?m \<and> (h', k) \<in> set ?m \<and> h \<noteq> h' \<and>
      last_seen_time (connection_or_new s h) \<le> last_seen_time (connection_or_new s h'))"
    using duplicate_loop_result [of ?m "\<lambda>_. 0" s h s' "[]", unfolded append_Nil] by (simp split del: if_split)
  then show ?thesis
    using assms(1) by (auto simp: peerWithConnectionHandle_def map_of_iff_set split: if_splits)
qed

text \<open>Two connections of one peer, one of them with the handle 0: nothing is found.\<close>

lemma duplicate_with_handle_0_is_missed:
  "fst (getAnyDuplicateHandle ((new_tracker 0)\<lparr>handle_peer_map := [(0, 9), (64, 9)]\<rparr>)) = 0"
  by (simp add: getAnyDuplicateHandle_def)

lemma map_of_update_connection [simp]:
  "map_of (connections (update_connection h f s)) x =
     (if x = h then Some (f (connection_or_new s h)) else map_of (connections s) x)"
  by (simp add: update_connection_def)

lemma connection_or_new_update [simp]:
  "connection_or_new (update_connection h f s) x =
     (if x = h then f (connection_or_new s h) else connection_or_new s x)"
  by (simp add: connection_or_new_def)

lemma connection_or_new_cong [simp]:
  "connection_or_new (call_stack c s) = connection_or_new s"
  by (rule ext) (simp add: connection_or_new_def call_stack_def)

lemma getConnectionForAddress_found:
  assumes "map_of (connections s) h = Some c" and "connected c" and "bt_address c = take 6 addr"
  shows "getConnectionForAddress addr s \<noteq> None"
proof -
  have "(h, c) \<in> set (connections s)"
    using assms(1) by (rule map_of_SomeD)
  then show ?thesis
    using assms(2,3) by (auto simp: getConnectionForAddress_def find_None_iff)
qed

text \<open>
  A reported connection is there under its handle, connected, with the address, the role and the
  time of the report, is found by its address, and is no longer a neighbour to connect to; all other
  connections and neighbours stay as they are.
\<close>

lemma reported_connection_is_kept:
  "let s' = reportConnectionWithRole now_us h addr ty r s
   in (\<exists>c. map_of (connections s') h = Some c \<and> connected c \<and> connection_handle c = h \<and>
        bt_address c = take 6 addr \<and> bt_address_type c = ty \<and> role c = r \<and> last_seen_time c = now_us) \<and>
      getConnectionForAddress addr s' \<noteq> None \<and>
      map_of (connections s') |` (- {h}) = map_of (connections s) |` (- {h}) \<and>
      map_of (available_neighbours s') = (map_of (available_neighbours s))(take 6 addr := None)"
proof -
  define s1 where "s1 = reportConnection now_us h addr ty s"
  define s2 where "s2 = update_connection h (setRole r) s1"
  define s' where "s' = reportConnectionWithRole now_us h addr ty r s"
  have same: "connections s' = connections s2" "available_neighbours s' = available_neighbours s1"
    by (simp_all add: s'_def s2_def s1_def reportConnectionWithRole_def call_stack_def Let_def
        update_connection_def)
  have at: "\<exists>c. map_of (connections s1) h = Some c \<and> connected c \<and> connection_handle c = h \<and>
      bt_address c = take 6 addr \<and> bt_address_type c = ty \<and> last_seen_time c = now_us"
    by (simp add: s1_def reportConnection_def Let_def connection_setters split: option.split)
  then have "\<exists>c. map_of (connections s') h = Some c \<and> connected c \<and> connection_handle c = h \<and>
      bt_address c = take 6 addr \<and> bt_address_type c = ty \<and> role c = r \<and> last_seen_time c = now_us"
    by (auto simp: same s2_def connection_or_new_def setRole_def)
  moreover from this have "getConnectionForAddress addr s' \<noteq> None"
    using getConnectionForAddress_found by blast
  moreover have "map_of (connections s') |` (- {h}) = map_of (connections s) |` (- {h})"
    by (rule ext) (simp add: same s2_def s1_def reportConnection_def Let_def restrict_map_def
        split: option.split)
  moreover have "map_of (available_neighbours s') = (map_of (available_neighbours s))(take 6 addr := None)"
    by (rule ext) (simp add: same s1_def reportConnection_def Let_def update_connection_def
        split: option.split)
  ultimately show ?thesis by (simp add: s'_def Let_def)
qed

text \<open>
  A disconnection marks the connection and forgets its peer, but the notes of what was announced
  to it stay: the predicate compares with the address of the lambda's own copy of the connection,
  which no note can hold.
\<close>

lemma disconnection_keeps_announcement_notes:
  assumes "\<forall>(packet, connection) \<in> set (packets_connections_sent_list s). connection \<noteq> LocalCopy closure"
  shows "packets_connections_sent_list (reportDisconnection closure h s) = packets_connections_sent_list s \<and>
    \<not> connected (connection_or_new (reportDisconnection closure h s) h) \<and>
    peerWithConnectionHandle h (reportDisconnection closure h s) = None"
proof -
  have "filter (\<lambda>(packet, connection). \<not> (packet = announcement_addr s \<and> connection = LocalCopy closure))
      (packets_connections_sent_list s) = packets_connections_sent_list s"
    using assms by (auto simp: filter_id_conv)
  then show ?thesis
    by (simp add: reportDisconnection_def Let_def multi_erase_if_def update_connection_def
        call_stack_def connection_or_new_def peerWithConnectionHandle_def connection_setters)
qed

end
