(* ===== verification/CircularBuffer.thy ===== *)
theory CircularBuffer
  imports Prelude
begin

text \<open>
  The ring buffer of \<open>CircularBuffer/CircularBuffer.h\<close> at its only instance, \<open>CircularBuffer<char>\<close>,
  and the log printer of \<open>CircularBuffer/Debugging.cpp\<close>. The buffer is abstracted to the list of its
  unread bytes (\<open>contents\<close>); a locale states what a bounded log promises its reader and writer, and
  the ring implements it for writes of whole strings. The locks are compiled out on the target.
\<close>

section \<open>State and operations\<close>

text \<open>
  \<open>buffer\<close> has \<open>fixed_size + 1\<close> cells. The indices are \<open>uint16_t\<close> values below \<open>fixed_size\<close>; the
  arithmetic on them is done in \<open>int\<close> and reduced modulo \<open>fixed_size\<close>, so naturals carry it and
  only \<open>tail - 1\<close>, which can be negative, is computed on integers.
\<close>

record circular_buffer =
  buffer :: bytes
  fixed_size :: nat
  head :: nat
  tail :: nat
  maxed :: bool
  will_clear_if_empty :: bool

text \<open>The constructor: the cells hold whatever the allocated memory \<open>mem\<close> held.\<close>

definition new_CircularBuffer :: "bytes \<Rightarrow> nat \<Rightarrow> circular_buffer" where
  "new_CircularBuffer mem cells =
     \<lparr>buffer = mem, fixed_size = cells, head = 0, tail = 0, maxed = False,
      will_clear_if_empty = False\<rparr>"

definition empty :: "circular_buffer \<Rightarrow> bool" where
  "empty b \<longleftrightarrow> head b = tail b"

definition full :: "circular_buffer \<Rightarrow> bool" where
  "full b = maxed b"

text \<open>\<open>write(const T item)\<close>.\<close>

definition write_item :: "u8 \<Rightarrow> circular_buffer \<Rightarrow> circular_buffer" where
  "write_item item b =
     (let h = (head b + 1) mod fixed_size b;
          t = (if maxed b then (head b + 2) mod fixed_size b else tail b)
      in b\<lparr>will_clear_if_empty := False,
           buffer := (buffer b)[head b := item, head b + 1 := 0],
           tail := t, head := h, maxed := (int h = int t - 1)\<rparr>)"

text \<open>The loop of \<open>write(const T *items)\<close>: writes the characters and notes when the ring fills up.\<close>

fun write_loop :: "circular_buffer \<Rightarrow> bytes \<Rightarrow> nat \<Rightarrow> bytes \<times> nat \<times> bool \<Rightarrow> bytes \<times> nat \<times> bool" where
  "write_loop b [] count (buf, pos, mx) = (buf, pos, mx)"
| "write_loop b (c # cs) count (buf, pos, mx) =
     (let pos = (head b + count) mod fixed_size b
      in write_loop b cs (count + 1)
           (buf[pos := c], pos,
            (if int ((pos + 1) mod fixed_size b) = int (tail b) - 1 \<or>
                (tail b = 0 \<and> pos = fixed_size b - 1) then True else mx)))"

definition write_items :: "bytes \<Rightarrow> circular_buffer \<Rightarrow> circular_buffer" where
  "write_items items b =
     (case write_loop b items 0 (buffer b, 0, maxed b) of (buf, pos, mx) \<Rightarrow>
        let h = (head b + length items) mod fixed_size b;
            t = (if mx then (head b + length items + 1) mod fixed_size b else tail b)
        in b\<lparr>will_clear_if_empty := False, buffer := buf[pos + 1 := 0],
             tail := t, head := h, maxed := (int h = int t - 1)\<rparr>)"

text \<open>
  \<open>write(const T *items)\<close> on a C string: the characters before the terminator. \<open>count\<close> is a
  \<open>uint16_t\<close>, so the loop never reaches the terminator of a longer string.
\<close>

definition write_str :: "bytes \<Rightarrow> circular_buffer \<Rightarrow> circular_buffer result" where
  "write_str text b =
     (let items = takeWhile (\<lambda>c. c \<noteq> 0) text
      in if length items > 65535 then Inl Diverges else Inr (write_items items b))"

text \<open>\<open>writeF\<close>: \<open>text\<close> is what \<open>vsnprintf\<close> makes of the format and its arguments.\<close>

definition writeF :: "bytes \<Rightarrow> circular_buffer \<Rightarrow> circular_buffer result" where
  "writeF text b = (if length text < 600 then write_str text b else Inl AssertionFailed)"

definition clear :: "circular_buffer \<Rightarrow> circular_buffer" where
  "clear b = b\<lparr>head := 0, tail := 0, buffer := (buffer b)[0 := 0], maxed := False\<rparr>"

text \<open>
  \<open>clear_if_empty\<close> raises a flag that a write lowers, tests whether the buffer is empty, tests the flag and
  then resets the indices. On the target \<open>GUARD_LOCK\<close> is nothing, so a write from an interrupt can come
  before any of these steps.
\<close>

datatype clear_point = Raise_flag | Test_empty | Test_flag | Set_tail | Set_head | Set_maxed | Returned

fun clear_step :: "clear_point \<times> circular_buffer \<Rightarrow> clear_point \<times> circular_buffer" where
  "clear_step (Raise_flag, b) = (Test_empty, b\<lparr>will_clear_if_empty := True\<rparr>)"
| "clear_step (Test_empty, b) = (if empty b then Test_flag else Returned, b)"
| "clear_step (Test_flag, b) = (if will_clear_if_empty b then Set_tail else Returned, b)"
| "clear_step (Set_tail, b) = (Set_head, b\<lparr>tail := 0\<rparr>)"
| "clear_step (Set_head, b) = (Set_maxed, b\<lparr>head := 0\<rparr>)"
| "clear_step (Set_maxed, b) = (Returned, b\<lparr>maxed := False\<rparr>)"
| "clear_step (Returned, b) = (Returned, b)"

definition clear_if_empty :: "circular_buffer \<Rightarrow> circular_buffer" where
  "clear_if_empty b = snd ((clear_step ^^ 6) (Raise_flag, b))"

text \<open>The same with interrupts: before each step, what they write.\<close>

fun clear_interrupted ::
    "bytes list list \<Rightarrow> clear_point \<times> circular_buffer \<Rightarrow> clear_point \<times> circular_buffer" where
  "clear_interrupted [] x = x"
| "clear_interrupted (written # later) (pt, b) =
     clear_interrupted later (clear_step (pt, fold write_items written b))"

definition consume :: "circular_buffer \<Rightarrow> u8 \<times> circular_buffer" where
  "consume b =
     (if empty b then (0, b)
      else (buffer b ! tail b, b\<lparr>tail := (tail b + 1) mod fixed_size b, maxed := False\<rparr>))"

definition wrapped :: "circular_buffer \<Rightarrow> bool" where
  "wrapped b \<longleftrightarrow> head b \<le> tail b \<and> \<not> empty b"

text \<open>The number of bytes that can be read without wrapping round.\<close>

definition consumable :: "circular_buffer \<Rightarrow> nat" where
  "consumable b = (if wrapped b then fixed_size b else head b) - tail b"

text \<open>\<open>consume_block()\<close>: the block pointed to, and the buffer after it.\<close>

definition consume_block_all :: "circular_buffer \<Rightarrow> bytes \<times> circular_buffer" where
  "consume_block_all b =
     (take (consumable b) (drop (tail b) (buffer b)),
      b\<lparr>tail := (if wrapped b then 0 else head b), maxed := False\<rparr>)"

text \<open>\<open>consume_block(T *block, uint16_t block_size)\<close>.\<close>

definition consume_block :: "nat \<Rightarrow> circular_buffer \<Rightarrow> bytes \<times> circular_buffer" where
  "consume_block block_size b =
     (let will_consume = min block_size (consumable b);
          t = (if block_size < consumable b then (tail b + will_consume) mod fixed_size b
               else if wrapped b then 0 else head b)
      in (take will_consume (drop (tail b) (buffer b)), b\<lparr>tail := t, maxed := False\<rparr>))"

subsection \<open>Reading a line\<close>

text \<open>\<open>strchr\<close> on the memory from a position on: it stops at the character or at a NUL.\<close>

fun strchr :: "bytes \<Rightarrow> u8 \<Rightarrow> nat option result" where
  "strchr [] c = Inl OutOfBounds"
| "strchr (x # xs) c =
     (if x = c then Inr (Some 0) else if x = 0 then Inr None
      else bind_result (strchr xs c) (\<lambda>r. Inr (map_option Suc r)))"

abbreviation newline :: u8 where
  "newline \<equiv> 10"

text \<open>
  The end of \<open>consume_line\<close>, after the first search: \<open>out\<close> is what was copied so far, \<open>tail_copy\<close>,
  \<open>avail\<close>, \<open>will_consume\<close> and \<open>line_end\<close> are the local variables.
\<close>

definition consume_line_rest ::
    "circular_buffer \<Rightarrow> nat \<Rightarrow> bytes \<Rightarrow> nat \<Rightarrow> nat \<Rightarrow> nat \<Rightarrow> nat option \<Rightarrow> bytes \<times> circular_buffer" where
  "consume_line_rest b line_size out tail_copy avail will_consume line_end =
     (let line_extra = (case line_end of None \<Rightarrow> will_consume | Some k \<Rightarrow> min will_consume (k + 1));
          t = (if length out + line_extra \<le> avail then (tail_copy + line_extra) mod fixed_size b
               else if head b \<le> tail_copy \<and> \<not> empty b
               then (if line_end = None then length out + will_consume else line_size)
               else head b)
      in (out @ take line_extra (drop tail_copy (buffer b)), b\<lparr>tail := t, maxed := False\<rparr>))"

definition consume_line :: "nat \<Rightarrow> circular_buffer \<Rightarrow> (bytes \<times> circular_buffer) result" where
  "consume_line line_size b =
     (let will_consume = min line_size (consumable b)
      in bind_result (strchr (drop (tail b) (buffer b)) newline) (\<lambda>line_end.
         if line_end \<noteq> None
         then Inr (consume_line_rest b line_size [] (tail b) (consumable b) will_consume line_end)
         else
           (let out = take will_consume (drop (tail b) (buffer b))
            in if consumable b = will_consume
               then
                 (if wrapped b
                  then bind_result (strchr (buffer b) newline) (\<lambda>line_end.
                    (case line_end of
                       None \<Rightarrow> Inr (out, b\<lparr>tail := 0, maxed := False\<rparr>)
                     | Some k \<Rightarrow>
                         (let extra = min (line_size - will_consume) (k + 1)
                          in Inr (out @ take extra (buffer b),
                                  b\<lparr>tail := extra mod fixed_size b, maxed := False\<rparr>))))
                  else Inr (out, b\<lparr>tail := head b, maxed := False\<rparr>))
               else
                 bind_result (strchr (drop (tail b + will_consume) (buffer b)) newline) (\<lambda>line_end.
                   Inr (consume_line_rest b line_size out (tail b + will_consume) (head b)
                          (min (line_size - will_consume) (head b)) line_end)))))"

subsection \<open>Printing the log\<close>

text \<open>
  What \<open>printAvailableLogging\<close> prints: a note about a dropped partial line, or a line with its
  newline cut off.
\<close>

datatype log_output = Ignoring_tail nat | Log_line bytes

definition strip_newline :: "bytes \<Rightarrow> bytes" where
  "strip_newline line = (if line \<noteq> [] \<and> last line = newline then butlast line else line)"

abbreviation line_limit :: nat where
  "line_limit \<equiv> 159"

text \<open>
  The loop reads lines until the buffer is empty. It may run for ever, so it has fuel; a read of no
  bytes would make the code look at \<open>line[-1]\<close>.
\<close>

fun print_loop :: "nat \<Rightarrow> circular_buffer \<Rightarrow> (log_output list \<times> circular_buffer) result" where
  "print_loop 0 b = Inl Diverges"
| "print_loop (Suc fuel) b =
     (if empty b then Inr ([], b)
      else bind_result (consume_line line_limit b) (\<lambda>(line, b').
        if line = [] then Inl OutOfBounds
        else bind_result (print_loop fuel b') (\<lambda>(outs, b'').
          Inr (Log_line (strip_newline line) # outs, b''))))"

definition printAvailableLogging ::
    "nat \<Rightarrow> circular_buffer \<Rightarrow> (log_output list \<times> circular_buffer) result" where
  "printAvailableLogging fuel b =
     bind_result
       (if full b
        then bind_result (consume_line line_limit b) (\<lambda>(line, b').
               Inr ([Ignoring_tail (length line)], b'))
        else Inr ([], b))
       (\<lambda>(pre, b'). bind_result (print_loop fuel b') (\<lambda>(outs, b'').
          Inr (pre @ outs, clear_if_empty b'')))"

section \<open>Contents and invariant\<close>

text \<open>\<open>n\<close> cells of the ring from position \<open>t\<close> on.\<close>

definition ring_slice :: "nat \<Rightarrow> bytes \<Rightarrow> nat \<Rightarrow> nat \<Rightarrow> bytes" where
  "ring_slice fs buf t n = map (\<lambda>i. buf ! ((t + i) mod fs)) [0..<n]"

definition stored :: "circular_buffer \<Rightarrow> nat" where
  "stored b = (head b + fixed_size b - tail b) mod fixed_size b"

text \<open>The bytes written and not yet consumed, oldest first.\<close>

definition contents :: "circular_buffer \<Rightarrow> bytes" where
  "contents b = ring_slice (fixed_size b) (buffer b) (tail b) (stored b)"

text \<open>The ring keeps one cell free.\<close>

definition capacity :: "circular_buffer \<Rightarrow> nat" where
  "capacity b = fixed_size b - 1"

definition cb_ok :: "circular_buffer \<Rightarrow> bool" where
  "cb_ok b \<longleftrightarrow> 1 < fixed_size b \<and> length (buffer b) = fixed_size b + 1 \<and>
     head b < fixed_size b \<and> tail b < fixed_size b \<and>
     (maxed b \<longleftrightarrow> 0 < tail b \<and> head b = tail b - 1)"

text \<open>What a bounded log keeps: the newest \<open>n\<close> elements.\<close>

definition keep_last :: "nat \<Rightarrow> 'a list \<Rightarrow> 'a list" where
  "keep_last n xs = drop (length xs - n) xs"

lemma keep_last_all [simp]: "length xs \<le> n \<Longrightarrow> keep_last n xs = xs"
  by (simp add: keep_last_def)

lemma length_keep_last [simp]: "length (keep_last n xs) = min n (length xs)"
  by (simp add: keep_last_def min_def)

lemma keep_last_append: "keep_last n (keep_last n xs @ ys) = keep_last n (xs @ ys)"
  by (cases "length xs \<le> n") (auto simp: keep_last_def add.commute)

lemma keep_last_snoc:
  "length xs \<le> n \<Longrightarrow> keep_last n (xs @ [x]) = (if length xs < n then xs @ [x] else drop 1 (xs @ [x]))"
  by (auto simp: keep_last_def)

subsection \<open>Ring arithmetic\<close>

lemma mod_once: "x < 2 * fs \<Longrightarrow> x mod fs = (if x < fs then x else x - (fs::nat))"
  by (metis le_mod_geq less_diff_conv2 linorder_not_less mod_less mult_2)

lemma ring_slice_length [simp]: "length (ring_slice fs buf t n) = n"
  by (simp add: ring_slice_def)

lemma ring_offset_inj:
  assumes "i < j" and "j < (fs::nat)"
  shows "(t + i) mod fs \<noteq> (t + j) mod fs"
proof
  assume "(t + i) mod fs = (t + j) mod fs"
  then have "fs dvd (t + j) - (t + i)"
    using assms by (metis add_le_cancel_left less_imp_le mod_eq_dvd_iff_nat)
  with assms show False by (auto dest: dvd_imp_le)
qed

lemma ring_slice_snoc:
  assumes "n < fs" and "fs < length buf"
  shows "ring_slice fs (buf[(t + n) mod fs := c]) t (Suc n) = ring_slice fs buf t n @ [c]"
proof -
  have "(t + n) mod fs < length buf"
    using assms mod_less_divisor [of fs "t + n"] by linarith
  then show ?thesis
    using assms ring_offset_inj [of _ n fs t] by (force simp: ring_slice_def)
qed

lemma ring_slice_update_outside:
  assumes "\<And>i. i < n \<Longrightarrow> (t + i) mod fs \<noteq> p"
  shows "ring_slice fs (buf[p := c]) t n = ring_slice fs buf t n"
  using assms by (force simp: ring_slice_def)

lemma ring_slice_Suc:
  "ring_slice fs buf t (Suc n) = buf ! (t mod fs) # ring_slice fs buf ((t + 1) mod fs) n"
proof -
  have "[0..<Suc n] = 0 # map Suc [0..<n]"
    by (simp add: upt_conv_Cons map_Suc_upt)
  then show ?thesis
    by (simp add: ring_slice_def comp_def mod_add_left_eq)
qed

lemma ring_slice_mod [simp]: "ring_slice fs buf (t mod fs) n = ring_slice fs buf t n"
  by (simp add: ring_slice_def mod_add_left_eq)

lemma ring_slice_append:
  "ring_slice fs buf t (m + n) = ring_slice fs buf t m @ ring_slice fs buf (t + m) n"
proof -
  have "[m..<m + n] = map (\<lambda>i. m + i) [0..<n]"
    by (simp add: map_add_upt add.commute)
  then show ?thesis
    by (simp add: ring_slice_def upt_add_eq_append [of 0] comp_def add.assoc)
qed

lemma ring_slice_linear:
  assumes "t + n \<le> fs" and "fs < length buf"
  shows "ring_slice fs buf t n = take n (drop t buf)"
  using assms by (intro nth_equalityI) (auto simp: ring_slice_def)

lemma stored_unique:
  assumes "t < fs" and "n < fs" and "h = (t + n) mod (fs::nat)"
  shows "(h + fs - t) mod fs = n"
proof (cases "t + n < fs")
  case False
  with assms have "h = t + n - fs"
    using mod_once [of "t + n" fs] by simp
  with False assms show ?thesis by simp
qed (use assms in simp)

lemma stored_less: "cb_ok b \<Longrightarrow> stored b < fixed_size b"
  by (simp add: cb_ok_def stored_def)

lemma head_from_tail: "cb_ok b \<Longrightarrow> head b = (tail b + stored b) mod fixed_size b"
  by (auto simp: cb_ok_def stored_def mod_add_right_eq)

lemma length_contents [simp]: "length (contents b) = stored b"
  by (simp add: contents_def)

lemma stored_0_iff: "cb_ok b \<Longrightarrow> stored b = 0 \<longleftrightarrow> head b = tail b"
  by (auto simp: cb_ok_def stored_def mod_if)

lemma empty_iff_contents: "cb_ok b \<Longrightarrow> empty b \<longleftrightarrow> contents b = []"
  using stored_0_iff [of b] by (metis empty_def length_0_conv length_contents)

lemma maxed_stored: "cb_ok b \<Longrightarrow> maxed b \<Longrightarrow> stored b = capacity b"
  by (auto simp: cb_ok_def stored_def capacity_def mod_if)

lemma not_maxed_full:
  "cb_ok b \<Longrightarrow> stored b = capacity b \<Longrightarrow> \<not> maxed b \<Longrightarrow> tail b = 0"
  by (auto simp: cb_ok_def stored_def capacity_def mod_if split: if_splits)

lemma stored_by_cases:
  "cb_ok b \<Longrightarrow> stored b = (if tail b \<le> head b then head b - tail b else head b + fixed_size b - tail b)"
  by (auto simp: cb_ok_def stored_def mod_if)

subsection \<open>Writing\<close>

text \<open>
  The loop invariant of a string write, over a ghost tail \<open>t\<close> and length \<open>n\<close>: the ring holds the
  newest bytes from \<open>t\<close> on; the flag is raised only when the ring is full, and as long as it is
  down the real tail is the ghost tail.
\<close>

definition write_inv :: "circular_buffer \<Rightarrow> nat \<Rightarrow> bytes \<times> bool \<Rightarrow> bytes \<Rightarrow> bool" where
  "write_inv b count bm xs \<longleftrightarrow> (case bm of (buf, mx) \<Rightarrow>
     length buf = fixed_size b + 1 \<and>
     (\<exists>t n. t < fixed_size b \<and> n \<le> capacity b \<and>
        (head b + count) mod fixed_size b = (t + n) mod fixed_size b \<and>
        ring_slice (fixed_size b) buf t n = xs \<and>
        (mx \<longrightarrow> n = capacity b) \<and> (\<not> mx \<longrightarrow> t = tail b) \<and>
        (\<not> mx \<and> n = capacity b \<longrightarrow> tail b = 0)))"

lemma write_invI:
  assumes "length buf = fixed_size b + 1" and "t < fixed_size b" and "n \<le> capacity b"
    and "(head b + count) mod fixed_size b = (t + n) mod fixed_size b"
    and "ring_slice (fixed_size b) buf t n = xs"
    and "mx \<Longrightarrow> n = capacity b" and "\<not> mx \<Longrightarrow> t = tail b"
    and "\<not> mx \<Longrightarrow> n = capacity b \<Longrightarrow> tail b = 0"
  shows "write_inv b count (buf, mx) xs"
  using assms unfolding write_inv_def by blast

lemma write_inv_step:
  assumes ok: "cb_ok b" and inv: "write_inv b count (buf, mx) xs"
    and pos: "pos = (head b + count) mod fixed_size b"
  shows "write_inv b (count + 1)
    (buf[pos := c],
     (if int ((pos + 1) mod fixed_size b) = int (tail b) - 1 \<or> (tail b = 0 \<and> pos = fixed_size b - 1)
      then True else mx))
    (keep_last (capacity b) (xs @ [c]))"
proof -
  let ?fs = "fixed_size b"
  let ?hit = "int ((pos + 1) mod ?fs) = int (tail b) - 1 \<or> (tail b = 0 \<and> pos = ?fs - 1)"
  obtain t n where t: "t < ?fs" and n: "n \<le> capacity b" and len: "length buf = ?fs + 1"
    and p: "pos = (t + n) mod ?fs" and sl: "ring_slice ?fs buf t n = xs"
    and mx: "mx \<longrightarrow> n = capacity b" and nmx: "\<not> mx \<longrightarrow> t = tail b"
    and edge: "\<not> mx \<and> n = capacity b \<longrightarrow> tail b = 0"
    using inv pos by (auto simp: write_inv_def)
  have big: "1 < ?fs"
    using ok by (simp add: cb_ok_def)
  then have nfs: "n < ?fs" and cap: "capacity b = ?fs - 1"
    using n by (auto simp: capacity_def)
  have lxs: "length xs = n"
    using sl by (metis ring_slice_length)
  have next_head: "(head b + (count + 1)) mod ?fs = (t + Suc n) mod ?fs"
    using pos p by (metis Suc_eq_plus1 add.assoc mod_add_left_eq)
  have slice: "ring_slice ?fs (buf[pos := c]) t (Suc n) = xs @ [c]"
    using ring_slice_snoc [OF nfs, of buf t c] len sl p by simp
  have hit_iff: "\<not> mx \<Longrightarrow> ?hit \<longleftrightarrow> (if tail b = 0 then n = capacity b else Suc n = capacity b)"
  proof -
    assume "\<not> mx"
    then have tb: "t = tail b" using nmx by simp
    have "(pos + 1) mod ?fs = (t + Suc n) mod ?fs"
      using p by (simp add: mod_Suc_eq)
    moreover have "(t + Suc n) mod ?fs = (if t + Suc n < ?fs then t + Suc n else t + Suc n - ?fs)"
      using t nfs by (intro mod_once) simp
    moreover have "t = 0 \<Longrightarrow> pos = ?fs - 1 \<longleftrightarrow> n = capacity b"
      using p nfs cap by simp
    ultimately show ?thesis using tb t nfs cap by (cases "t = 0") (auto split: if_splits)
  qed
  show ?thesis
  proof (cases "n = capacity b")
    case True
    have "drop 1 (xs @ [c]) = ring_slice ?fs (buf[pos := c]) ((t + 1) mod ?fs) n"
      using ring_slice_Suc [of ?fs "buf[pos := c]" t n] slice by simp
    moreover have "keep_last (capacity b) (xs @ [c]) = drop 1 (xs @ [c])"
      using True lxs by (simp add: keep_last_snoc)
    moreover have "mx \<or> ?hit"
      using hit_iff True edge by auto
    moreover have "((t + 1) mod ?fs + n) mod ?fs = (t + Suc n) mod ?fs"
      by (simp add: mod_add_left_eq)
    ultimately show ?thesis
      using True next_head len t n
      by (intro write_invI [of _ _ "(t + 1) mod ?fs" n]) (auto split: if_splits)
  next
    case False
    with n have less: "n < capacity b" by simp
    have nomx: "\<not> mx" using mx False by blast
    have keep: "keep_last (capacity b) (xs @ [c]) = xs @ [c]"
      using less lxs by simp
    have flag: "(if ?hit then True else mx) = ?hit"
      using nomx by simp
    have h1: "?hit \<Longrightarrow> Suc n = capacity b" and h2: "Suc n = capacity b \<Longrightarrow> \<not> ?hit \<Longrightarrow> tail b = 0"
      using hit_iff [OF nomx] less by (metis less_irrefl)+
    show ?thesis
      unfolding flag keep
    proof (rule write_invI [of _ _ t "Suc n"])
      show "ring_slice ?fs (buf[pos := c]) t (Suc n) = xs @ [c]" by (rule slice)
      show "t = tail b" using nmx nomx by blast
      show "tail b = 0" if "\<not> ?hit" and "Suc n = capacity b" using h2 that by blast
      show "Suc n = capacity b" if "?hit" using h1 that by blast
    qed (use next_head len t less in simp_all)
  qed
qed

lemma write_loop_inv:
  assumes "cb_ok b" and "write_inv b count (buf, mx) xs"
    and "write_loop b cs count (buf, pos, mx) = (buf', pos', mx')"
  shows "write_inv b (count + length cs) (buf', mx') (keep_last (capacity b) (xs @ cs)) \<and>
    (cs \<noteq> [] \<longrightarrow> pos' = (head b + (count + length cs - 1)) mod fixed_size b)"
  using assms
proof (induction cs arbitrary: count buf pos mx xs)
  case Nil
  then have "length xs \<le> capacity b"
    by (auto simp: write_inv_def)
  with Nil show ?case by simp
next
  case (Cons c cs)
  let ?pos = "(head b + count) mod fixed_size b"
  let ?mx = "if int ((?pos + 1) mod fixed_size b) = int (tail b) - 1 \<or>
      (tail b = 0 \<and> ?pos = fixed_size b - 1) then True else mx"
  have step: "write_inv b (count + 1) (buf[?pos := c], ?mx) (keep_last (capacity b) (xs @ [c]))"
    using write_inv_step [OF Cons.prems(1,2)] by simp
  have run: "write_loop b cs (count + 1) (buf[?pos := c], ?pos, ?mx) = (buf', pos', mx')"
    using Cons.prems(3) by (simp add: Let_def)
  have "keep_last (capacity b) (keep_last (capacity b) (xs @ [c]) @ cs) =
      keep_last (capacity b) (xs @ c # cs)"
    by (simp add: keep_last_append)
  with Cons.IH [OF Cons.prems(1) step run] run show ?case
    by (cases cs) auto
qed

lemma write_inv_start:
  assumes ok: "cb_ok b"
  shows "write_inv b 0 (buffer b, maxed b) (contents b)"
proof -
  have "head b mod fixed_size b = (tail b + stored b) mod fixed_size b"
    using head_from_tail [OF ok] ok by (simp add: cb_ok_def)
  moreover have "stored b \<le> capacity b"
    using stored_less [OF ok] by (simp add: capacity_def)
  moreover have "length (buffer b) = fixed_size b + 1" and "tail b < fixed_size b"
    using ok by (simp_all add: cb_ok_def)
  ultimately show ?thesis
    using maxed_stored [OF ok] not_maxed_full [OF ok]
    by (intro write_invI [of _ _ "tail b" "stored b"]) (auto simp: contents_def)
qed

lemma write_inv_sentinel:
  assumes ok: "cb_ok b" and inv: "write_inv b count (buf, mx) xs"
    and pos: "(pos + 1) mod fixed_size b = (head b + count) mod fixed_size b"
    and bound: "pos < fixed_size b"
  shows "write_inv b count (buf[pos + 1 := 0], mx) xs"
proof -
  let ?fs = "fixed_size b"
  obtain t n where t: "t < ?fs" and n: "n \<le> capacity b" and len: "length buf = ?fs + 1"
    and h: "(head b + count) mod ?fs = (t + n) mod ?fs" and sl: "ring_slice ?fs buf t n = xs"
    and rest: "mx \<longrightarrow> n = capacity b" "\<not> mx \<longrightarrow> t = tail b" "\<not> mx \<and> n = capacity b \<longrightarrow> tail b = 0"
    using inv by (auto simp: write_inv_def)
  have "ring_slice ?fs (buf[pos + 1 := 0]) t n = ring_slice ?fs buf t n"
  proof (rule ring_slice_update_outside)
    fix i assume "i < n"
    moreover have "n < ?fs"
      using ok n by (auto simp: cb_ok_def capacity_def)
    ultimately have "(t + i) mod ?fs \<noteq> (pos + 1) mod ?fs"
      using ring_offset_inj [of i n ?fs t] pos h by simp
    moreover have "(t + i) mod ?fs < ?fs"
      using ok by (simp add: cb_ok_def)
    ultimately show "(t + i) mod ?fs \<noteq> pos + 1"
      by (metis mod_less)
  qed
  with t n len h sl rest show ?thesis
    by (intro write_invI [of _ _ t n]) auto
qed

lemma write_inv_finish:
  assumes ok: "cb_ok b" and inv: "write_inv b count (buf, mx) xs"
    and b': "b' = b\<lparr>will_clear_if_empty := False, buffer := buf,
      tail := (if mx then (head b + count + 1) mod fixed_size b else tail b),
      head := (head b + count) mod fixed_size b,
      maxed := (int ((head b + count) mod fixed_size b) =
        int (if mx then (head b + count + 1) mod fixed_size b else tail b) - 1)\<rparr>"
  shows "cb_ok b' \<and> contents b' = xs"
proof -
  let ?fs = "fixed_size b"
  obtain t n where t: "t < ?fs" and n: "n \<le> capacity b" and len: "length buf = ?fs + 1"
    and h: "(head b + count) mod ?fs = (t + n) mod ?fs" and sl: "ring_slice ?fs buf t n = xs"
    and mx: "mx \<longrightarrow> n = capacity b" and nmx: "\<not> mx \<longrightarrow> t = tail b"
    using inv by (auto simp: write_inv_def)
  have big: "1 < ?fs"
    using ok by (simp add: cb_ok_def)
  have "mx \<Longrightarrow> (head b + count + 1) mod ?fs = t"
  proof -
    assume "mx"
    then have "t + n + 1 = t + ?fs"
      using mx big by (simp add: capacity_def)
    then show ?thesis
      using h t by (metis mod_add_left_eq mod_add_self2 mod_less)
  qed
  then have tail': "tail b' = t"
    using b' nmx by simp
  moreover have "stored b' = n"
    using stored_unique [OF t, of n] n big h tail' b' by (simp add: stored_def capacity_def)
  ultimately show ?thesis
    using b' sl len t big unfolding cb_ok_def contents_def by auto
qed

lemma write_items_spec:
  assumes ok: "cb_ok b" and xs: "xs \<noteq> []"
  shows "cb_ok (write_items xs b) \<and>
    contents (write_items xs b) = keep_last (capacity b) (contents b @ xs)"
proof -
  obtain buf pos mx where run: "write_loop b xs 0 (buffer b, 0, maxed b) = (buf, pos, mx)"
    by (cases "write_loop b xs 0 (buffer b, 0, maxed b)") auto
  have inv: "write_inv b (length xs) (buf, mx) (keep_last (capacity b) (contents b @ xs))"
    and pos: "pos = (head b + (length xs - 1)) mod fixed_size b"
    using write_loop_inv [OF ok write_inv_start [OF ok] run] xs by auto
  have "(pos + 1) mod fixed_size b = (head b + length xs) mod fixed_size b"
    using xs pos by (cases xs) (auto simp: mod_Suc_eq)
  moreover have "pos < fixed_size b"
    using ok pos by (simp add: cb_ok_def)
  ultimately have "write_inv b (length xs) (buf[pos + 1 := 0], mx)
      (keep_last (capacity b) (contents b @ xs))"
    using write_inv_sentinel [OF ok inv] by simp
  from write_inv_finish [OF ok this refl] run show ?thesis
    by (simp add: write_items_def Let_def)
qed

lemma write_items_size [simp]: "fixed_size (write_items xs b) = fixed_size b"
  by (simp add: write_items_def Let_def split: prod.split)

lemma write_items_capacity [simp]: "capacity (write_items xs b) = capacity b"
  by (simp add: capacity_def)

text \<open>
  The write of one item agrees with the write of a string of one, but for the lap in which the
  reader is at cell 0 and the writer fills the last cell.
\<close>

definition last_cell_lap :: "circular_buffer \<Rightarrow> bool" where
  "last_cell_lap b \<longleftrightarrow> tail b = 0 \<and> head b = fixed_size b - 1"

lemma write_item_as_string:
  assumes ok: "cb_ok b" and "\<not> last_cell_lap b"
  shows "write_item c b = write_items [c] b"
proof -
  let ?fs = "fixed_size b"
  have h: "head b < ?fs" and t: "tail b < ?fs" and big: "1 < ?fs"
    using ok by (auto simp: cb_ok_def)
  have "(head b + 2) mod ?fs = tail b" if "int ((head b + 1) mod ?fs) = int (tail b) - 1"
  proof -
    from that have "Suc ((head b + 1) mod ?fs) = tail b" by linarith
    then have "(head b + 2) mod ?fs = tail b mod ?fs"
      by (metis Suc_eq_plus1 add_2_eq_Suc' mod_Suc_eq)
    with t show ?thesis by simp
  qed
  then show ?thesis
    using assms(2) h
    by (auto simp: write_item_def write_items_def last_cell_lap_def Let_def)
qed

lemma write_item_last_cell_lap:
  assumes ok: "cb_ok b" and "last_cell_lap b"
  shows "cb_ok (write_item c b) \<and> contents (write_item c b) = []"
  using assms
  by (auto simp: write_item_def last_cell_lap_def cb_ok_def contents_def stored_def
      ring_slice_def Let_def)

lemma last_cell_lap_full:
  assumes "cb_ok b" and "last_cell_lap b"
  shows "stored b = capacity b"
  using assms by (simp add: stored_by_cases last_cell_lap_def capacity_def)

subsection \<open>Reading\<close>

lemma advance_tail:
  assumes ok: "cb_ok b" and m: "m \<le> stored b" and prog: "0 < m \<or> \<not> maxed b"
    and b': "b' = b\<lparr>tail := (tail b + m) mod fixed_size b, maxed := False\<rparr>"
  shows "cb_ok b' \<and> contents b' = drop m (contents b)"
proof -
  let ?fs = "fixed_size b" and ?t = "(tail b + m) mod fixed_size b"
  have big: "1 < ?fs" and sl: "stored b < ?fs"
    using ok stored_less [OF ok] by (auto simp: cb_ok_def)
  have hd: "head b = (?t + (stored b - m)) mod ?fs"
    using head_from_tail [OF ok] m mod_add_left_eq [of "tail b + m" ?fs "stored b - m"] by simp
  have "(head b + ?fs - ?t) mod ?fs = stored b - m"
    using big sl by (intro stored_unique hd) simp_all
  then have st: "stored b' = stored b - m"
    unfolding stored_def [of b'] by (simp add: b')
  have "contents b = ring_slice ?fs (buffer b) (tail b) (m + (stored b - m))"
    using m by (simp add: contents_def)
  then have "contents b' = drop m (contents b)"
    unfolding contents_def [of b'] st by (simp add: ring_slice_append b')
  moreover have "\<not> (0 < ?t \<and> head b = ?t - 1)"
  proof
    assume edge: "0 < ?t \<and> head b = ?t - 1"
    moreover have "?t < ?fs" using big by simp
    ultimately have "stored b - m = ?fs - 1"
      using st unfolding stored_def [of b'] by (auto simp: b')
    with sl m have "m = 0" and full: "stored b = capacity b" by (auto simp: capacity_def)
    then have "?t = tail b"
      using ok by (simp add: cb_ok_def)
    with edge prog \<open>m = 0\<close> ok show False by (auto simp: cb_ok_def)
  qed
  ultimately show ?thesis
    using ok b' big by (auto simp: cb_ok_def)
qed

lemma consumable_le_stored: "cb_ok b \<Longrightarrow> consumable b \<le> stored b"
  by (auto simp: stored_by_cases consumable_def wrapped_def empty_def)

lemma consumable_pos: "cb_ok b \<Longrightarrow> \<not> empty b \<Longrightarrow> 0 < consumable b"
  by (auto simp: cb_ok_def consumable_def wrapped_def empty_def)

lemma consumable_block:
  assumes ok: "cb_ok b" and m: "m \<le> consumable b"
  shows "take m (drop (tail b) (buffer b)) = take m (contents b)"
proof -
  have "tail b + consumable b \<le> fixed_size b"
    using ok by (auto simp: cb_ok_def consumable_def wrapped_def empty_def)
  moreover have "stored b = m + (stored b - m)"
    using m consumable_le_stored [OF ok] by simp
  then have "contents b = ring_slice (fixed_size b) (buffer b) (tail b) m @
      ring_slice (fixed_size b) (buffer b) (tail b + m) (stored b - m)"
    unfolding contents_def by (metis ring_slice_append)
  ultimately show ?thesis
    using ok m ring_slice_linear [of "tail b" m "fixed_size b" "buffer b"]
    by (simp add: cb_ok_def)
qed

lemma consume_spec:
  assumes ok: "cb_ok b" and ne: "contents b \<noteq> []"
  shows "fst (consume b) = hd (contents b) \<and> cb_ok (snd (consume b)) \<and>
    contents (snd (consume b)) = tl (contents b)"
proof -
  have nemp: "\<not> empty b" and pos: "0 < stored b"
    using ne empty_iff_contents [OF ok] by (auto simp flip: length_contents)
  then have "fst (consume b) = hd (contents b)"
    using ok ring_slice_Suc [of "fixed_size b" "buffer b" "tail b" "stored b - 1"]
    by (simp add: consume_def contents_def cb_ok_def)
  with advance_tail [OF ok, of 1] pos nemp show ?thesis
    by (simp add: consume_def drop_Suc)
qed

lemma consume_block_spec:
  assumes ok: "cb_ok b" and "0 < n"
  shows "fst (consume_block n b) = take (min n (consumable b)) (contents b) \<and>
    cb_ok (snd (consume_block n b)) \<and>
    contents (snd (consume_block n b)) = drop (min n (consumable b)) (contents b)"
proof -
  let ?m = "min n (consumable b)"
  have le: "?m \<le> stored b"
    using consumable_le_stored [OF ok] by simp
  have prog: "0 < ?m \<or> \<not> maxed b"
    using consumable_pos [OF ok] ok assms(2) by (fastforce simp: cb_ok_def empty_def)
  have "snd (consume_block n b) = b\<lparr>tail := (tail b + ?m) mod fixed_size b, maxed := False\<rparr>"
    using ok by (auto simp: consume_block_def Let_def cb_ok_def consumable_def wrapped_def empty_def)
  with advance_tail [OF ok le prog] show ?thesis
    by (simp add: consume_block_def Let_def consumable_block [OF ok])
qed

lemma clear_spec: "cb_ok b \<Longrightarrow> cb_ok (clear b) \<and> contents (clear b) = []"
  by (simp add: clear_def cb_ok_def contents_def stored_def ring_slice_def)

lemma clear_if_empty_eq:
  "clear_if_empty b =
     (if empty b then b\<lparr>will_clear_if_empty := True, head := 0, tail := 0, maxed := False\<rparr>
      else b\<lparr>will_clear_if_empty := True\<rparr>)"
  by (simp add: clear_if_empty_def eval_nat_numeral empty_def)

lemma flag_irrelevant [simp]:
  "contents (b\<lparr>will_clear_if_empty := f\<rparr>) = contents b" "cb_ok (b\<lparr>will_clear_if_empty := f\<rparr>) = cb_ok b"
  "empty (b\<lparr>will_clear_if_empty := f\<rparr>) = empty b" "capacity (b\<lparr>will_clear_if_empty := f\<rparr>) = capacity b"
  by (simp_all add: contents_def stored_def cb_ok_def empty_def capacity_def)

lemma reset_spec:
  "cb_ok b \<Longrightarrow> cb_ok (b\<lparr>tail := 0, head := 0, maxed := False\<rparr>) \<and>
     contents (b\<lparr>tail := 0, head := 0, maxed := False\<rparr>) = []"
  by (simp add: cb_ok_def contents_def stored_def ring_slice_def)

section \<open>The bounded log contract\<close>

text \<open>
  What the log's writer and reader rely on: a write appends and forgets the oldest bytes beyond the
  capacity, a read takes the oldest byte.
\<close>

locale bounded_log =
  fixes ok :: "'b \<Rightarrow> bool"
    and content :: "'b \<Rightarrow> 'a list"
    and cap :: "'b \<Rightarrow> nat"
    and append_all :: "'a list \<Rightarrow> 'b \<Rightarrow> 'b"
    and take_one :: "'b \<Rightarrow> 'a \<times> 'b"
  assumes append_ok: "ok b \<Longrightarrow> xs \<noteq> [] \<Longrightarrow> ok (append_all xs b)"
    and append_content:
      "ok b \<Longrightarrow> xs \<noteq> [] \<Longrightarrow> content (append_all xs b) = keep_last (cap b) (content b @ xs)"
    and append_cap: "cap (append_all xs b) = cap b"
    and take_ok: "ok b \<Longrightarrow> content b \<noteq> [] \<Longrightarrow> ok (snd (take_one b))"
    and take_content: "ok b \<Longrightarrow> content b \<noteq> [] \<Longrightarrow> content (snd (take_one b)) = tl (content b)"
    and take_value: "ok b \<Longrightarrow> content b \<noteq> [] \<Longrightarrow> fst (take_one b) = hd (content b)"
begin

lemma append_many:
  assumes "ok b" and "\<forall>xs \<in> set xss. xs \<noteq> []" and "length (content b) \<le> cap b"
  shows "ok (fold append_all xss b) \<and>
    content (fold append_all xss b) = keep_last (cap b) (content b @ concat xss)"
  using assms
proof (induction xss arbitrary: b)
  case Nil
  then show ?case by simp
next
  case (Cons xs xss)
  then have "content (append_all xs b) = keep_last (cap b) (content b @ xs)"
    and "ok (append_all xs b)"
    by (simp_all add: append_content append_ok)
  with Cons show ?case
    by (simp add: append_cap keep_last_append)
qed

lemma take_many:
  assumes "ok b" and "n \<le> length (content b)"
  shows "ok (((\<lambda>b. snd (take_one b)) ^^ n) b) \<and>
    content (((\<lambda>b. snd (take_one b)) ^^ n) b) = drop n (content b)"
  using assms
proof (induction n)
  case 0
  then show ?case by simp
next
  case (Suc n)
  then have ih: "ok (((\<lambda>b. snd (take_one b)) ^^ n) b)"
      "content (((\<lambda>b. snd (take_one b)) ^^ n) b) = drop n (content b)" "drop n (content b) \<noteq> []"
    by auto
  then show ?case
    by (simp add: take_ok take_content drop_Suc tl_drop)
qed

text \<open>Reading after writing gives back the bytes in order.\<close>

lemma read_back:
  assumes "ok b" and "\<forall>xs \<in> set xss. xs \<noteq> []" and "length (content b @ concat xss) \<le> cap b"
    and "n < length (content b @ concat xss)"
  shows "fst (take_one (((\<lambda>b. snd (take_one b)) ^^ n) (fold append_all xss b))) =
    (content b @ concat xss) ! n"
proof -
  let ?b = "fold append_all xss b"
  have w: "ok ?b" "content ?b = content b @ concat xss"
    using append_many [of b xss] assms by auto
  then have "ok (((\<lambda>b. snd (take_one b)) ^^ n) ?b)"
      "content (((\<lambda>b. snd (take_one b)) ^^ n) ?b) = drop n (content b @ concat xss)"
    using take_many [of ?b n] assms(4) by auto
  with assms(4) show ?thesis
    by (metis drop_eq_Nil2 hd_drop_conv_nth linorder_not_less take_value)
qed

end

interpretation ring: bounded_log cb_ok contents capacity write_items consume
  by unfold_locales (auto simp: write_items_spec consume_spec)

section \<open>Reading lines\<close>

text \<open>The bytes up to and including the first newline.\<close>

definition line_prefix :: "bytes \<Rightarrow> bytes" where
  "line_prefix xs = takeWhile (\<lambda>c. c \<noteq> newline) xs @ (if newline \<in> set xs then [newline] else [])"

text \<open>How the log is cut into lines: at newlines, and after \<open>n\<close> bytes at the latest.\<close>

function split_lines :: "nat \<Rightarrow> bytes \<Rightarrow> bytes list" where
  "split_lines n xs =
     (if xs = [] \<or> n = 0 then []
      else take n (line_prefix xs) # split_lines n (drop (length (take n (line_prefix xs))) xs))"
  by pat_completeness auto
termination
proof (relation "measure (\<lambda>(n, xs). length xs)")
  fix n :: nat and xs :: bytes
  assume "\<not> (xs = [] \<or> n = 0)"
  moreover from this have "line_prefix xs \<noteq> []"
    by (cases xs) (auto simp: line_prefix_def)
  ultimately show "((n, drop (length (take n (line_prefix xs))) xs), (n, xs))
      \<in> measure (\<lambda>(n, xs). length xs)"
    by (cases xs) (auto simp: min_def)
qed simp

declare split_lines.simps [simp del]

lemma line_prefix_no_newline: "newline \<notin> set xs \<Longrightarrow> line_prefix xs = xs"
  unfolding line_prefix_def by (induction xs) auto

lemma line_prefix_is_prefix: "\<exists>ys. xs = line_prefix xs @ ys"
proof (cases "newline \<in> set xs")
  case True
  then obtain ys zs where "xs = ys @ newline # zs" and "newline \<notin> set ys"
    by (meson split_list_first)
  then show ?thesis
    by (intro exI [of _ zs]) (auto simp: line_prefix_def takeWhile_append)
next
  case False
  then show ?thesis by (simp add: line_prefix_no_newline)
qed

lemma line_prefix_nonempty: "xs \<noteq> [] \<Longrightarrow> line_prefix xs \<noteq> []"
  by (cases xs) (auto simp: line_prefix_def)

lemma line_prefix_take: "take (length (take n (line_prefix xs))) xs = take n (line_prefix xs)"
proof -
  obtain ys where "xs = line_prefix xs @ ys"
    using line_prefix_is_prefix by blast
  then have "take (min (length (line_prefix xs)) n) xs = take n (line_prefix xs)"
    by (metis append_eq_conv_conj min.commute take_take)
  then show ?thesis by simp
qed

lemma line_prefix_le: "length (line_prefix xs) \<le> length xs"
  by (metis line_prefix_is_prefix le_add1 length_append)

lemma concat_split_lines: "0 < n \<Longrightarrow> concat (split_lines n xs) = xs"
proof (induction n xs rule: split_lines.induct)
  case (1 n xs)
  show ?case
  proof (cases "xs = []")
    case False
    let ?l = "take n (line_prefix xs)"
    have "concat (split_lines n xs) = ?l @ concat (split_lines n (drop (length ?l) xs))"
      using False "1.prems" by (subst split_lines.simps) simp
    also have "concat (split_lines n (drop (length ?l) xs)) = drop (length ?l) xs"
      using False "1.prems" by (intro "1.IH") simp_all
    finally show ?thesis
      using line_prefix_take [of n xs] by (metis append_take_drop_id)
  qed (simp add: split_lines.simps)
qed

lemma strchr_find:
  assumes "0 \<notin> set xs"
  shows "strchr (xs @ 0 # ys) newline =
    Inr (if newline \<in> set xs then Some (length (takeWhile (\<lambda>c. c \<noteq> newline) xs)) else None)"
  using assms by (induction xs) auto

text \<open>
  A buffer whose unread bytes lie in one block, end at a NUL and hold none: the state that
  \<open>clear_if_empty\<close> works to keep (\<^verbatim>\<open>try to keep logging within only one block\<close>).
\<close>

definition line_ready :: "circular_buffer \<Rightarrow> bool" where
  "line_ready b \<longleftrightarrow> cb_ok b \<and> tail b \<le> head b \<and> (tail b < head b \<longrightarrow> buffer b ! head b = 0) \<and>
     0 \<notin> set (contents b)"

lemma line_ready_memory:
  assumes "line_ready b" and "tail b < head b"
  shows "drop (tail b) (buffer b) = contents b @ 0 # drop (head b + 1) (buffer b)"
proof -
  have ok: "cb_ok b" and z: "buffer b ! head b = 0"
    using assms by (auto simp: line_ready_def)
  have con: "consumable b = head b - tail b" and st: "stored b = head b - tail b"
    using assms ok by (auto simp: consumable_def wrapped_def stored_by_cases)
  then have "take (head b - tail b) (drop (tail b) (buffer b)) = contents b"
    using consumable_block [OF ok, of "stored b"] by simp
  moreover have "drop (head b) (buffer b) = 0 # drop (head b + 1) (buffer b)"
    using ok z by (metis Cons_nth_drop_Suc Suc_eq_plus1 cb_ok_def less_SucI)
  moreover have "drop (head b - tail b) (drop (tail b) (buffer b)) = drop (head b) (buffer b)"
    using assms(2) by simp
  ultimately show ?thesis
    by (metis append_take_drop_id)
qed

lemma line_ready_strchr:
  assumes "line_ready b" and "tail b < head b" and "m \<le> stored b"
  shows "strchr (drop (tail b + m) (buffer b)) newline =
    Inr (if newline \<in> set (drop m (contents b))
         then Some (length (takeWhile (\<lambda>c. c \<noteq> newline) (drop m (contents b)))) else None)"
proof -
  have "drop (tail b + m) (buffer b) = drop m (contents b) @ 0 # drop (head b + 1) (buffer b)"
    using line_ready_memory [OF assms(1,2)] assms(3) by (simp add: add.commute flip: drop_drop)
  moreover have "0 \<notin> set (drop m (contents b))"
    using assms(1) by (auto simp: line_ready_def dest: in_set_dropD)
  ultimately show ?thesis by (simp add: strchr_find)
qed

lemma line_ready_advance:
  assumes ready: "line_ready b" and m: "m \<le> stored b"
    and b': "b' = b\<lparr>tail := tail b + m, maxed := False\<rparr>"
  shows "line_ready b' \<and> contents b' = drop m (contents b)"
proof -
  have ok: "cb_ok b" and nmx: "\<not> maxed b" and st: "stored b = head b - tail b" and th: "tail b \<le> head b"
    using ready by (auto simp: line_ready_def cb_ok_def stored_by_cases)
  have "(tail b + m) mod fixed_size b = tail b + m"
    using ok m st th by (auto simp: cb_ok_def)
  then have "cb_ok b' \<and> contents b' = drop m (contents b)"
    using advance_tail [OF ok m] nmx b' by simp
  with ready m st th b' show ?thesis
    by (auto simp: line_ready_def dest: in_set_dropD)
qed

lemma consume_line_ready:
  assumes ready: "line_ready b" and ne: "contents b \<noteq> []" and n: "0 < n"
  shows "\<exists>b'. consume_line n b = Inr (take n (line_prefix (contents b)), b') \<and> line_ready b' \<and>
    contents b' = drop (length (take n (line_prefix (contents b)))) (contents b)"
proof -
  let ?c = "contents b" and ?m = "length (take n (line_prefix (contents b)))"
  have ok: "cb_ok b" and le: "tail b \<le> head b"
    using ready by (auto simp: line_ready_def)
  have st: "stored b = head b - tail b" and lt: "tail b < head b"
    using ok le ne empty_iff_contents [OF ok] by (auto simp: stored_by_cases empty_def)
  have con: "consumable b = stored b" and nw: "\<not> wrapped b"
    using lt st by (auto simp: consumable_def wrapped_def)
  have hd: "head b < fixed_size b" using ok by (simp add: cb_ok_def)
  have m: "?m \<le> stored b"
    using line_prefix_le [of ?c] by simp
  have fits: "(tail b + ?m) mod fixed_size b = tail b + ?m"
    using m st hd lt by simp
  have blk: "take k (drop (tail b) (buffer b)) = take k ?c" if "k \<le> stored b" for k
    using consumable_block [OF ok, of k] that con by simp
  have srch: "strchr (drop (tail b) (buffer b)) newline =
      Inr (if newline \<in> set ?c then Some (length (takeWhile (\<lambda>c. c \<noteq> newline) ?c)) else None)"
    using line_ready_strchr [OF ready lt, of 0] by simp
  have "consume_line n b = Inr (take ?m ?c, b\<lparr>tail := tail b + ?m, maxed := False\<rparr>)"
  proof (cases "newline \<in> set ?c")
    case True
    then have lm: "?m = min (min n (stored b)) (length (takeWhile (\<lambda>c. c \<noteq> newline) ?c) + 1)"
      using line_prefix_le [of ?c] by (auto simp: line_prefix_def)
    have "consume_line n b = Inr (consume_line_rest b n [] (tail b) (stored b) (min n (stored b))
        (Some (length (takeWhile (\<lambda>c. c \<noteq> newline) ?c))))"
      using True by (simp add: consume_line_def srch con)
    also have "consume_line_rest b n [] (tail b) (stored b) (min n (stored b))
        (Some (length (takeWhile (\<lambda>c. c \<noteq> newline) ?c))) =
        (take ?m ?c, b\<lparr>tail := tail b + ?m, maxed := False\<rparr>)"
      unfolding consume_line_rest_def Let_def option.case lm [symmetric]
      using m fits by (simp only: blk list.size add_0 if_True append_Nil)
    finally show ?thesis .
  next
    case False
    then have lm: "?m = min n (stored b)"
      by (simp add: line_prefix_no_newline)
    have second: "strchr (drop (tail b + min n (stored b)) (buffer b)) newline = Inr None"
      using line_ready_strchr [OF ready lt, of "min n (stored b)"] False
      by (auto dest: in_set_dropD)
    show ?thesis
    proof (cases "n < stored b")
      case True
      then have "consume_line n b = Inr (consume_line_rest b n (take n ?c) (tail b + n) (head b) 0 None)"
        using False second by (simp add: consume_line_def srch con blk Let_def)
      moreover have "n \<le> head b" "(tail b + n) mod fixed_size b = tail b + n"
        using True st hd by auto
      ultimately show ?thesis
        using True False by (simp add: consume_line_rest_def line_prefix_no_newline)
    next
      case ge: False
      then show ?thesis
        using False nw st lt
        by (simp add: consume_line_def srch con blk line_prefix_no_newline)
    qed
  qed
  with line_ready_advance [OF ready m refl] line_prefix_take [of n ?c] show ?thesis by auto
qed

lemma print_loop_ready:
  assumes "line_ready b" and "stored b < fuel"
  shows "\<exists>b'. print_loop fuel b =
      Inr (map (Log_line \<circ> strip_newline) (split_lines line_limit (contents b)), b') \<and>
    line_ready b' \<and> contents b' = []"
  using assms
proof (induction fuel arbitrary: b)
  case 0
  then show ?case by simp
next
  case (Suc fuel)
  have ok: "cb_ok b" using Suc.prems(1) by (simp add: line_ready_def)
  show ?case
  proof (cases "contents b = []")
    case True
    then show ?thesis
      using Suc.prems(1) empty_iff_contents [OF ok] by (simp add: split_lines.simps)
  next
    case False
    let ?l = "take line_limit (line_prefix (contents b))"
    obtain b' where b': "consume_line line_limit b = Inr (?l, b')" "line_ready b'"
        "contents b' = drop (length ?l) (contents b)"
      using consume_line_ready [OF Suc.prems(1) False, of line_limit] by auto
    have l: "?l \<noteq> []" using line_prefix_nonempty [OF False] by simp
    have "stored b' = stored b - length ?l" and "0 < stored b"
      using arg_cong [OF b'(3), of length] False by (auto simp flip: length_contents)
    moreover have "0 < length ?l" using l by blast
    ultimately have "stored b' < fuel"
      using Suc.prems(2) by linarith
    then obtain b'' where b'': "print_loop fuel b' =
        Inr (map (Log_line \<circ> strip_newline) (split_lines line_limit (contents b')), b'')"
        "line_ready b''" "contents b'' = []"
      using Suc.IH [OF b'(2)] by blast
    moreover have "split_lines line_limit (contents b) = ?l # split_lines line_limit (contents b')"
      using False b'(3) by (subst split_lines.simps) simp
    ultimately show ?thesis
      using b' l False empty_iff_contents [OF ok] by simp
  qed
qed

lemma write_items_line_ready:
  assumes ready: "line_ready b" and xs: "xs \<noteq> []" "0 \<notin> set xs"
    and fits: "head b + length xs < fixed_size b"
  shows "line_ready (write_items xs b)"
proof -
  let ?b = "write_items xs b"
  have ok: "cb_ok b" and le: "tail b \<le> head b" and c0: "0 \<notin> set (contents b)"
    using ready by (auto simp: line_ready_def)
  then have st: "stored b = head b - tail b" by (simp add: stored_by_cases)
  have ok': "cb_ok ?b" and con: "contents ?b = contents b @ xs"
    using write_items_spec [OF ok xs(1)] st fits by (auto simp: capacity_def)
  have hd: "head ?b = head b + length xs"
    using fits by (simp add: write_items_def Let_def split: prod.split)
  have "stored ?b = stored b + length xs"
    using arg_cong [OF con, of length] by simp
  then have tl: "tail ?b \<le> head ?b"
    using stored_by_cases [OF ok'] hd st le fits ok'
    by (auto simp: cb_ok_def split: if_splits)
  obtain buf pos mx where run: "write_loop b xs 0 (buffer b, 0, maxed b) = (buf, pos, mx)"
    by (cases "write_loop b xs 0 (buffer b, 0, maxed b)") auto
  have "pos + 1 = head ?b" and "length buf = fixed_size b + 1"
    using write_loop_inv [OF ok write_inv_start [OF ok] run] xs fits hd
    by (cases xs; auto simp: write_inv_def)+
  moreover have "buffer ?b = buf[pos + 1 := 0]"
    using run by (simp add: write_items_def Let_def)
  ultimately have "buffer ?b ! head ?b = 0"
    using fits hd by simp
  with ok' tl con c0 xs show ?thesis by (simp add: line_ready_def)
qed

section \<open>Properties\<close>

text \<open>
  A write of a single item appends it and forgets the oldest byte of a full buffer, except when
  the reader is at cell 0 and the item goes to the last cell: then the whole buffer is lost, since
  \<open>head == tail - 1\<close> is never true of \<open>tail == 0\<close> and the indices meet.
\<close>

lemma write_item_every_branch:
  assumes "cb_ok b"
  shows "cb_ok (write_item c b) \<and>
    contents (write_item c b) =
      (if tail b = 0 \<and> head b = fixed_size b - 1 then []
       else keep_last (capacity b) (contents b @ [c]))"
proof (cases "last_cell_lap b")
  case True
  then show ?thesis
    using write_item_last_cell_lap [OF assms] by (simp add: last_cell_lap_def)
next
  case False
  then show ?thesis
    using write_item_as_string [OF assms] write_items_spec [OF assms, of "[c]"]
    by (auto simp: last_cell_lap_def)
qed

text \<open>
  On a log kept in one block, \<open>consume_line\<close> returns the first line with its newline, cut to the
  size asked for, and removes exactly what it returned.
\<close>

lemma consume_line_returns_first_line:
  assumes "line_ready b" and "contents b \<noteq> []" and "0 < n"
  shows "\<exists>b'. consume_line n b = Inr (take n (line_prefix (contents b)), b') \<and> line_ready b' \<and>
    take n (line_prefix (contents b)) @ contents b' = contents b"
  using consume_line_ready [OF assms] line_prefix_take [of n "contents b"]
  by (metis append_take_drop_id)

text \<open>
  C24: with a log kept in one block, \<open>printAvailableLogging\<close> ends, prints every byte of the log cut
  into its lines, and leaves an empty buffer with both indices at 0, ready for the next block.
\<close>

theorem printAvailableLogging_prints_everything:
  assumes "line_ready b" and "stored b < fuel"
  shows "\<exists>b'. printAvailableLogging fuel b =
      Inr (map (Log_line \<circ> strip_newline) (split_lines line_limit (contents b)), b') \<and>
    concat (split_lines line_limit (contents b)) = contents b \<and>
    cb_ok b' \<and> contents b' = [] \<and> head b' = 0 \<and> tail b' = 0"
proof -
  have nf: "\<not> full b"
    using assms(1) by (auto simp: full_def line_ready_def cb_ok_def)
  obtain b' where b': "print_loop fuel b =
        Inr (map (Log_line \<circ> strip_newline) (split_lines line_limit (contents b)), b')"
      "line_ready b'" "contents b' = []"
    using print_loop_ready [OF assms] by blast
  then have ok: "cb_ok b'" and "empty b'"
    using empty_iff_contents [of b'] by (auto simp: line_ready_def)
  then have "cb_ok (clear_if_empty b') \<and> contents (clear_if_empty b') = [] \<and>
      head (clear_if_empty b') = 0 \<and> tail (clear_if_empty b') = 0"
    by (simp add: clear_if_empty_eq cb_ok_def contents_def stored_def ring_slice_def)
  with nf b'(1) show ?thesis
    by (simp add: printAvailableLogging_def concat_split_lines)
qed

theorem printAvailableLogging_prints_everything_witness:
  "\<exists>b'. printAvailableLogging 5 \<lparr>buffer = [104, 105, 10, 106, 0, 0], fixed_size = 5, head = 4,
      tail = 0, maxed = False, will_clear_if_empty = False\<rparr> =
      Inr ([Log_line [104, 105], Log_line [106]], b') \<and> contents b' = []"
proof -
  let ?b = "\<lparr>buffer = [104, 105, 10, 106, 0, 0], fixed_size = 5, head = 4, tail = 0,
      maxed = False, will_clear_if_empty = False\<rparr> :: circular_buffer"
  have c: "contents ?b = [104, 105, 10, 106]"
    by (simp add: contents_def stored_def ring_slice_def upt_rec)
  then have "line_ready ?b" by (simp add: line_ready_def cb_ok_def)
  moreover have "stored ?b < 5" by (simp add: stored_def)
  moreover have "split_lines line_limit [104, 105, 10, 106] = [[104, 105, 10], [106]]"
    by (simp add: split_lines.simps line_prefix_def)
  ultimately show ?thesis
    using printAvailableLogging_prints_everything [of ?b 5] c by (auto simp: strip_newline_def)
qed

text \<open>
  On a wrapped buffer, a line longer than the space asked for moves the read position to
  \<open>line_size\<close>, wherever it was, as soon as the write position is below \<open>line_size\<close>: unread bytes are
  skipped or bytes of an earlier lap are read again.
\<close>

lemma consume_line_wrapped_jump:
  assumes "wrapped b" and "n < consumable b" and "head b < n"
    and "strchr (drop (tail b) (buffer b)) newline = Inr None"
    and "strchr (drop (tail b + n) (buffer b)) newline = Inr r"
  shows "consume_line n b =
    Inr (take n (drop (tail b) (buffer b)), b\<lparr>tail := n, maxed := False\<rparr>)"
proof -
  have "n \<le> length (drop (tail b) (buffer b)) \<or> take n (drop (tail b) (buffer b)) = drop (tail b) (buffer b)"
    by auto
  moreover have "tail b + n < length (buffer b)"
    using assms(5) by (metis drop_eq_Nil2 linorder_not_less strchr.simps(1) sum.distinct(1))
  ultimately have len: "length (take n (drop (tail b) (buffer b))) = n"
    by auto
  have "consume_line n b =
      Inr (consume_line_rest b n (take n (drop (tail b) (buffer b))) (tail b + n) (head b) 0 r)"
    using assms(2,4,5) by (simp add: consume_line_def)
  also have "\<dots> = Inr (take n (drop (tail b) (buffer b)), b\<lparr>tail := n, maxed := False\<rparr>)"
    using assms(1,3) len by (auto simp: consume_line_rest_def wrapped_def split: option.split)
  finally show ?thesis .
qed

lemma writes_spec:
  assumes "cb_ok b" and "\<forall>xs \<in> set xss. xs \<noteq> []"
  shows "cb_ok (fold write_items xss b) \<and>
    contents (fold write_items xss b) = keep_last (capacity b) (contents b @ concat xss)"
proof (rule ring.append_many [OF assms])
  show "length (contents b) \<le> capacity b"
    using stored_less [OF assms(1)] by (simp add: contents_def ring_slice_def capacity_def)
qed

lemma writes_capacity [simp]: "capacity (fold write_items xss b) = capacity b"
  by (induction xss arbitrary: b) simp_all

lemma writes_flag [simp]:
  "will_clear_if_empty (fold write_items xss b) \<longleftrightarrow> xss = [] \<and> will_clear_if_empty b"
proof (induction xss arbitrary: b)
  case (Cons xs xss)
  have "\<not> will_clear_if_empty (write_items xs b)"
    by (simp add: write_items_def Let_def split: prod.split)
  then show ?case using Cons.IH by simp
qed simp

text \<open>From the test of the flag on: what was written before it, since the buffer was found empty, stays.\<close>

lemma clear_interrupted_flag_test:
  assumes "cb_ok b" and "empty b" and "\<forall>xs \<in> set written. xs \<noteq> []"
  shows "let r = clear_interrupted [written, [], [], []] (Test_flag, b)
    in fst r = Returned \<and> cb_ok (snd r) \<and> contents (snd r) = keep_last (capacity b) (contents b @ concat written)"
proof (cases "written = [] \<and> will_clear_if_empty b")
  case True
  moreover have "contents b = []"
    using assms(1,2) empty_iff_contents by blast
  ultimately show ?thesis
    using reset_spec [OF assms(1)] by (simp add: eval_nat_numeral)
next
  case False
  then show ?thesis using writes_spec [OF assms(1,3)] by auto
qed

text \<open>
  C26: writes from interrupts before \<open>clear_if_empty\<close> tests its flag are never lost, not even those that
  come when it has already found the buffer empty: the buffer holds what it held before followed by
  what the interrupts wrote, up to its capacity. This is what the flag is for.
\<close>

theorem clear_if_empty_keeps_interrupt_writes:
  assumes "cb_ok b" and "\<forall>xs \<in> set (w1 @ w2 @ w3). xs \<noteq> []"
  shows "let r = clear_interrupted [w1, w2, w3, [], [], []] (Raise_flag, b)
    in fst r = Returned \<and> cb_ok (snd r) \<and>
       contents (snd r) = keep_last (capacity b) (contents b @ concat (w1 @ w2 @ w3))"
proof -
  define b2 where "b2 = fold write_items w2 (fold write_items w1 b\<lparr>will_clear_if_empty := True\<rparr>)"
  have b1: "cb_ok (fold write_items w1 b)"
      "contents (fold write_items w1 b) = keep_last (capacity b) (contents b @ concat w1)"
    using writes_spec [OF assms(1), of w1] assms(2) by auto
  then have b2: "cb_ok b2" "contents b2 = keep_last (capacity b) (contents b @ concat w1 @ concat w2)"
      "capacity b2 = capacity b"
    using writes_spec [of "fold write_items w1 b\<lparr>will_clear_if_empty := True\<rparr>" w2] assms(2)
    by (simp_all add: b2_def keep_last_append)
  have w3: "\<forall>xs \<in> set w3. xs \<noteq> []" using assms(2) by simp
  show ?thesis
  proof (cases "empty b2")
    case True
    with clear_interrupted_flag_test [OF b2(1) True w3] show ?thesis
      by (simp add: b2_def [symmetric] b2(2,3) keep_last_append)
  next
    case False
    with writes_spec [OF b2(1) w3] show ?thesis
      by (simp add: b2_def [symmetric] b2(2,3) keep_last_append)
  qed
qed

theorem clear_if_empty_keeps_interrupt_writes_witness:
  "contents (snd (clear_interrupted [[], [], [[1], [2, 3]], [], [], []]
     (Raise_flag, new_CircularBuffer (replicate 9 0) 8))) = [1, 2, 3]"
proof -
  have ok: "cb_ok (new_CircularBuffer (replicate 9 0) 8)"
    and c: "contents (new_CircularBuffer (replicate 9 0) 8) = []"
    and cap: "capacity (new_CircularBuffer (replicate 9 0) 8) = 7"
    by (simp_all add: cb_ok_def new_CircularBuffer_def contents_def stored_def ring_slice_def
        capacity_def)
  from clear_if_empty_keeps_interrupt_writes [OF ok, of "[]" "[]" "[[1], [2, 3]]"] show ?thesis
    by (simp add: c cap Let_def del: clear_interrupted.simps)
qed

text \<open>
  Nothing guards the resets themselves: what an interrupt writes after the test of the flag and before
  the indices are reset is lost.
\<close>

lemma clear_if_empty_loses_late_writes:
  assumes "empty b"
  shows "contents (snd (clear_interrupted [[], [], [], written, [], []] (Raise_flag, b))) = []"
  using assms by (simp add: contents_def stored_def ring_slice_def)

end
