(* ===== verification/Diagnostics.thy ===== *)
theory Diagnostics
  imports Tracker CircularBuffer
begin

text \<open>
  What the program writes to its log about itself: \<open>print_named_data\<close> of \<open>main.cpp\<close>, which dumps received
  bytes in hexadecimal and as text, and \<open>BleConnectionTracker::printStats\<close>. Each \<open>LOG_DEBUG\<close> is one formatted
  write to the ring buffer \<open>serialLogBuffer\<close>; the conversions of \<open>vsnprintf\<close> that the formats use are written
  out. The text of \<open>bd_addr_to_str\<close> is a parameter, since the function is the stack's.
\<close>

section \<open>Conversions of vsnprintf\<close>

text \<open>A string literal.\<close>

definition lit :: "string \<Rightarrow> bytes" where
  "lit s = map of_char s"

definition digit :: "nat \<Rightarrow> u8" where
  "digit d = (if d < 10 then of_nat (48 + d) else of_nat (87 + d))"

text \<open>The digits of \<open>%u\<close> and \<open>%x\<close>, and the zeros that a width of \<open>w\<close> puts before them.\<close>

fun digits :: "nat \<Rightarrow> nat \<Rightarrow> bytes" where
  "digits radix n =
     (if n < radix \<or> radix < 2 then [digit n] else digits radix (n div radix) @ [digit (n mod radix)])"

declare digits.simps [simp del]

definition zero_padded :: "nat \<Rightarrow> bytes \<Rightarrow> bytes" where
  "zero_padded w text = replicate (w - length text) (digit 0) @ text"

text \<open>Consecutive calls of \<open>LOG_DEBUG\<close>.\<close>

definition log_debug :: "bytes list \<Rightarrow> circular_buffer \<Rightarrow> circular_buffer result" where
  "log_debug = fold_result writeF"

section \<open>Dumping bytes\<close>

definition hex_byte :: "u8 \<Rightarrow> bytes" where
  "hex_byte c = zero_padded 2 (digits 16 (unat c))"

definition visible :: "u8 \<Rightarrow> bytes" where
  "visible c = (if 0x20 \<le> c \<and> c < 0x7e then [c] else lit '' '')"

definition print_named_data :: "bytes \<Rightarrow> bytes \<Rightarrow> circular_buffer \<Rightarrow> circular_buffer result" where
  "print_named_data name data =
     log_debug
       ([name @ lit '':''] @ map hex_byte data @ [[newline], name @ lit ''[c]:''] @
        map visible data @ [[newline]])"

section \<open>Statistics\<close>

text \<open>The time since the start, as hours, minutes, seconds and milliseconds.\<close>

definition stats_clock :: "u64 \<Rightarrow> u32 \<times> u16 \<times> u16 \<times> u16" where
  "stats_clock now =
     (let time_ms = ucast (now div 1000) :: u32;
          seconds = time_ms div 1000;
          minutes = seconds div 60;
          hours = minutes div 60
      in (hours, ucast (minutes - hours * 60), ucast (seconds - minutes * 60),
          ucast (time_ms - seconds * 1000)))"

definition clock_text :: "u64 \<Rightarrow> bytes" where
  "clock_text now =
     (case stats_clock now of (hours, p_minutes, p_seconds, p_ms) \<Rightarrow>
        lit ''['' @ zero_padded 2 (digits 10 (unat hours)) @ lit '':'' @
        zero_padded 2 (digits 10 (unat p_minutes)) @ lit '':'' @
        zero_padded 2 (digits 10 (unat p_seconds)) @ lit ''.'' @
        zero_padded 3 (digits 10 (unat p_ms)) @ lit '']'')"

definition connection_text :: "(bytes \<Rightarrow> bytes) \<Rightarrow> ble_connection \<Rightarrow> bytes" where
  "connection_text bd_addr_to_str c =
     lit ''{0x'' @ digits 16 (unat (connection_handle c)) @ lit '':'' @ digits 10 (unat (role c)) @
     lit ''-'' @ bd_addr_to_str (bt_address c) @ lit ''}''"

definition active_connections :: "tracker \<Rightarrow> ble_connection list" where
  "active_connections s = filter connected (map snd (connections s))"

definition counts_text :: "tracker \<Rightarrow> bytes" where
  "counts_text s =
     lit ''con: '' @ digits 10 (length (active_connections s)) @
     lit ''/'' @ digits 10 (length (connections s)) @
     lit '', avail: '' @ digits 10 (length (available_neighbours s)) @
     lit '', messages:'' @ digits 10 (length (messages s)) @
     lit '', packets:'' @ digits 10 (length (packets s)) @
     lit '', broadcast: '' @ digits 10 (length (broadcast_packets_to_send_list s)) @
     lit '', targeted: '' @ digits 10 (length (targeted_packets_to_send_list s)) @ [newline]"

definition printStats ::
    "(bytes \<Rightarrow> bytes) \<Rightarrow> u64 \<Rightarrow> tracker \<Rightarrow> circular_buffer \<Rightarrow> circular_buffer result" where
  "printStats bd_addr_to_str now s =
     log_debug
       ([clock_text now, digits 10 (if 0 < timestamp_offset_ms s then 1 else 0) @ lit '' ''] @
        map (connection_text bd_addr_to_str) (active_connections s) @ [counts_text s])"

section \<open>Logging formatted text\<close>

text \<open>A text that one \<open>LOG_DEBUG\<close> can write: not empty, without NUL, and shorter than \<open>printBuf\<close>.\<close>

definition loggable :: "bytes \<Rightarrow> bool" where
  "loggable text \<longleftrightarrow> text \<noteq> [] \<and> 0 \<notin> set text \<and> length text < 600"

lemma writeF_loggable:
  assumes "loggable text"
  shows "writeF text b = Inr (write_items text b)"
proof -
  have str: "takeWhile (\<lambda>c. c \<noteq> 0) text = text"
    using assms by (auto simp: takeWhile_eq_all_conv loggable_def)
  from assms show ?thesis
    by (simp add: writeF_def write_str_def loggable_def str)
qed

lemma log_debug_loggable:
  "\<forall>text \<in> set texts. loggable text \<Longrightarrow> log_debug texts b = Inr (fold write_items texts b)"
  by (induction texts arbitrary: b) (simp_all add: log_debug_def writeF_loggable)

text \<open>The log's contract carries over to sequences of formatted writes.\<close>

lemma log_debug_keeps_newest:
  assumes "cb_ok b" and "\<forall>text \<in> set texts. loggable text"
  shows "\<exists>b'. log_debug texts b = Inr b' \<and> cb_ok b' \<and>
    contents b' = keep_last (capacity b) (contents b @ concat texts)"
proof -
  have "length (contents b) \<le> capacity b"
    using stored_less [OF assms(1)] by (simp add: capacity_def)
  then show ?thesis
    using ring.append_many [of b texts] log_debug_loggable [OF assms(2)] assms
    by (auto simp: loggable_def)
qed

subsection \<open>Formatted numbers\<close>

lemma unat_digit: "d < 16 \<Longrightarrow> unat (digit d) = (if d < 10 then 48 + d else 87 + d)"
  by (simp add: digit_def unat_of_nat del: of_nat_add)

lemma digit_range: "d < 16 \<Longrightarrow> digit d \<noteq> 0 \<and> digit d \<noteq> newline"
  using unat_digit [of d] by (auto split: if_splits)

lemma digits_nonempty [simp]: "digits radix n \<noteq> []"
  by (subst digits.simps) simp

lemma digits_are_digits:
  assumes "2 \<le> radix"
  shows "set (digits radix n) \<subseteq> digit ` {..<radix}"
  using assms
proof (induction radix n rule: digits.induct)
  case (1 radix n)
  then show ?case
    by (subst digits.simps) auto
qed

lemma length_digits: "2 \<le> radix \<Longrightarrow> n < radix ^ k \<Longrightarrow> 0 < k \<Longrightarrow> length (digits radix n) \<le> k"
proof (induction k arbitrary: n)
  case 0
  then show ?case by simp
next
  case (Suc k)
  show ?case
  proof (cases "n < radix")
    case True
    then show ?thesis by (subst digits.simps) simp
  next
    case False
    with Suc.prems have "n div radix < radix ^ k" and "0 < k"
      by (auto simp: less_mult_imp_div_less mult.commute intro: gr0I)
    with Suc False show ?thesis by (subst digits.simps) simp
  qed
qed

text \<open>No conversion writes a NUL or a newline.\<close>

definition plain :: "bytes \<Rightarrow> bool" where
  "plain text \<longleftrightarrow> 0 \<notin> set text \<and> newline \<notin> set text"

lemma plain_append [simp]: "plain (xs @ ys) \<longleftrightarrow> plain xs \<and> plain ys"
  by (auto simp: plain_def)

lemma plain_digits [simp]: "2 \<le> radix \<Longrightarrow> radix \<le> 16 \<Longrightarrow> plain (digits radix n)"
  using digits_are_digits [of radix n] digit_range unfolding plain_def by force

lemma plain_zero_padded [simp]: "plain (zero_padded w text) \<longleftrightarrow> plain text"
  by (auto simp: plain_def zero_padded_def digit_def)

subsection \<open>Reading a dump back\<close>

definition digit_value :: "u8 \<Rightarrow> nat" where
  "digit_value c = (if c < 58 then unat c - 48 else unat c - 87)"

fun read_hex :: "bytes \<Rightarrow> bytes option" where
  "read_hex [] = Some []"
| "read_hex [c] = None"
| "read_hex (c # d # cs) =
     map_option ((#) (of_nat (16 * digit_value c + digit_value d))) (read_hex cs)"

lemma digit_value_digit [simp]: "d < 16 \<Longrightarrow> digit_value (digit d) = d"
  using unat_digit [of d] by (simp add: digit_value_def word_less_nat_alt)

lemma high_nibble: "unat (c :: u8) div 16 < 16"
proof -
  have "unat c < 2 ^ LENGTH(8)" by (rule unsigned_less)
  then show ?thesis by (simp add: less_mult_imp_div_less)
qed

lemma hex_byte_digits: "hex_byte c = [digit (unat c div 16), digit (unat c mod 16)]"
  using high_nibble [of c]
  by (simp add: hex_byte_def zero_padded_def digits.simps [of 16 "unat c"]
      digits.simps [of 16 "unat c div 16"])

lemma read_hex_bytes: "read_hex (concat (map hex_byte data)) = Some data"
  using high_nibble by (induction data) (simp_all add: hex_byte_digits)

lemma plain_hex [simp]: "plain (hex_byte c)"
  by (simp add: hex_byte_def)

lemma loggable_hex [simp]: "loggable (hex_byte c)"
  using plain_hex [of c] by (simp add: loggable_def plain_def hex_byte_digits)

lemma loggable_visible [simp]: "loggable (visible c)"
  by (auto simp: visible_def loggable_def lit_def)

lemma plain_concat: "plain (concat xss) \<longleftrightarrow> (\<forall>xs \<in> set xss. plain xs)"
  by (auto simp: plain_def)

lemma takeWhile_line: "plain xs \<Longrightarrow> takeWhile (\<lambda>c. c \<noteq> newline) (xs @ newline # ys) = xs"
  by (auto simp: plain_def takeWhile_append takeWhile_eq_all_conv)

subsection \<open>The statistics line\<close>

text \<open>
  The clock is that of the milliseconds since the start, which wrap round at 32 bits after about 49 days.
\<close>

lemma stats_clock_time:
  assumes "stats_clock now = (hours, p_minutes, p_seconds, p_ms)"
  shows "unat p_minutes < 60" and "unat p_seconds < 60" and "unat p_ms < 1000"
    and "((unat hours * 60 + unat p_minutes) * 60 + unat p_seconds) * 1000 + unat p_ms =
      unat now div 1000 mod 2 ^ 32"
proof -
  define time_ms :: u32 where "time_ms = ucast (now div 1000)"
  have t: "unat time_ms = unat now div 1000 mod 2 ^ 32"
    by (simp add: time_ms_def unsigned_ucast_eq take_bit_eq_mod unat_div)
  have small: "unat (ucast (x mod k) :: u16) = unat x mod unat k" if "0 < k" "k \<le> 1000" for x k :: u32
  proof -
    have "unat x mod unat k < 2 ^ 16"
      using that mod_less_divisor [of "unat k" "unat x"]
      by (auto simp: word_less_nat_alt word_le_nat_alt simp del: mod_less_divisor)
    then show ?thesis by (simp add: unsigned_ucast_eq take_bit_eq_mod unat_mod)
  qed
  have parts: "unat hours = unat time_ms div 1000 div 60 div 60"
    "unat p_minutes = unat time_ms div 1000 div 60 mod 60"
    "unat p_seconds = unat time_ms div 1000 mod 60" "unat p_ms = unat time_ms mod 1000"
    using assms small [of 60] small [of 1000]
    by (auto simp: stats_clock_def Let_def minus_div_mult_eq_mod unat_div simp flip: time_ms_def)
  show "unat p_minutes < 60" "unat p_seconds < 60" "unat p_ms < 1000"
    by (simp_all add: parts)
  show "((unat hours * 60 + unat p_minutes) * 60 + unat p_seconds) * 1000 + unat p_ms =
      unat now div 1000 mod 2 ^ 32"
    using t by (simp add: parts)
qed

text \<open>
  What \<open>bd_addr_to_str\<close> is relied on for: its text has no NUL and its documented length of 17
  characters.
\<close>

definition address_texts :: "(bytes \<Rightarrow> bytes) \<Rightarrow> bool" where
  "address_texts bd_addr_to_str \<longleftrightarrow> (\<forall>a. 0 \<notin> set (bd_addr_to_str a) \<and> length (bd_addr_to_str a) = 17)"

lemma digits_no_NUL [simp]: "2 \<le> radix \<Longrightarrow> radix \<le> 16 \<Longrightarrow> 0 \<notin> set (digits radix n)"
  using plain_digits [of radix n] by (simp add: plain_def)

lemma zero_padded_no_NUL [simp]: "0 \<in> set (zero_padded w text) \<longleftrightarrow> 0 \<in> set text"
  by (auto simp: zero_padded_def digit_def)

lemma length_zero_padded [simp]: "length (zero_padded w text) = max w (length text)"
  by (simp add: zero_padded_def)

text \<open>A 32 bit number has at most ten decimal digits.\<close>

lemma length_digits_u32: "n < 2 ^ 32 \<Longrightarrow> length (digits 10 n) \<le> 10"
  by (rule length_digits) auto

lemma length_digits_word:
  "length (digits 10 (unat (w8 :: u8))) \<le> 3"
  "length (digits 16 (unat (w16 :: u16))) \<le> 4"
  "length (digits 10 (unat (w16 :: u16))) \<le> 5"
  "length (digits 10 (unat (w32 :: u32))) \<le> 10"
  using unsigned_less [of w8, where 'a = nat] unsigned_less [of w16, where 'a = nat]
    unsigned_less [of w32, where 'a = nat]
  by (auto intro!: length_digits)

lemma loggable_clock: "loggable (clock_text now)"
proof -
  obtain hours p_minutes p_seconds p_ms where "stats_clock now = (hours, p_minutes, p_seconds, p_ms)"
    by (cases "stats_clock now")
  then show ?thesis
    using length_digits_word(4) [of hours] length_digits_word(3) [of p_minutes]
      length_digits_word(3) [of p_seconds] length_digits_word(3) [of p_ms]
    by (simp add: clock_text_def loggable_def lit_def)
qed

lemma loggable_connection: "address_texts f \<Longrightarrow> loggable (connection_text f c)"
  using length_digits_word(2) [of "connection_handle c"] length_digits_word(1) [of "role c"]
  by (simp add: connection_text_def loggable_def lit_def address_texts_def)

definition stores_counted :: "tracker \<Rightarrow> bool" where
  "stores_counted s \<longleftrightarrow>
     (\<forall>n \<in> {length (connections s), length (available_neighbours s), length (messages s),
            length (packets s), length (broadcast_packets_to_send_list s),
            length (targeted_packets_to_send_list s)}. n < 2 ^ 32)"

lemma loggable_counts:
  assumes "stores_counted s"
  shows "loggable (counts_text s)"
proof -
  have "length (active_connections s) \<le> length (connections s)"
    unfolding active_connections_def by (metis length_filter_le length_map)
  then have "length (active_connections s) < 2 ^ 32"
    using assms by (simp add: stores_counted_def)
  then show ?thesis
    using assms length_digits_u32 [of "length (active_connections s)"]
      length_digits_u32 [of "length (connections s)"]
      length_digits_u32 [of "length (available_neighbours s)"] length_digits_u32 [of "length (messages s)"]
      length_digits_u32 [of "length (packets s)"]
      length_digits_u32 [of "length (broadcast_packets_to_send_list s)"]
      length_digits_u32 [of "length (targeted_packets_to_send_list s)"]
    by (simp add: counts_text_def loggable_def lit_def stores_counted_def)
qed

text \<open>Printing the statistics never fails and appends one line to the log.\<close>

lemma printStats_logged:
  assumes "cb_ok b" and "address_texts f" and "stores_counted s"
  shows "\<exists>b'. printStats f now s b = Inr b' \<and> cb_ok b' \<and>
    contents b' = keep_last (capacity b)
      (contents b @ clock_text now @ digits 10 (if 0 < timestamp_offset_ms s then 1 else 0) @ lit '' '' @
       concat (map (connection_text f) (active_connections s)) @ counts_text s)"
proof -
  let ?texts = "[clock_text now, digits 10 (if 0 < timestamp_offset_ms s then 1 else 0) @ lit '' ''] @
        map (connection_text f) (active_connections s) @ [counts_text s]"
  have "loggable (digits 10 (if 0 < timestamp_offset_ms s then 1 else 0) @ lit '' '')"
    by (simp add: loggable_def lit_def digits.simps digit_def)
  then have "\<forall>text \<in> set ?texts. loggable text"
    using loggable_connection [OF assms(2)] by (auto simp: loggable_clock loggable_counts [OF assms(3)])
  from log_debug_keeps_newest [OF assms(1) this] show ?thesis
    by (simp add: printStats_def)
qed

section \<open>Properties\<close>

text \<open>
  C23: dumping received bytes never fails, whatever they are: the log holds the newest bytes of what was
  there and the dump, and if all of it fits, the first line of the dump gives the bytes back.
\<close>

theorem print_named_data_round_trip:
  assumes "cb_ok b" and "0 \<notin> set name" and "length name < 590"
  shows "\<exists>b'. print_named_data name data b = Inr b' \<and> cb_ok b' \<and>
    contents b' = keep_last (capacity b)
      (contents b @ name @ lit '':'' @ concat (map hex_byte data) @ [newline] @
       name @ lit ''[c]:'' @ concat (map visible data) @ [newline]) \<and>
    (stored b + 2 * length name + 3 * length data + 7 \<le> capacity b \<longrightarrow>
     read_hex (takeWhile (\<lambda>c. c \<noteq> newline) (drop (stored b + length name + 1) (contents b'))) = Some data)"
proof -
  let ?texts = "[name @ lit '':''] @ map hex_byte data @ [[newline], name @ lit ''[c]:''] @
        map visible data @ [[newline]]"
  have "\<forall>text \<in> set ?texts. loggable text"
    using assms by (auto simp: loggable_def [of "name @ _"] lit_def loggable_def [of "[newline]"])
  then obtain b' where b': "print_named_data name data b = Inr b'" "cb_ok b'"
      "contents b' = keep_last (capacity b) (contents b @ concat ?texts)"
    using log_debug_keeps_newest [OF assms(1), of ?texts] unfolding print_named_data_def by blast
  have len: "length (concat (map hex_byte data)) = 2 * length data"
    "length (concat (map visible data)) = length data"
    by (induction data) (auto simp: hex_byte_digits visible_def lit_def)
  have "plain (concat (map hex_byte data))" by (simp add: plain_concat)
  then have "stored b + 2 * length name + 3 * length data + 7 \<le> capacity b \<Longrightarrow>
      takeWhile (\<lambda>c. c \<noteq> newline) (drop (stored b + length name + 1) (contents b')) =
      concat (map hex_byte data)"
    using len by (simp add: b'(3) lit_def takeWhile_line)
  with b' show ?thesis by (auto simp: read_hex_bytes)
qed

theorem print_named_data_round_trip_witness:
  "\<exists>b'. print_named_data (lit ''id'') [0x41, 0x00, 0xff] (new_CircularBuffer (replicate 41 0) 40) = Inr b' \<and>
    contents b' = lit ''id:4100ff'' @ [newline] @ lit ''id[c]:A  '' @ [newline] \<and>
    read_hex (takeWhile (\<lambda>c. c \<noteq> newline) (drop 3 (contents b'))) = Some [0x41, 0x00, 0xff]"
proof -
  let ?b = "new_CircularBuffer (replicate 41 0) 40"
  have b: "cb_ok ?b" "capacity ?b = 39" "contents ?b = []" "stored ?b = 0"
    by (simp_all add: cb_ok_def new_CircularBuffer_def capacity_def contents_def stored_def ring_slice_def)
  have "0 \<notin> set (lit ''id'')" "length (lit ''id'') < 590" by (simp_all add: lit_def)
  from print_named_data_round_trip [OF b(1) this, of "[0x41, 0x00, 0xff]"] show ?thesis
    by (auto simp: b hex_byte_digits digit_def visible_def lit_def)
qed

end
