(* ===== verification/ProtocolProcessor.thy ===== *)
theory ProtocolProcessor
  imports Tracker
begin

text \<open>
  The receiver of \<open>Bitchat/ProtocolProcessor.cpp\<close>: a packet is parsed from the bytes of a write or a
  notification, a message payload is parsed into a \<open>Message\<close>, and what is new is stored and queued
  for every other connection. Decompression is libdeflate's, a parameter \<open>zlib\<close> that maps the
  compressed bytes and the room for the output to the output, or to nothing on an error.
\<close>

section \<open>Type names\<close>

fun type_name :: "packet_type_code \<Rightarrow> string" where
  "type_name type_announce = ''Announce''"
| "type_name type_leave = ''Leave''"
| "type_name type_message = ''Message''"
| "type_name type_fragment_start = ''FRAGMENT_START''"
| "type_name fragmentContinue = ''FRAGMENT_CONTINUE''"
| "type_name fragmentEnd = ''FRAGMENT_END''"
| "type_name channelAnnounce = ''CHANNEL_ANNOUNCE''"
| "type_name channelRetention = ''CHANNEL_RETENTION''"
| "type_name deliveryAck = ''DELIVERY_ACK''"
| "type_name deliveryStatusRequest = ''DELIVERY_STATUS_REQUEST''"
| "type_name readReceipt = ''READ_RECEIPT''"
| "type_name noiseHandshakeInit = ''NOISE_HANDSHAKE_INIT''"
| "type_name noiseHandshakeResp = ''NOISE_HANDSHAKE_RESP''"
| "type_name noiseEncrypted = ''NOISE_ENCRYPTED''"
| "type_name noiseIdentityAnnounce = ''NOISE_IDENTITY_ANNOUNCE''"
| "type_name channelKeyVerifyRequest = ''CHANNEL_KEY_VERIFY_REQUEST''"
| "type_name channelKeyVerifyResponse = ''CHANNEL_KEY_VERIFY_RESPONSE''"
| "type_name channelPasswordUpdate = ''CHANNEL_PASSWORD_UPDATE''"
| "type_name channelMetadata = ''CHANNEL_METADATA''"
| "type_name handshakeRequest = ''HANDSHAKE_REQUEST''"
| "type_name versionHello = ''VERSION_HELLO''"
| "type_name versionAck = ''VERSION_ACK''"
| "type_name _ = ''UnknownType''"

definition stringForType :: "u8 \<Rightarrow> string" where
  "stringForType t = (case type_of_value t of Some c \<Rightarrow> type_name c | None \<Rightarrow> ''UnknownType'')"

section \<open>Peers\<close>

text \<open>\<open>handle\<close> is \<open>connection.getConnectionHandle()\<close>.\<close>

definition updateOrStorePeerName :: "u64 \<Rightarrow> bytes \<Rightarrow> u8 \<Rightarrow> u16 \<Rightarrow> tracker \<Rightarrow> tracker" where
  "updateOrStorePeerName sender name ttl handle s =
     (let s = checkSenderInPeers sender s;
          s = update_peer sender (updateName name) s
      in case peerWithId sender s of
           None \<Rightarrow> s
         | Some peer \<Rightarrow>
             if ttl \<ge> max_ttl peer
             then setConnectionHandleForPeer handle sender
                    (update_peer sender (setAnnounceTtl ttl) s)
             else s)"

definition updateOrStorePeerNoisePublicKey :: "u64 \<Rightarrow> bytes \<Rightarrow> tracker \<Rightarrow> tracker" where
  "updateOrStorePeerNoisePublicKey sender key s =
     update_peer sender (updateNoisePublicKey key) (checkSenderInPeers sender s)"

section \<open>The payload of a message\<close>

text \<open>
  The parser goes through the payload with a reader, fills in the message and may add the sender's
  peer to the tracker; a field that does not fit ends it with \<open>False\<close>.
\<close>

record message_parse =
  mp_reader :: binary_reader
  mp_message :: message
  mp_tracker :: tracker

type_synonym field_parser = "message_parse \<Rightarrow> bool \<times> message_parse"

definition parse_then :: "field_parser \<Rightarrow> field_parser \<Rightarrow> field_parser" where
  "parse_then f g st = (case f st of (ok, st) \<Rightarrow> if ok then g st else (False, st))"

definition parse_when :: "(message \<Rightarrow> bool) \<Rightarrow> field_parser \<Rightarrow> field_parser" where
  "parse_when c f st = (if c (mp_message st) then f st else (True, st))"

definition take_field ::
    "(bytes \<Rightarrow> message \<Rightarrow> message) \<Rightarrow> nat \<Rightarrow> binary_reader \<Rightarrow> field_parser" where
  "take_field set_field len r st =
     (case read_data len r of
        (None, r) \<Rightarrow> (False, st\<lparr>mp_reader := r\<rparr>)
      | (Some d, r) \<Rightarrow> (True, st\<lparr>mp_reader := r, mp_message := set_field d (mp_message st)\<rparr>))"

definition parse_short_string :: "(bytes \<Rightarrow> message \<Rightarrow> message) \<Rightarrow> field_parser" where
  "parse_short_string set_field st =
     (let (len, r) = read_uint8 (mp_reader st) in take_field set_field (unat len) r st)"

definition parse_long_string :: "(bytes \<Rightarrow> message \<Rightarrow> message) \<Rightarrow> field_parser" where
  "parse_long_string set_field st =
     (let (len, r) = read_uint16 (mp_reader st) in take_field set_field (unat len) r st)"

definition parse_head :: field_parser where
  "parse_head st =
     (let (flags, r) = read_uint8 (mp_reader st);
          (timestamp, r) = read_uint64 r
      in (True, st\<lparr>mp_reader := r,
                   mp_message := setMessageTimestamp timestamp
                     (setMessageFlags flags (mp_message st))\<rparr>))"

definition set_any_content :: "bytes \<Rightarrow> message \<Rightarrow> message" where
  "set_any_content d m = (if isEncrypted m then setEncryptedContent d m else setContent d m)"

text \<open>\<open>c & '@' ? c + 9 : c\<close>; only the low four bits of the result are used.\<close>

definition unhex :: "u8 \<Rightarrow> u8" where
  "unhex c = (if c AND 0x40 \<noteq> 0 then c + 9 else c)"

fun peer_id_loop :: "bytes \<Rightarrow> nat \<Rightarrow> u64 \<Rightarrow> u64" where
  "peer_id_loop (a # b # rest) shift_by acc =
     (let byte = push_bit 4 (unhex a) OR (unhex b AND 0xF)
      in peer_id_loop rest (shift_by - 8) (acc OR push_bit shift_by (ucast byte)))"
| "peer_id_loop _ shift_by acc = acc"

definition parse_sender_peer :: field_parser where
  "parse_sender_peer st =
     (let (len, r) = read_uint8 (mp_reader st)
      in case read_data (unat len) r of
           (None, r) \<Rightarrow> (False, st\<lparr>mp_reader := r\<rparr>)
         | (Some d, r) \<Rightarrow>
             (True,
              if len = 16
              then (let k = peer_id_loop d 56 0
                    in st\<lparr>mp_reader := r, mp_message := setSenderPeer k (mp_message st),
                          mp_tracker := checkSenderInPeers k (mp_tracker st)\<rparr>)
              else st\<lparr>mp_reader := r\<rparr>))"

fun parse_mentions_loop :: "nat \<Rightarrow> field_parser" where
  "parse_mentions_loop 0 st = (True, st)"
| "parse_mentions_loop (Suc n) st =
     parse_then (parse_short_string addMention) (parse_mentions_loop n) st"

definition parse_mentions :: field_parser where
  "parse_mentions st =
     (let (n, r) = read_uint8 (mp_reader st)
      in parse_mentions_loop (unat n) (st\<lparr>mp_reader := r\<rparr>))"

definition message_parser :: field_parser where
  "message_parser =
     parse_then parse_head
     (parse_then (parse_short_string setMessageId)
     (parse_then (parse_short_string setSenderNickname)
     (parse_then (parse_long_string set_any_content)
     (parse_then (parse_when hasOriginalSender (parse_short_string setOriginalSenderNickname))
     (parse_then (parse_when hasRecipientNickname (parse_short_string setRecipientNickname))
     (parse_then (parse_when hasSenderPeerID parse_sender_peer)
     (parse_then (parse_when hasMentions parse_mentions)
        (parse_when hasChannel (parse_short_string setChannel)))))))))"

definition processMessage :: "message \<Rightarrow> bytes \<Rightarrow> tracker \<Rightarrow> bool \<times> message \<times> tracker" where
  "processMessage m data s =
     (if length data < 13 then (False, m, s)
      else
        (case message_parser
             \<lparr>mp_reader = new_BinaryReader 0 data, mp_message = m, mp_tracker = s\<rparr>
         of (ok, st) \<Rightarrow> (ok, mp_message st, mp_tracker st)))"

section \<open>Packets\<close>

record parsed_packet =
  parsed_type :: u8
  parsed_ttl :: u8
  parsed_timestamp :: u64
  parsed_flags :: u8
  parsed_sender :: u64
  parsed_recipient :: u64
  parsed_payload :: bytes
  parsed_signature :: bytes

text \<open>
  What is not decompressed, or to nothing, stays as it is. The length is kept in 16 bits. (After an error the
  code also reads the size, which is then not initialised, to decide whether to log.)
\<close>

definition decompress_payload :: "(bytes \<Rightarrow> nat \<Rightarrow> bytes option) \<Rightarrow> bytes \<Rightarrow> nat \<Rightarrow> bytes" where
  "decompress_payload zlib data original_size =
     (case zlib data original_size of
        None \<Rightarrow> data
      | Some out \<Rightarrow> if length out > 0 then take (length out mod 65536) out else data)"

text \<open>
  A compressed payload comes after its original size, which the payload length includes.
\<close>

definition parse_payload ::
    "(bytes \<Rightarrow> nat \<Rightarrow> bytes option) \<Rightarrow> u8 \<Rightarrow> u16 \<Rightarrow> binary_reader \<Rightarrow> bytes option \<times> binary_reader" where
  "parse_payload zlib flags payload_length r =
     (if has_flag flags packet_flag_is_compressed
      then (let (original_size, r) = read_uint16 r;
                (data, r) = read_data (unat (payload_length - 2)) r
            in (map_option (\<lambda>d. decompress_payload zlib d (unat original_size)) data, r))
      else read_data (unat payload_length) r)"

text \<open>The signature is copied from wherever \<open>read_data\<close> points, which may be null.\<close>

definition parse_signature :: "u8 \<Rightarrow> binary_reader \<Rightarrow> bytes result" where
  "parse_signature flags r =
     (if has_flag flags packet_flag_has_signature
      then (case fst (read_data 64 r) of None \<Rightarrow> Inl NullDereference | Some sig \<Rightarrow> Inr sig)
      else Inr [])"

text \<open>\<open>Inr None\<close> is an early return.\<close>

definition parse_packet ::
    "(bytes \<Rightarrow> nat \<Rightarrow> bytes option) \<Rightarrow> nat \<Rightarrow> bytes \<Rightarrow> parsed_packet option result" where
  "parse_packet zlib offset buffer =
     (let (version, r) = read_uint8 (new_BinaryReader offset buffer)
      in if version \<noteq> 1 then Inr None
         else
           (let (type, r) = read_uint8 r;
                (ttl, r) = read_uint8 r;
                (timestamp_ms, r) = read_uint64 r;
                (flags, r) = read_uint8 r;
                (payload_length, r) = read_uint16 r;
                (sender, r) = read_uint64 r;
                (recipient, r) =
                  (if has_flag flags packet_flag_has_recipient then read_uint64 r else (0, r))
            in case parse_payload zlib flags payload_length r of
                 (None, r) \<Rightarrow> Inr None
               | (Some data, r) \<Rightarrow>
                   bind_result (parse_signature flags r) (\<lambda>signature. Inr (Some
                     \<lparr>parsed_type = type, parsed_ttl = ttl, parsed_timestamp = timestamp_ms,
                      parsed_flags = flags, parsed_sender = sender, parsed_recipient = recipient,
                      parsed_payload = data, parsed_signature = signature\<rparr>))))"

section \<open>Dispatch\<close>

definition relayed_types :: "packet_type_code list" where
  "relayed_types =
     [type_announce, type_fragment_start, fragmentContinue, fragmentEnd, deliveryAck,
      deliveryStatusRequest, readReceipt, noiseHandshakeInit, noiseHandshakeResp, noiseEncrypted,
      channelKeyVerifyRequest, channelKeyVerifyResponse, channelPasswordUpdate, channelMetadata]"

definition parsed_message :: "parsed_packet \<Rightarrow> message" where
  "parsed_message p =
     Message_full (parsed_ttl p) (parsed_timestamp p) (parsed_flags p) (parsed_sender p)
       (parsed_recipient p) (parsed_signature p)"

definition parsed_pass_along :: "parsed_packet \<Rightarrow> pass_along" where
  "parsed_pass_along p =
     setPayload (parsed_payload p)
       (PacketPassAlong_full (parsed_type p) (parsed_ttl p) (parsed_timestamp p) (parsed_flags p)
         (parsed_sender p) (parsed_recipient p) (parsed_signature p))"

text \<open>\<open>cp\<close> is the address of the connection object the caller passes, \<open>a\<close> that of the node a store makes.\<close>

definition receive_message ::
    "addr \<Rightarrow> connection_ptr \<Rightarrow> parsed_packet \<Rightarrow> tracker \<Rightarrow> tracker result" where
  "receive_message a cp p s =
     (let s = checkSenderInPeers (parsed_sender p) s;
          (ok, m, s) = processMessage (parsed_message p) (parsed_payload p) s
      in if ok
         then (case storeMessageAndReturnIfNew a m s of
                 (None, s) \<Rightarrow> Inr s
               | (Some q, s) \<Rightarrow> enqueueBroadcastPacketFrom q cp (parsed_sender p) s)
         else Inr s)"

definition pass_packet_along ::
    "(bytes \<Rightarrow> u32) \<Rightarrow> addr \<Rightarrow> connection_ptr \<Rightarrow> parsed_packet \<Rightarrow> tracker \<Rightarrow> tracker result" where
  "pass_packet_along std_hash a cp p s =
     (if parsed_ttl p < 1 then Inr s
      else
        (let s = checkSenderInPeers (parsed_sender p) s
         in case storePacketAndReturnIfNew std_hash a (parsed_pass_along p) s of
              (None, s) \<Rightarrow> Inr s
            | (Some q, s) \<Rightarrow> enqueueBroadcastPacketFrom q cp (parsed_sender p) s))"

definition receive_announce :: "u64 \<Rightarrow> u16 \<Rightarrow> parsed_packet \<Rightarrow> tracker \<Rightarrow> tracker result" where
  "receive_announce now_us handle p s =
     possiblyUpdateTimeOffset now_us (parsed_timestamp p)
       (updateOrStorePeerName (parsed_sender p) (parsed_payload p) (parsed_ttl p) handle s)"

definition dispatch_packet ::
    "(bytes \<Rightarrow> u32) \<Rightarrow> u64 \<Rightarrow> addr \<Rightarrow> connection_ptr \<Rightarrow> u16 \<Rightarrow> parsed_packet \<Rightarrow> tracker \<Rightarrow> tracker result" where
  "dispatch_packet std_hash now_us a cp handle p s =
     (case type_of_value (parsed_type p) of
        None \<Rightarrow> Inr s
      | Some t \<Rightarrow>
          if t = noiseIdentityAnnounce
          then Inr (updateOrStorePeerNoisePublicKey (parsed_sender p) (parsed_payload p) s)
          else if t = type_message then receive_message a cp p s
          else if t = type_announce
          then bind_result (receive_announce now_us handle p s) (pass_packet_along std_hash a cp p)
          else if t \<in> set relayed_types then pass_packet_along std_hash a cp p s
          else Inr s)"

definition processWrite ::
    "(bytes \<Rightarrow> nat \<Rightarrow> bytes option) \<Rightarrow> (bytes \<Rightarrow> u32) \<Rightarrow> u64 \<Rightarrow> addr \<Rightarrow> connection_ptr \<Rightarrow> u16 \<Rightarrow>
     nat \<Rightarrow> bytes \<Rightarrow> tracker \<Rightarrow> tracker result" where
  "processWrite zlib std_hash now_us a cp handle offset buffer s =
     bind_result (parse_packet zlib offset buffer) (\<lambda>parsed.
       case parsed of
         None \<Rightarrow> Inr s
       | Some p \<Rightarrow> dispatch_packet std_hash now_us a cp handle p s)"

section \<open>Hexadecimal peer ids\<close>

lemma unhex_hexify:
  assumes "n < 16"
  shows "unhex (hexify n) AND 0xF = n"
proof -
  have "\<forall>k \<in> set (map of_nat [0..<16]). unhex (hexify k) AND 0xF = k"
    by (simp add: upt_rec unhex_def hexify_def)
  moreover have "n \<in> set (map of_nat [0..<16])"
  proof -
    have "unat n < 16" using assms by (simp add: word_less_nat_alt)
    then show ?thesis by (auto intro!: image_eqI [of _ _ "unat n"])
  qed
  ultimately show ?thesis by blast
qed

lemma and_F: "(x :: u8) AND 0xF = take_bit 4 x"
  by (simp add: take_bit_eq_mask mask_eq_exp_minus_1)

lemma nibble_less: "(x :: u8) AND 0xF < 16"
  by (rule le_less_trans [OF word_and_le1]) simp

lemma push_bit_nibble:
  assumes "take_bit 4 a = take_bit 4 (b :: u8)"
  shows "push_bit 4 a = push_bit 4 b"
proof (rule bit_word_eqI)
  fix n assume "n < LENGTH(8)"
  moreover have "bit (take_bit 4 a) (n - 4) = bit (take_bit 4 b) (n - 4)"
    using assms by simp
  ultimately show "bit (push_bit 4 a) n = bit (push_bit 4 b) n"
    by (auto simp: bit_simps)
qed

lemma split_nibbles: "push_bit 4 (drop_bit 4 x) OR take_bit 4 x = (x :: u8)"
  by (rule bit_word_eqI) (auto simp: bit_simps)

lemma unhex_byte:
  "push_bit 4 (unhex (hexify (drop_bit 4 x AND 0xF))) OR (unhex (hexify (x AND 0xF)) AND 0xF) = x"
proof -
  let ?h = "unhex (hexify (drop_bit 4 x AND 0xF))"
  have "take_bit 4 ?h = take_bit 4 (drop_bit 4 x)"
    using unhex_hexify [OF nibble_less [of "drop_bit 4 x"]] by (simp add: and_F)
  then have "push_bit 4 ?h = push_bit 4 (drop_bit 4 x)"
    by (rule push_bit_nibble)
  then show ?thesis
    using unhex_hexify [OF nibble_less [of x]] split_nibbles [of x] by (simp add: and_F)
qed

lemma peer_id_loop_hex:
  "peer_id_loop (hex8 b @ rest) n acc = peer_id_loop rest (n - 8) (acc OR push_bit n (ucast b))"
  by (simp add: hex8_def unhex_byte)

lemma peer_id_round_trip [simp]: "peer_id_loop (concat (map hex8 (be64 i))) 56 0 = i"
  using join64 [of i] peer_id_loop_hex [of "ucast i" "[]"]
  by (simp add: be64_def peer_id_loop_hex or.assoc)

section \<open>The message parser on written messages\<close>

lemma length_concat_hex8 [simp]: "length (concat (map hex8 xs)) = 2 * length xs"
  by (induction xs) auto

text \<open>A reader inside its buffer with the bytes \<open>bs\<close> left.\<close>

definition reads_from :: "binary_reader \<Rightarrow> bytes \<Rightarrow> bool" where
  "reads_from r bs \<longleftrightarrow> reader_ok r \<and> unread r = bs"

lemma reads_from_new: "reads_from (new_BinaryReader 0 bs) bs"
  by (simp add: reads_from_def reader_ok_def new_BinaryReader_def unread_def)

lemma reads_from_advance:
  assumes "reads_from r (xs @ bs)" and "n = length xs"
  shows "reads_from (advance n r) bs"
  using assms by (auto simp: reads_from_def unread_advance intro: reader_ok_advance)

lemma reads_from_read_data:
  assumes "reads_from r (xs @ bs)" and "n = length xs"
  shows "read_data n r = (Some xs, advance n r)"
  using assms by (simp add: reads_from_def read_data_unread)

lemma reads_from_uint8: "reads_from r (x # bs) \<Longrightarrow> read_uint8 r = (x, advance 1 r)"
  using field8.dec_enc [of r x bs] by (simp add: reads_from_def)

lemma reads_from_uint16: "reads_from r (be16 x @ bs) \<Longrightarrow> read_uint16 r = (x, advance 2 r)"
  using field16.dec_enc [of r x bs] by (simp add: reads_from_def)

lemma reads_from_uint64: "reads_from r (be64 x @ bs) \<Longrightarrow> read_uint64 r = (x, advance 8 r)"
  using field64.dec_enc [of r x bs] by (simp add: reads_from_def)

text \<open>
  \<open>f\<close> takes exactly the bytes \<open>xs\<close> off the input, and turns the message and the tracker into the
  given ones. The rules below put such facts together along the parser.
\<close>

definition parses :: "field_parser \<Rightarrow> bytes \<Rightarrow> message \<Rightarrow> tracker \<Rightarrow> message \<Rightarrow> tracker \<Rightarrow> bool" where
  "parses f xs m s m' s' \<longleftrightarrow>
     (\<forall>r bs. reads_from r (xs @ bs) \<longrightarrow>
       (\<exists>r'. f \<lparr>mp_reader = r, mp_message = m, mp_tracker = s\<rparr> =
              (True, \<lparr>mp_reader = r', mp_message = m', mp_tracker = s'\<rparr>) \<and> reads_from r' bs))"

lemma parsesI:
  assumes "\<And>r bs. reads_from r (xs @ bs) \<Longrightarrow>
    f \<lparr>mp_reader = r, mp_message = m, mp_tracker = s\<rparr> =
      (True, \<lparr>mp_reader = advance (length xs) r, mp_message = m', mp_tracker = s'\<rparr>)"
  shows "parses f xs m s m' s'"
  using assms reads_from_advance [of _ xs, OF _ refl] unfolding parses_def by blast

lemma parses_then:
  assumes "parses f xs m s m1 s1" and "parses g ys m1 s1 m2 s2"
  shows "parses (parse_then f g) (xs @ ys) m s m2 s2"
  unfolding parses_def
proof (intro allI impI)
  fix r bs assume "reads_from r ((xs @ ys) @ bs)"
  then obtain r1 where "f \<lparr>mp_reader = r, mp_message = m, mp_tracker = s\<rparr> =
      (True, \<lparr>mp_reader = r1, mp_message = m1, mp_tracker = s1\<rparr>)" and "reads_from r1 (ys @ bs)"
    using assms(1) by (auto simp: parses_def)
  then show "\<exists>r'. parse_then f g \<lparr>mp_reader = r, mp_message = m, mp_tracker = s\<rparr> =
      (True, \<lparr>mp_reader = r', mp_message = m2, mp_tracker = s2\<rparr>) \<and> reads_from r' bs"
    using assms(2) by (simp add: parses_def parse_then_def)
qed

lemma parses_when:
  assumes "c m \<Longrightarrow> parses f xs m s m' s'" and "\<not> c m \<Longrightarrow> m' = m \<and> s' = s"
  shows "parses (parse_when c f) (if c m then xs else []) m s m' s'"
  using assms by (auto simp: parses_def parse_when_def)

lemma parses_short_string:
  assumes "length d \<le> 255"
  shows "parses (parse_short_string f) (short_string d) m s (f d m) s"
proof (rule parsesI)
  fix r bs assume "reads_from r (short_string d @ bs)"
  then have b: "reads_from r ([of_nat (length d)] @ d @ bs)"
    using assms by (simp add: short_string_def)
  have n: "unat (of_nat (length d) :: u8) = length d"
    using assms by (simp add: unat_of_nat)
  show "parse_short_string f \<lparr>mp_reader = r, mp_message = m, mp_tracker = s\<rparr> =
      (True, \<lparr>mp_reader = advance (length (short_string d)) r, mp_message = f d m, mp_tracker = s\<rparr>)"
    using reads_from_uint8 [of r] b assms reads_from_read_data [OF reads_from_advance [OF b] refl]
    by (simp add: parse_short_string_def take_field_def n advance_advance short_string_def)
qed

lemma parses_long_string:
  assumes "length d \<le> 65535"
  shows "parses (parse_long_string f) (long_string d) m s (f d m) s"
proof (rule parsesI)
  fix r bs assume "reads_from r (long_string d @ bs)"
  then have b: "reads_from r (be16 (of_nat (length d)) @ d @ bs)"
    using assms by (simp add: long_string_def)
  have n: "unat (of_nat (length d) :: u16) = length d"
    using assms by (simp add: unat_of_nat)
  show "parse_long_string f \<lparr>mp_reader = r, mp_message = m, mp_tracker = s\<rparr> =
      (True, \<lparr>mp_reader = advance (length (long_string d)) r, mp_message = f d m, mp_tracker = s\<rparr>)"
    using reads_from_uint16 [OF b] assms reads_from_read_data [OF reads_from_advance [OF b] refl]
    by (simp add: parse_long_string_def take_field_def n advance_advance long_string_def)
qed

lemma parses_head:
  "parses parse_head (flags # be64 t) m s (setMessageTimestamp t (setMessageFlags flags m)) s"
proof (rule parsesI)
  fix r bs assume "reads_from r ((flags # be64 t) @ bs)"
  then have b: "reads_from r ([flags] @ be64 t @ bs)" by simp
  show "parse_head \<lparr>mp_reader = r, mp_message = m, mp_tracker = s\<rparr> =
      (True, \<lparr>mp_reader = advance (length (flags # be64 t)) r,
              mp_message = setMessageTimestamp t (setMessageFlags flags m), mp_tracker = s\<rparr>)"
    using reads_from_uint8 [of r] b reads_from_uint64 [OF reads_from_advance [OF b]]
    by (simp add: parse_head_def advance_advance)
qed

lemma parses_sender_peer:
  "parses parse_sender_peer (16 # concat (map hex8 (be64 k))) m s
     (setSenderPeer k m) (checkSenderInPeers k s)"
proof (rule parsesI)
  fix r bs assume "reads_from r ((16 # concat (map hex8 (be64 k))) @ bs)"
  then have b: "reads_from r ([16] @ concat (map hex8 (be64 k)) @ bs)" by simp
  have rd: "read_data 16 (advance 1 r) = (Some (concat (map hex8 (be64 k))), advance 16 (advance 1 r))"
    by (rule reads_from_read_data [OF reads_from_advance [OF b]]) simp_all
  show "parse_sender_peer \<lparr>mp_reader = r, mp_message = m, mp_tracker = s\<rparr> =
      (True, \<lparr>mp_reader = advance (length (16 # concat (map hex8 (be64 k)))) r,
              mp_message = setSenderPeer k m, mp_tracker = checkSenderInPeers k s\<rparr>)"
    using reads_from_uint8 [of r] b rd
    by (simp add: parse_sender_peer_def advance_advance Let_def)
qed

lemma parses_mentions_loop:
  assumes "\<forall>d \<in> set ds. length d \<le> 255"
  shows "parses (parse_mentions_loop (length ds)) (concat (map short_string ds)) m s
    (m\<lparr>mentions := mentions m @ ds\<rparr>) s"
  using assms
proof (induction ds arbitrary: m)
  case Nil
  then show ?case by (simp add: parses_def)
next
  case (Cons d ds)
  have "parses (parse_then (parse_short_string addMention) (parse_mentions_loop (length ds)))
      (short_string d @ concat (map short_string ds)) m s
      ((addMention d m)\<lparr>mentions := mentions (addMention d m) @ ds\<rparr>) s"
    using Cons.prems by (intro parses_then [OF parses_short_string Cons.IH]) auto
  then show ?case by (simp add: addMention_def parses_def)
qed

lemma parses_mentions:
  assumes "length ds \<le> 255" and "\<forall>d \<in> set ds. length d \<le> 255"
  shows "parses parse_mentions (of_nat (length ds) # concat (map short_string ds)) m s
    (m\<lparr>mentions := mentions m @ ds\<rparr>) s"
  unfolding parses_def
proof (intro allI impI)
  fix r bs
  assume b: "reads_from r ((of_nat (length ds) # concat (map short_string ds)) @ bs)"
  have n: "unat (of_nat (length ds) :: u8) = length ds"
    using assms by (simp add: unat_of_nat)
  have "reads_from (advance 1 r) (concat (map short_string ds) @ bs)"
    using reads_from_advance [of r "[of_nat (length ds)]"] b by simp
  with parses_mentions_loop [OF assms(2), of m s] reads_from_uint8 [of r] b
  show "\<exists>r'. parse_mentions \<lparr>mp_reader = r, mp_message = m, mp_tracker = s\<rparr> =
      (True, \<lparr>mp_reader = r', mp_message = m\<lparr>mentions := mentions m @ ds\<rparr>, mp_tracker = s\<rparr>) \<and>
      reads_from r' bs"
    by (simp add: parse_mentions_def parses_def n)
qed

text \<open>A message whose fields fit their length bytes and whose flags say which fields it has.\<close>

definition field_if :: "bool \<Rightarrow> bytes \<Rightarrow> bool" where
  "field_if present d \<longleftrightarrow> (if present then length d \<le> 255 else d = [])"

definition fields_wf :: "message \<Rightarrow> bool" where
  "fields_wf m \<longleftrightarrow>
     length (message_id m) \<le> 255 \<and> length (sender_nickname m) \<le> 255 \<and> length (content m) \<le> 65535 \<and>
     field_if (hasOriginalSender m) (original_sender_nickname m) \<and>
     field_if (hasRecipientNickname m) (recipient_nickname m) \<and>
     field_if (hasChannel m) (channel m) \<and>
     (if hasMentions m then length (mentions m) \<le> 255 \<and> (\<forall>d \<in> set (mentions m). length d \<le> 255)
      else mentions m = [])"

definition peer_wf :: "(u64, peer) omap \<Rightarrow> message \<Rightarrow> bool" where
  "peer_wf ps m \<longleftrightarrow>
     (if hasSenderPeerID m
      then (case sender_peer m of
              None \<Rightarrow> False
            | Some k \<Rightarrow> map_option peer_id (map_of ps k) = Some k)
      else sender_peer m = None)"

definition message_wf :: "(u64, peer) omap \<Rightarrow> message \<Rightarrow> bool" where
  "message_wf ps m \<longleftrightarrow>
     fields_wf m \<and> peer_wf ps m \<and> \<not> isEncrypted m \<and> encrypted_content m = []"

text \<open>An encrypted message as the parser leaves it: the content is in \<open>encrypted_content\<close> only.\<close>

definition encrypted_wf :: "(u64, peer) omap \<Rightarrow> message \<Rightarrow> bool" where
  "encrypted_wf ps m \<longleftrightarrow> fields_wf m \<and> peer_wf ps m \<and> isEncrypted m \<and> content m = []"

definition note_sender_peer :: "message \<Rightarrow> tracker \<Rightarrow> tracker" where
  "note_sender_peer m s =
     (case sender_peer m of None \<Rightarrow> s | Some k \<Rightarrow> checkSenderInPeers k s)"

lemma peer_wf_bytes:
  assumes "peer_wf ps m"
  shows "writeMessagePayload ps m [] = Inr (message_fields m @
    (if hasSenderPeerID m then 16 # concat (map hex8 (be64 (the (sender_peer m)))) else []) @
    message_tail m)"
  using assms
  by (auto simp: peer_wf_def writeMessagePayload_bytes sender_peer_id_def
      split: option.splits if_splits)

lemma processMessage_parses:
  assumes "parses message_parser data m s m' s'" and "13 \<le> length data"
  shows "processMessage m data s = (True, m', s')"
proof -
  obtain r where "message_parser \<lparr>mp_reader = new_BinaryReader 0 data, mp_message = m, mp_tracker = s\<rparr> =
      (True, \<lparr>mp_reader = r, mp_message = m', mp_tracker = s'\<rparr>)"
    using assms(1) reads_from_new [of data] unfolding parses_def
    by (metis append_Nil2)
  then show ?thesis
    using assms(2) by (simp add: processMessage_def message_parser_def)
qed

lemma parses_optional_string:
  assumes "c m = present" and "field_if present d" and "\<not> present \<Longrightarrow> f d m = m"
  shows "parses (parse_when c (parse_short_string f)) (if present then short_string d else []) m s
    (f d m) s"
  using parses_when [of c m "parse_short_string f" "short_string d" s "f d m" s] assms
    parses_short_string [of d f m s]
  by (auto simp: field_if_def split: if_splits)

lemma parses_optional_peer:
  assumes "hasSenderPeerID m = present" and "sender_peer m = None" and "present \<longleftrightarrow> k \<noteq> None"
  shows "parses (parse_when hasSenderPeerID parse_sender_peer)
    (if present then 16 # concat (map hex8 (be64 (the k))) else []) m s
    (m\<lparr>sender_peer := k\<rparr>) (case k of None \<Rightarrow> s | Some i \<Rightarrow> checkSenderInPeers i s)"
proof (cases k)
  case None
  then show ?thesis using assms by (simp add: parses_def parse_when_def)
next
  case (Some i)
  then show ?thesis
    using assms parses_sender_peer [of i m s]
    by (auto simp: parses_def parse_when_def setSenderPeer_def)
qed

lemma parses_optional_mentions:
  assumes "hasMentions m = present" and "mentions m = []"
    and "if present then length ds \<le> 255 \<and> (\<forall>d \<in> set ds. length d \<le> 255) else ds = []"
  shows "parses (parse_when hasMentions parse_mentions)
    (if present then of_nat (min 255 (length ds)) # concat (map short_string ds) else []) m s
    (m\<lparr>mentions := ds\<rparr>) s"
  using assms parses_mentions [of ds m s]
  by (auto simp: parses_def parse_when_def min_absorb2 split: if_splits)

text \<open>What the parser makes of a message's fields, with whatever it makes of the sender's peer.\<close>

definition reread :: "message \<Rightarrow> u64 option \<Rightarrow> message" where
  "reread m k =
     m\<lparr>content := (if isEncrypted m then [] else content m),
       encrypted_content := (if isEncrypted m then content m else []), sender_peer := k\<rparr>"

lemma message_parser_reads:
  assumes wf: "fields_wf m"
    and peer: "\<And>m'. hasSenderPeerID m' = hasSenderPeerID m \<Longrightarrow> sender_peer m' = None \<Longrightarrow>
      parses (parse_when hasSenderPeerID parse_sender_peer) peer_bytes m' s (m'\<lparr>sender_peer := k\<rparr>) s1"
  shows "parses message_parser (message_fields m @ peer_bytes @ message_tail m)
    (message_over (packet_base.truncate m)) s (reread m k) s1"
proof -
  define m3 where "m3 = setSenderNickname (sender_nickname m) (setMessageId (message_id m)
      (setMessageTimestamp (message_timestamp m) (setMessageFlags (message_flags m)
        (message_over (packet_base.truncate m)))))"
  define m4 where "m4 = set_any_content (content m) m3"
  define m5 where "m5 = setOriginalSenderNickname (original_sender_nickname m) m4"
  define m6 where "m6 = setRecipientNickname (recipient_nickname m) m5"
  define m7 where "m7 = m6\<lparr>sender_peer := k\<rparr>"
  define m8 where "m8 = m7\<lparr>mentions := mentions m\<rparr>"
  note defs = m3_def m4_def m5_def m6_def m7_def m8_def message_setters set_any_content_def
    message_over_def packet_base.defs message.defs message_flag_defs
  note w = wf [unfolded fields_wf_def]
  have p5: "parses (parse_when hasOriginalSender (parse_short_string setOriginalSenderNickname))
      (if hasOriginalSender m then short_string (original_sender_nickname m) else []) m4 s m5 s"
    unfolding m5_def using w by (intro parses_optional_string) (auto simp: defs field_if_def)
  have p6: "parses (parse_when hasRecipientNickname (parse_short_string setRecipientNickname))
      (if hasRecipientNickname m then short_string (recipient_nickname m) else []) m5 s m6 s"
    unfolding m6_def using w by (intro parses_optional_string) (auto simp: defs field_if_def)
  have p7: "parses (parse_when hasSenderPeerID parse_sender_peer) peer_bytes m6 s m7 s1"
    unfolding m7_def by (intro peer) (auto simp: defs)
  have p8: "parses (parse_when hasMentions parse_mentions)
      (if hasMentions m then of_nat (min 255 (length (mentions m))) # concat (map short_string (mentions m))
       else []) m7 t m8 t" for t
    unfolding m8_def using w by (intro parses_optional_mentions) (auto simp: defs)
  have p9: "parses (parse_when hasChannel (parse_short_string setChannel))
      (if hasChannel m then short_string (channel m) else []) m8 t (setChannel (channel m) m8) t" for t
    using w by (intro parses_optional_string) (auto simp: defs field_if_def)
  have m: "setChannel (channel m) m8 = reread m k"
    using w by (cases m) (auto simp: defs field_if_def reread_def split: if_splits)
  have "parses message_parser
     ((message_flags m # be64 (message_timestamp m)) @ short_string (message_id m) @
      short_string (sender_nickname m) @ long_string (content m) @
      (if hasOriginalSender m then short_string (original_sender_nickname m) else []) @
      (if hasRecipientNickname m then short_string (recipient_nickname m) else []) @ peer_bytes @
      (if hasMentions m then of_nat (min 255 (length (mentions m))) # concat (map short_string (mentions m))
       else []) @
      (if hasChannel m then short_string (channel m) else []))
     (message_over (packet_base.truncate m)) s (reread m k) s1"
    unfolding message_parser_def using w
    by (intro parses_then [OF parses_head] parses_then [OF parses_short_string]
        parses_then [OF parses_long_string] parses_then [OF p5 [unfolded m4_def m3_def]]
        parses_then [OF p6] parses_then [OF p7] parses_then [OF p8] p9 [unfolded m]) auto
  then show ?thesis
    by (simp only: message_fields_def message_tail_def append_assoc append_Cons)
qed

lemma message_parser_round_trip:
  assumes "fields_wf m" and "peer_wf ps m"
  shows "parses message_parser (message_fields m @
      (if hasSenderPeerID m then 16 # concat (map hex8 (be64 (the (sender_peer m)))) else []) @
      message_tail m) (message_over (packet_base.truncate m)) s (reread m (sender_peer m)) (note_sender_peer m s)"
  unfolding note_sender_peer_def using assms
  by (intro message_parser_reads parses_optional_peer) (auto simp: peer_wf_def split: option.splits if_splits)

section \<open>The packet parser on written packets\<close>

text \<open>What the parser does with the bytes after the header.\<close>

definition parse_body ::
    "(bytes \<Rightarrow> nat \<Rightarrow> bytes option) \<Rightarrow> packet_base \<Rightarrow> u16 \<Rightarrow> binary_reader \<Rightarrow> parsed_packet option result" where
  "parse_body zlib b n r =
     (case parse_payload zlib (packet_flags b) n r of
        (None, r) \<Rightarrow> Inr None
      | (Some data, r) \<Rightarrow>
          bind_result (parse_signature (packet_flags b) r) (\<lambda>signature. Inr (Some
            \<lparr>parsed_type = packet_type b, parsed_ttl = packet_ttl b - 1,
             parsed_timestamp = packet_timestamp b, parsed_flags = packet_flags b,
             parsed_sender = packet_sender_id b,
             parsed_recipient = (if hasPacketRecipient b then packet_recipient_id b else 0),
             parsed_payload = data, parsed_signature = signature\<rparr>)))"

lemma parse_packet_header:
  "\<exists>r. reads_from r body \<and>
     parse_packet zlib 0 (header_bytes b n @ body) = parse_body zlib b (of_nat n) r"
proof -
  define r0 where "r0 = new_BinaryReader 0 (header_bytes b n @ body)"
  let ?rec = "if hasPacketRecipient b then be64 (packet_recipient_id b) else []"
  have b0: "reads_from r0 ([1] @ [packet_type b] @ [packet_ttl b - 1] @ be64 (packet_timestamp b) @
      [packet_flags b] @ be16 (of_nat n) @ be64 (packet_sender_id b) @ ?rec @ body)"
    using reads_from_new [of "header_bytes b n @ body"] by (simp add: r0_def header_bytes_def)
  note b1 = reads_from_advance [OF b0 refl]
  note b2 = reads_from_advance [OF b1 refl]
  note b3 = reads_from_advance [OF b2 refl]
  note b4 = reads_from_advance [OF b3 refl]
  note b5 = reads_from_advance [OF b4 refl]
  note b6 = reads_from_advance [OF b5 refl]
  note b7 = reads_from_advance [OF b6 refl]
  note b8 = reads_from_advance [OF b7 refl]
  have rd: "read_uint8 r0 = (1, advance 1 r0)"
    "read_uint8 (advance 1 r0) = (packet_type b, advance 2 r0)"
    "read_uint8 (advance 2 r0) = (packet_ttl b - 1, advance 3 r0)"
    "read_uint64 (advance 3 r0) = (packet_timestamp b, advance 11 r0)"
    "read_uint8 (advance 11 r0) = (packet_flags b, advance 12 r0)"
    "read_uint16 (advance 12 r0) = (of_nat n, advance 14 r0)"
    "read_uint64 (advance 14 r0) = (packet_sender_id b, advance 22 r0)"
    using b0 b1 b2 b5 reads_from_uint64 [OF b3] reads_from_uint16 [OF b5] reads_from_uint64 [OF b6]
      reads_from_uint8 [of r0] reads_from_uint8 [of "advance 1 r0"]
      reads_from_uint8 [of "advance 2 r0"] reads_from_uint8 [of "advance 11 r0"] b4
    by (simp_all add: advance_advance numeral_2_eq_2 numeral_3_eq_3)
  show ?thesis
  proof (cases "hasPacketRecipient b")
    case True
    have "reads_from (advance 30 r0) body" 
      and "read_uint64 (advance 22 r0) = (packet_recipient_id b, advance 30 r0)"
      using b8 reads_from_uint64 [of "advance 22 r0" "packet_recipient_id b" body] b7 True
      by (simp_all add: advance_advance)
    then show ?thesis
      using rd True by (intro exI [of _ "advance 30 r0"])
        (simp add: parse_packet_def parse_body_def r0_def [symmetric] hasPacketRecipient_def)
  next
    case False
    then have "reads_from (advance 22 r0) body"
      using b8 by (simp add: advance_advance)
    then show ?thesis
      using rd False by (intro exI [of _ "advance 22 r0"])
        (simp add: parse_packet_def parse_body_def r0_def [symmetric] hasPacketRecipient_def)
  qed
qed

text \<open>The next hop sees the packet with a lower time to live.\<close>

definition parsed_of :: "packet_base \<Rightarrow> bytes \<Rightarrow> bytes \<Rightarrow> parsed_packet" where
  "parsed_of b data signature =
     \<lparr>parsed_type = packet_type b, parsed_ttl = packet_ttl b - 1,
      parsed_timestamp = packet_timestamp b, parsed_flags = packet_flags b,
      parsed_sender = packet_sender_id b,
      parsed_recipient = (if hasPacketRecipient b then packet_recipient_id b else 0),
      parsed_payload = data, parsed_signature = signature\<rparr>"

lemma parse_written_packet:
  assumes "packet_payload ps pk = Inr data" and "length data \<le> 65535"
  shows "\<exists>bytes r. writePacket ps pk [] = Inr bytes \<and>
    reads_from r (data @ trailer_bytes (base pk)) \<and>
    parse_packet zlib 0 bytes = parse_body zlib (base pk) (of_nat (length data)) r"
  using assms parse_packet_header [of "data @ trailer_bytes (base pk)" zlib "base pk" "length data"]
  by (auto simp: writePacket_bytes)

lemma parse_body_plain:
  assumes "reads_from r (data @ rest)" and "length data \<le> 65535"
    and "\<not> has_flag (packet_flags b) packet_flag_is_compressed"
    and "\<not> hasPacketSignature b"
  shows "parse_body zlib b (of_nat (length data)) r = Inr (Some (parsed_of b data []))"
proof -
  have "unat (of_nat (length data) :: u16) = length data"
    using assms(2) by (simp add: unat_of_nat)
  then show ?thesis
    using assms reads_from_read_data [OF assms(1) refl]
    by (simp add: parse_body_def parse_payload_def parse_signature_def parsed_of_def
        hasPacketSignature_def)
qed

lemma parse_body_signed:
  assumes "reads_from r (data @ short_string sig @ [0])" and "length data \<le> 65535"
    and "\<not> has_flag (packet_flags b) packet_flag_is_compressed"
    and "hasPacketSignature b" and "length sig = 64"
  shows "parse_body zlib b (of_nat (length data)) r = Inr (Some (parsed_of b data (64 # butlast sig)))"
proof -
  have n: "unat (of_nat (length data) :: u16) = length data"
    using assms(2) by (simp add: unat_of_nat)
  have "reads_from (advance (length data) r) ((64 # butlast sig) @ [last sig, 0])"
    using reads_from_advance [OF assms(1) refl] assms(5)
    by (cases sig rule: rev_cases) (auto simp: short_string_def)
  from reads_from_read_data [OF this, of 64] show ?thesis
    using assms reads_from_read_data [OF assms(1) refl] n
    by (simp add: parse_body_def parse_payload_def parse_signature_def parsed_of_def
        hasPacketSignature_def)
qed

lemma parse_body_compressed:
  assumes "reads_from r (x # y # data @ rest)" and "length data + 2 \<le> 65535"
    and "has_flag (packet_flags b) packet_flag_is_compressed" and "\<not> hasPacketSignature b"
  shows "parse_body zlib b (of_nat (length data + 2)) r =
    Inr (Some (parsed_of b
      (decompress_payload zlib data (unat (push_bit 8 (ucast x) OR ucast y :: u16))) []))"
proof -
  have "of_nat (length data + 2) - 2 = (of_nat (length data) :: u16)"
    by simp
  moreover have "unat (of_nat (length data) :: u16) = length data"
    using assms(2) by (simp add: unat_of_nat)
  moreover have "reads_from (advance 2 r) (data @ rest)"
    using reads_from_advance [of r "[x, y]" "data @ rest" 2] assms(1) by simp
  moreover have "read_uint16 r = (push_bit 8 (ucast x) OR ucast y, advance 2 r)"
    using assms(1) by (simp add: reads_from_def read_uint16_unread)
  ultimately show ?thesis
    using assms reads_from_read_data [of "advance 2 r" data rest]
    by (simp add: parse_body_def parse_payload_def parse_signature_def parsed_of_def
        hasPacketSignature_def)
qed

lemma parsed_of_pass_along:
  assumes "\<not> hasPacketRecipient p \<Longrightarrow> packet_recipient_id p = 0"
  shows "parsed_pass_along (parsed_of (base (PassAlongPacket p)) (payload p) sig) =
    p\<lparr>packet_ttl := packet_ttl p - 1, packet_signature := sig\<rparr>"
  using assms
  by (cases p) (auto simp: parsed_pass_along_def parsed_of_def new_packet_defs packet_setters
      hasPacketRecipient_def)

lemma parsed_of_message:
  assumes "\<not> hasPacketRecipient m \<Longrightarrow> packet_recipient_id m = 0"
    and "packet_type m = type_value type_message" and "packet_signature m = []"
  shows "parsed_message (parsed_of (base (MessagePacket m)) data []) =
    message_over (packet_base.truncate (m\<lparr>packet_ttl := packet_ttl m - 1\<rparr>))"
  using assms
  by (auto simp: parsed_message_def parsed_of_def new_packet_defs hasPacketRecipient_def)

lemma sender_peer_id_ignores_ttl [simp]:
  "sender_peer_id ps (m\<lparr>packet_ttl := t\<rparr>) = sender_peer_id ps m"
  by (simp add: sender_peer_id_def)

lemma message_payload_ignores_ttl [simp]:
  "fields_wf (m\<lparr>packet_ttl := t\<rparr>) = fields_wf m" "peer_wf ps (m\<lparr>packet_ttl := t\<rparr>) = peer_wf ps m"
  "reread (m\<lparr>packet_ttl := t\<rparr>) k = (reread m k)\<lparr>packet_ttl := t\<rparr>"
  "writeMessagePayload ps (m\<lparr>packet_ttl := t\<rparr>) v = writeMessagePayload ps m v"
  by (simp_all add: fields_wf_def peer_wf_def reread_def writeMessagePayload_def message_flag_defs Let_def
      cong: if_cong)

text \<open>A message, neither signed nor compressed, as bytes and back.\<close>

lemma written_message_parses:
  assumes "fields_wf m" and "peer_wf ps m" and "packet_type m = type_value type_message"
    and "writeMessagePayload ps m [] = Inr data" and "length data \<le> 65535"
    and "\<not> has_flag (packet_flags m) packet_flag_is_compressed"
    and "\<not> hasPacketSignature m" and "packet_signature m = []"
    and "hasPacketRecipient m \<or> packet_recipient_id m = 0"
  shows "\<exists>bytes q. writePacket ps (MessagePacket m) [] = Inr bytes \<and>
    parse_packet zlib 0 bytes = Inr (Some q) \<and>
    processMessage (parsed_message q) (parsed_payload q) s =
      (True, (reread m (sender_peer m))\<lparr>packet_ttl := packet_ttl m - 1\<rparr>, note_sender_peer m s)"
proof -
  let ?m = "m\<lparr>packet_ttl := packet_ttl m - 1\<rparr>"
  have "packet_payload ps (MessagePacket m) = Inr data"
    using assms(3,4) by (simp add: packet_payload_def)
  from parse_written_packet [OF this assms(5), of zlib] obtain bytes r
    where b: "writePacket ps (MessagePacket m) [] = Inr bytes"
      and r: "reads_from r (data @ trailer_bytes (base (MessagePacket m)))"
      and p: "parse_packet zlib 0 bytes = parse_body zlib (base (MessagePacket m)) (of_nat (length data)) r"
    by blast
  have "parse_packet zlib 0 bytes = Inr (Some (parsed_of (base (MessagePacket m)) data []))"
    using p parse_body_plain [OF r assms(5)] assms(6,7) by (simp add: hasPacketSignature_def)
  moreover have "parsed_message (parsed_of (base (MessagePacket m)) data []) =
      message_over (packet_base.truncate ?m)"
    using assms(3,8,9) by (intro parsed_of_message) auto
  moreover have "fields_wf ?m" and "peer_wf ps ?m" and "writeMessagePayload ps ?m [] = Inr data"
    using assms(1,2,4) by simp_all
  moreover from this have "processMessage (message_over (packet_base.truncate ?m)) data s =
      (True, reread ?m (sender_peer ?m), note_sender_peer ?m s)"
    using message_parser_round_trip [of ?m ps s] peer_wf_bytes [of ps ?m]
    by (intro processMessage_parses) (auto simp: message_fields_def short_string_def long_string_def)
  ultimately show ?thesis
    using b by (intro exI [of _ bytes] exI [of _ "parsed_of (base (MessagePacket m)) data []"])
      (simp add: parsed_of_def note_sender_peer_def)
qed

text \<open>A packet passed along, neither signed nor compressed, as bytes and back.\<close>

definition plain_packet :: "pass_along \<Rightarrow> bool" where
  "plain_packet p \<longleftrightarrow>
     packet_type p \<noteq> type_value type_message \<and> packet_type p \<noteq> type_value type_announce \<and>
     length (payload p) \<le> 65535 \<and>
     \<not> has_flag (packet_flags p) packet_flag_is_compressed \<and>
     \<not> hasPacketSignature p \<and> packet_signature p = [] \<and>
     (hasPacketRecipient p \<or> packet_recipient_id p = 0)"

lemma plain_packet_parses:
  assumes "plain_packet p"
  shows "\<exists>bytes. writePacket ps (PassAlongPacket p) [] = Inr bytes \<and>
    parse_packet zlib 0 bytes = Inr (Some (parsed_of (base (PassAlongPacket p)) (payload p) [])) \<and>
    parsed_pass_along (parsed_of (base (PassAlongPacket p)) (payload p) []) =
      p\<lparr>packet_ttl := packet_ttl p - 1\<rparr>"
proof -
  have p: "length (payload p) \<le> 65535" "packet_signature p = []"
    "\<not> hasPacketRecipient p \<Longrightarrow> packet_recipient_id p = 0"
    and plain: "\<not> has_flag (packet_flags (base (PassAlongPacket p))) packet_flag_is_compressed"
      "\<not> hasPacketSignature (base (PassAlongPacket p))"
    using assms by (auto simp: plain_packet_def hasPacketSignature_def)
  have "packet_payload ps (PassAlongPacket p) = Inr (payload p)"
    using assms by (intro packet_payload_pass_along) (auto simp: plain_packet_def)
  from parse_written_packet [OF this p(1), of zlib] obtain bytes r
    where "writePacket ps (PassAlongPacket p) [] = Inr bytes"
      and r: "reads_from r (payload p @ trailer_bytes (base (PassAlongPacket p)))"
      and "parse_packet zlib 0 bytes =
        parse_body zlib (base (PassAlongPacket p)) (of_nat (length (payload p))) r"
    by blast
  moreover have "p\<lparr>packet_ttl := packet_ttl p - 1, packet_signature := []\<rparr> = p\<lparr>packet_ttl := packet_ttl p - 1\<rparr>"
    using p(2) by (cases p) simp
  ultimately show ?thesis
    using parse_body_plain [OF r p(1) plain] parsed_of_pass_along [OF p(3), of "[]"] by simp
qed

section \<open>Properties\<close>

text \<open>
  C9: what one repeater writes, the next one reads: a packet passed along that is not an
  announcement and neither signed nor compressed comes out of the parser as the same packet with its time to live reduced by one.
\<close>

theorem pass_along_round_trip:
  assumes "packet_type p \<noteq> type_value type_message" and "packet_type p \<noteq> type_value type_announce"
    and "length (payload p) \<le> 65535"
    and "\<not> has_flag (packet_flags p) packet_flag_is_compressed"
    and "\<not> hasPacketSignature p" and "packet_signature p = []"
    and "hasPacketRecipient p \<or> packet_recipient_id p = 0"
  shows "\<exists>bytes q. writePacket ps (PassAlongPacket p) [] = Inr bytes \<and>
    parse_packet zlib 0 bytes = Inr (Some q) \<and>
    parsed_pass_along q = p\<lparr>packet_ttl := packet_ttl p - 1\<rparr>"
proof -
  have "plain_packet p" using assms by (simp add: plain_packet_def)
  from plain_packet_parses [OF this, of ps zlib] show ?thesis by blast
qed

theorem pass_along_round_trip_witness:
  "\<exists>bytes q. writePacket [] (PassAlongPacket (setPayload [1, 2, 3]
      (PacketPassAlong_full 5 7 1755685519000 1 42 43 []))) [] = Inr bytes \<and>
    parse_packet (\<lambda>_ _. None) 0 bytes = Inr (Some q) \<and>
    parsed_pass_along q = setPayload [1, 2, 3] (PacketPassAlong_full 5 6 1755685519000 1 42 43 [])"
  using pass_along_round_trip [of "setPayload [1, 2, 3] (PacketPassAlong_full 5 7 1755685519000 1 42 43 [])"
      "[]" "\<lambda>_ _. None"]
  by (simp add: new_packet_defs packet_setters has_flag_def hasPacketSignature_def
      hasPacketRecipient_def packet_flag_has_recipient_def packet_flag_has_signature_def
      packet_flag_is_compressed_def)

text \<open>
  C8: a message that is not encrypted, signed or compressed, whose fields fit their lengths and whose
  sender's peer, if its flags name one, is known, is read by the next repeater as the same message, every
  field of it, with its time to live reduced by one; its sender's peer is then known to the reader.
\<close>

theorem message_round_trip:
  assumes "message_wf ps m" and "packet_type m = type_value type_message"
    and "writeMessagePayload ps m [] = Inr data" and "length data \<le> 65535"
    and "\<not> has_flag (packet_flags m) packet_flag_is_compressed"
    and "\<not> hasPacketSignature m" and "packet_signature m = []"
    and "hasPacketRecipient m \<or> packet_recipient_id m = 0"
  shows "\<exists>bytes q. writePacket ps (MessagePacket m) [] = Inr bytes \<and>
    parse_packet zlib 0 bytes = Inr (Some q) \<and>
    processMessage (parsed_message q) (parsed_payload q) s =
      (True, m\<lparr>packet_ttl := packet_ttl m - 1\<rparr>, note_sender_peer m s)"
proof -
  have "fields_wf m" "peer_wf ps m" "reread m (sender_peer m) = m"
    using assms(1) by (simp_all add: message_wf_def reread_def)
  with written_message_parses [OF _ _ assms(2-), of zlib s] show ?thesis by simp
qed

text \<open>
  C40: the content of an encrypted message does not survive a hop: the parser keeps it in
  \<open>encrypted_content\<close>, the writer writes \<open>content\<close>, which is empty, and the next repeater accepts the message,
  still marked as encrypted, with nothing in it. All other fields arrive.
\<close>

theorem relayed_encrypted_content_is_lost:
  assumes "encrypted_wf ps m" and "packet_type m = type_value type_message"
    and "writeMessagePayload ps m [] = Inr data" and "length data \<le> 65535"
    and "\<not> has_flag (packet_flags m) packet_flag_is_compressed"
    and "\<not> hasPacketSignature m" and "packet_signature m = []"
    and "hasPacketRecipient m \<or> packet_recipient_id m = 0"
  shows "\<exists>bytes q. writePacket ps (MessagePacket m) [] = Inr bytes \<and>
    parse_packet zlib 0 bytes = Inr (Some q) \<and>
    processMessage (parsed_message q) (parsed_payload q) s =
      (True, m\<lparr>packet_ttl := packet_ttl m - 1, encrypted_content := []\<rparr>, note_sender_peer m s)"
proof -
  have wf: "fields_wf m" "peer_wf ps m" and "reread m (sender_peer m) = m\<lparr>encrypted_content := []\<rparr>"
    using assms(1) by (simp_all add: encrypted_wf_def reread_def)
  then have "(reread m (sender_peer m))\<lparr>packet_ttl := packet_ttl m - 1\<rparr> =
      m\<lparr>packet_ttl := packet_ttl m - 1, encrypted_content := []\<rparr>"
    by simp
  with written_message_parses [OF wf assms(2-), of zlib s] show ?thesis by simp
qed

definition sample_message :: message where
  "sample_message =
     setMessageFlags 0x70 (setMessageTimestamp 1755685519000 (setMessageId [1, 2]
       (setSenderNickname [65] (setContent [104, 105] (setSenderPeer 42 (addMention [66]
         (setChannel [35, 99] (Message_from 7 1755685519000 0 42))))))))"

definition sample_peers :: "(u64, peer) omap" where
  "sample_peers = [(42, Peer_named 42 [65])]"

lemmas sample_defs = sample_message_def sample_peers_def message_setters new_packet_defs
  packet_setters Peer_named_def new_Peer_def

lemma sample_message_wf: "message_wf sample_peers sample_message"
  by (simp add: sample_defs message_wf_def fields_wf_def peer_wf_def message_flag_defs has_flag_def field_if_def)

theorem message_round_trip_witness:
  "\<exists>bytes q. writePacket sample_peers (MessagePacket sample_message) [] = Inr bytes \<and>
    parse_packet (\<lambda>_ _. None) 0 bytes = Inr (Some q) \<and>
    processMessage (parsed_message q) (parsed_payload q) (new_tracker 0) =
      (True, setPacketTtl 6 sample_message, note_sender_peer sample_message (new_tracker 0))"
proof -
  obtain data where d: "writeMessagePayload sample_peers sample_message [] = Inr data"
    and n: "length data \<le> 65535"
    using peer_wf_bytes [of sample_peers sample_message] sample_message_wf
    by (auto simp: message_wf_def message_fields_def message_tail_def sample_defs message_flag_defs has_flag_def
        short_string_def long_string_def)
  show ?thesis
    using message_round_trip [OF sample_message_wf _ d n, of "\<lambda>_ _. None" "new_tracker 0"]
    by (simp add: sample_defs hasPacketSignature_def hasPacketRecipient_def has_flag_def)
qed

text \<open>An encrypted message with the content \<open>[1, 2, 3]\<close>.\<close>

definition encrypted_message :: message where
  "encrypted_message =
     setMessageFlags 0x80 (setMessageTimestamp 5 (setMessageId [9] (setSenderNickname [8]
       (setEncryptedContent [1, 2, 3] (Message_from 7 5 0 42)))))"

theorem relayed_encrypted_content_is_lost_witness:
  "encrypted_content encrypted_message = [1, 2, 3] \<and>
   (\<exists>bytes q m s. writePacket [] (MessagePacket encrypted_message) [] = Inr bytes \<and>
    parse_packet (\<lambda>_ _. None) 0 bytes = Inr (Some q) \<and>
    processMessage (parsed_message q) (parsed_payload q) (new_tracker 0) = (True, m, s) \<and>
    isEncrypted m \<and> encrypted_content m = [] \<and> content m = [])"
proof -
  note defs = encrypted_message_def message_setters new_packet_defs packet_setters
  have wf: "encrypted_wf [] encrypted_message"
    by (simp add: defs encrypted_wf_def fields_wf_def peer_wf_def message_flag_defs has_flag_def field_if_def)
  then obtain data where d: "writeMessagePayload [] encrypted_message [] = Inr data" "length data \<le> 65535"
    using peer_wf_bytes [of "[]" encrypted_message]
    by (auto simp: encrypted_wf_def message_fields_def message_tail_def defs message_flag_defs has_flag_def
        short_string_def long_string_def)
  have "encrypted_content encrypted_message = [1, 2, 3]" "isEncrypted encrypted_message"
    "content encrypted_message = []"
    by (simp_all add: defs message_flag_defs has_flag_def)
  moreover have "\<exists>bytes q. writePacket [] (MessagePacket encrypted_message) [] = Inr bytes \<and>
      parse_packet (\<lambda>_ _. None) 0 bytes = Inr (Some q) \<and>
      processMessage (parsed_message q) (parsed_payload q) (new_tracker 0) =
        (True, encrypted_message\<lparr>packet_ttl := packet_ttl encrypted_message - 1, encrypted_content := []\<rparr>,
         note_sender_peer encrypted_message (new_tracker 0))"
    by (rule relayed_encrypted_content_is_lost [OF wf _ d])
      (simp_all add: defs hasPacketSignature_def hasPacketRecipient_def has_flag_def)
  ultimately show ?thesis
    by (auto simp: isEncrypted_def)
qed

text \<open>
  C38: the signature of a relayed packet that is not a message or an announcement does not survive: the writer puts a length byte before it,
  the parser does not expect one, so the next hop reads the length byte as the first byte of the
  signature and misses the last one.
\<close>

theorem relayed_signature_is_shifted:
  assumes "packet_type p \<noteq> type_value type_message" and "packet_type p \<noteq> type_value type_announce"
    and "length (payload p) \<le> 65535"
    and "\<not> has_flag (packet_flags p) packet_flag_is_compressed"
    and "hasPacketSignature p" and "length (packet_signature p) = 64"
    and "hasPacketRecipient p \<or> packet_recipient_id p = 0"
  shows "\<exists>bytes q. writePacket ps (PassAlongPacket p) [] = Inr bytes \<and>
    parse_packet zlib 0 bytes = Inr (Some q) \<and>
    parsed_pass_along q = p\<lparr>packet_ttl := packet_ttl p - 1,
      packet_signature := 64 # butlast (packet_signature p)\<rparr>"
proof -
  have "packet_payload ps (PassAlongPacket p) = Inr (payload p)"
    using assms by (intro packet_payload_pass_along) auto
  from parse_written_packet [OF this assms(3), of zlib] obtain bytes r
    where "writePacket ps (PassAlongPacket p) [] = Inr bytes"
      and "reads_from r (payload p @ trailer_bytes (base (PassAlongPacket p)))"
      and "parse_packet zlib 0 bytes =
        parse_body zlib (base (PassAlongPacket p)) (of_nat (length (payload p))) r"
    by blast
  with assms show ?thesis
    using parsed_of_pass_along [of p "64 # butlast (packet_signature p)"]
      parse_body_signed [of r "payload p" "packet_signature p" "base (PassAlongPacket p)" zlib]
    by (auto simp: hasPacketSignature_def trailer_bytes_def)
qed

theorem relayed_signature_is_shifted_witness:
  "\<exists>bytes q. writePacket [] (PassAlongPacket (PacketPassAlong_full 5 7 1 2 42 0 (replicate 64 9))) [] = Inr bytes \<and>
    parse_packet (\<lambda>_ _. None) 0 bytes = Inr (Some q) \<and>
    packet_signature (parsed_pass_along q) = 64 # butlast (replicate 64 9)"
  using relayed_signature_is_shifted [of "PacketPassAlong_full 5 7 1 2 42 0 (replicate 64 9)" "[]" "\<lambda>_ _. None"]
  by (auto simp: new_packet_defs has_flag_def hasPacketSignature_def hasPacketRecipient_def
      packet_flag_has_signature_def packet_flag_is_compressed_def)

text \<open>
  C39: a compressed packet, if not a message or an announcement, is relayed with its payload decompressed but its flag still set and no
  original size: the next hop takes the first two bytes of the payload for the size and, as the rest is
  not a compressed stream, passes on a payload without them.
\<close>

theorem relayed_compressed_payload_is_cut:
  assumes "packet_type p \<noteq> type_value type_message" and "packet_type p \<noteq> type_value type_announce"
    and "payload p = x # y # rest" and "length (payload p) \<le> 65535"
    and "has_flag (packet_flags p) packet_flag_is_compressed"
    and "\<not> hasPacketSignature p" and "packet_signature p = []"
    and "zlib rest (unat (push_bit 8 (ucast x) OR ucast y :: u16)) = None"
  shows "\<exists>bytes q. writePacket ps (PassAlongPacket p) [] = Inr bytes \<and>
    parse_packet zlib 0 bytes = Inr (Some q) \<and> payload (parsed_pass_along q) = rest"
proof -
  have "packet_payload ps (PassAlongPacket p) = Inr (payload p)"
    using assms by (intro packet_payload_pass_along) auto
  from parse_written_packet [OF this assms(4), of zlib] obtain bytes r
    where "writePacket ps (PassAlongPacket p) [] = Inr bytes"
      and "reads_from r (x # y # rest @ trailer_bytes (base (PassAlongPacket p)))"
      and "parse_packet zlib 0 bytes =
        parse_body zlib (base (PassAlongPacket p)) (of_nat (length rest + 2)) r"
    using assms(3) by auto
  with assms parse_body_compressed [of r x y rest _ "base (PassAlongPacket p)" zlib]
  show ?thesis
    by (auto simp: hasPacketSignature_def decompress_payload_def parsed_pass_along_def parsed_of_def
        new_packet_defs packet_setters)
qed

theorem relayed_compressed_payload_is_cut_witness:
  "\<exists>bytes q. writePacket [] (PassAlongPacket (setPayload [10, 20, 30] (PacketPassAlong_full 5 7 1 4 42 0 []))) [] = Inr bytes \<and>
    parse_packet (\<lambda>_ _. None) 0 bytes = Inr (Some q) \<and> payload (parsed_pass_along q) = [30]"
  using relayed_compressed_payload_is_cut
    [of "setPayload [10, 20, 30] (PacketPassAlong_full 5 7 1 4 42 0 [])" 10 20 "[30]" "\<lambda>_ _. None" "[]"]
  by (simp add: new_packet_defs packet_setters has_flag_def hasPacketSignature_def
      packet_flag_has_signature_def packet_flag_is_compressed_def)

end
