(* ===== verification/HexCodec.thy ===== *)
theory HexCodec
  imports Diagnostics ProtocolProcessor
begin

text \<open>
  The hexadecimal writers of \<open>BinaryWriter.cpp\<close> and the reader of sender peer ids in
  \<open>ProtocolProcessor.cpp\<close>, which shift and mask, against what they are short for: the conversion
  \<^verbatim>\<open>%016x\<close> and the value of a number in base 16.
\<close>

section \<open>Writing\<close>

lemma hexify_digit:
  assumes "d < 16"
  shows "hexify (of_nat d) = digit d"
proof -
  have "unat (of_nat d :: u8) = d" using assms by (simp add: unat_of_nat)
  then have "(of_nat d :: u8) < 10 \<longleftrightarrow> d < 10" by (simp add: word_less_nat_alt)
  then show ?thesis by (simp add: hexify_def digit_def add.commute)
qed

lemma unat_byte: "unat (ucast (drop_bit k (x :: u64)) :: u8) = unat x div 2 ^ k mod 256"
proof -
  have "unat x < 2 ^ 64" using unsigned_less [of x, where ?'a = nat] by simp
  then show ?thesis
    by (simp add: unsigned_ucast_eq unsigned_drop_bit_eq) (simp add: take_bit_eq_mod drop_bit_eq_div)
qed

lemma hex8_hex_byte: "hex8 c = hex_byte c"
proof -
  have "drop_bit 4 c AND 0xF = of_nat (unat c div 16)"
    using high_nibble [of c]
    by (simp add: word_eq_iff_unsigned [where ?'a = nat] and_F unsigned_take_bit_eq unsigned_drop_bit_eq)
      (simp add: take_bit_eq_mod drop_bit_eq_div unat_of_nat)
  moreover have "c AND 0xF = of_nat (unat c mod 16)"
    by (simp add: word_eq_iff_unsigned [where ?'a = nat] and_F unsigned_take_bit_eq)
      (simp add: take_bit_eq_mod unat_of_nat)
  ultimately show ?thesis
    using high_nibble [of c] by (simp add: hex8_def hex_byte_digits hexify_digit)
qed

lemma zero_padded_digit:
  assumes "1 \<le> w"
  shows "zero_padded (Suc w) (digits 16 n) = zero_padded w (digits 16 (n div 16)) @ [digit (n mod 16)]"
proof (cases "n < 16")
  case True
  have "replicate w x = replicate (w - Suc 0) x @ [x]" for x :: u8
    using assms by (cases w) (simp_all add: replicate_append_same)
  with True show ?thesis by (simp add: zero_padded_def digits.simps [of 16 n] digits.simps [of 16 0])
next
  case False
  then show ?thesis by (subst digits.simps) (simp add: zero_padded_def)
qed

lemma zero_padded_byte:
  assumes "1 \<le> w" and "unat c = n mod 256"
  shows "zero_padded (w + 2) (digits 16 n) = zero_padded w (digits 16 (n div 256)) @ hex8 c"
proof -
  have "n div 16 mod 16 = unat c div 16" "n mod 16 = unat c mod 16"
    using assms(2) div_exp_mod_exp_eq [of n 4 4] by (simp_all add: mod_mod_cancel)
  then show ?thesis
    using assms(1) zero_padded_digit [of "Suc w" n] zero_padded_digit [of w "n div 16"]
    by (simp add: hex8_hex_byte hex_byte_digits div_mult2_eq [symmetric])
qed

lemma write_uint64_hex16_digits:
  "write_uint64_hex16 x v = v @ zero_padded 16 (digits 16 (unat x))"
proof -
  let ?z = "\<lambda>w k. zero_padded w (digits 16 (unat x div 2 ^ k))"
  let ?b = "\<lambda>k. hex8 (ucast (drop_bit k x))"
  have step: "?z (w + 2) k = ?z w (k + 8) @ ?b k" if "1 \<le> w" for w k
    using zero_padded_byte [OF that unat_byte [of k x]] by (simp add: div_mult2_eq power_add)
  have "unat x < 2 ^ 64" using unsigned_less [of x, where ?'a = nat] by simp
  then have top: "?z 2 56 = ?b 56"
    using unat_byte [of 56 x] by (simp add: hex8_hex_byte hex_byte_def less_mult_imp_div_less)
  have "zero_padded 16 (digits 16 (unat x)) =
      ?b 56 @ ?b 48 @ ?b 40 @ ?b 32 @ ?b 24 @ ?b 16 @ ?b 8 @ ?b 0"
    using step [of 14 0] step [of 12 8] step [of 10 16] step [of 8 24] step [of 6 32] step [of 4 40]
      step [of 2 48] top by simp
  then show ?thesis by (simp add: write_uint64_hex16_def writer_defs)
qed

section \<open>Reading\<close>

definition is_hex :: "u8 \<Rightarrow> bool" where
  "is_hex c \<longleftrightarrow> 48 \<le> c \<and> c \<le> 57 \<or> 65 \<le> c \<and> c \<le> 70 \<or> 97 \<le> c \<and> c \<le> 102"

definition hex_value :: "u8 \<Rightarrow> u8" where
  "hex_value c = (if c \<le> 57 then c - 48 else if c \<le> 70 then c - 55 else c - 87)"

definition hex_number :: "bytes \<Rightarrow> u64" where
  "hex_number = foldl (\<lambda>acc c. 16 * acc + ucast (hex_value c)) 0"

lemma unhex_value:
  assumes "is_hex c"
  shows "unhex c AND 0xF = hex_value c"
proof -
  have all: "\<forall>n \<in> set [0..<256]. is_hex (of_nat n) \<longrightarrow> unhex (of_nat n) AND 0xF = hex_value (of_nat n)"
    by code_simp
  have "unat c < 256" using unsigned_less [of c, where ?'a = nat] by simp
  then have "unat c \<in> set [0..<256]" by simp
  from bspec [OF all this] assms show ?thesis by simp
qed

lemma hex_value_less: "is_hex c \<Longrightarrow> hex_value c < 16"
  using unhex_value nibble_less [of "unhex c"] by metis

lemma hex_byte_value:
  assumes "is_hex a" and "is_hex b"
  shows "ucast (push_bit 4 (unhex a) OR (unhex b AND 0xF)) = (16 * ucast (hex_value a) + ucast (hex_value b) :: u64)"
proof -
  have all: "\<forall>x \<in> set [0..<16]. \<forall>y \<in> set [0..<16].
      ucast (push_bit 4 (of_nat x) OR of_nat y :: u8) = (16 * ucast (of_nat x :: u8) + ucast (of_nat y :: u8) :: u64)"
    by code_simp
  have small: "unat (hex_value c) \<in> set [0..<16]" if "is_hex c" for c
    using hex_value_less [OF that] by (simp add: word_less_nat_alt)
  have t: "hex_value a = take_bit 4 (unhex a)"
    using unhex_value [OF assms(1)] by (simp add: and_F)
  have "take_bit 4 (unhex a) = take_bit 4 (hex_value a)" by (simp add: t)
  then have "push_bit 4 (unhex a) = push_bit 4 (hex_value a)" by (rule push_bit_nibble)
  then show ?thesis
    using bspec [OF bspec [OF all small [OF assms(1)]] small [OF assms(2)]] unhex_value [OF assms(2)] by simp
qed

lemma append_byte: "push_bit 8 (v :: u64) OR ucast (c :: u8) = 256 * v + ucast c"
proof -
  have "push_bit 8 v + ucast c = push_bit 8 v OR ucast c"
    by (rule disjunctive_add_eq_or, rule bit_word_eqI) (auto simp: bit_simps dest: bit_imp_le_length)
  then show ?thesis by (simp add: push_bit_eq_mult mult.commute)
qed

lemma peer_id_loop_foldl:
  assumes "length ds = 2 * n" and "\<forall>c \<in> set ds. is_hex c"
  shows "peer_id_loop ds (8 * (n - 1)) (push_bit (8 * n) v) =
    foldl (\<lambda>acc c. 16 * acc + ucast (hex_value c)) v ds"
  using assms
proof (induction n arbitrary: ds v)
  case (Suc m)
  then obtain a b rest where ds: "ds = a # b # rest" "length rest = 2 * m"
    by (cases ds; cases "tl ds") auto
  let ?c = "push_bit 4 (unhex a) OR (unhex b AND 0xF)"
  have "push_bit (8 * Suc m) v OR push_bit (8 * m) (ucast ?c) = push_bit (8 * m) (push_bit 8 v OR ucast ?c)"
    by (simp add: push_bit_or add.commute)
  also have "push_bit 8 v OR ucast ?c = 16 * (16 * v + ucast (hex_value a)) + ucast (hex_value b)"
    using Suc.prems(2) ds(1) hex_byte_value [of a b] append_byte [of v ?c] by (simp add: algebra_simps)
  finally show ?case
    using Suc.IH [OF ds(2), of "16 * (16 * v + ucast (hex_value a)) + ucast (hex_value b)"] Suc.prems(2)
    by (simp add: ds(1) right_diff_distrib')
qed simp

section \<open>Properties\<close>

text \<open>
  C14: the hexadecimal codec of sender peer ids, written with shifts and masks, does what its reference says:
  the writer appends the conversion \<^verbatim>\<open>%016x\<close> of the id, and the reader gives sixteen hexadecimal digits of
  either case their value in base 16.
\<close>

theorem hex_codec_matches_reference:
  "write_uint64_hex16 x v = v @ zero_padded 16 (digits 16 (unat x)) \<and>
   (length ds = 16 \<and> (\<forall>c \<in> set ds. is_hex c) \<longrightarrow> peer_id_loop ds 56 0 = hex_number ds)"
  using write_uint64_hex16_digits peer_id_loop_foldl [of ds 8 0] by (simp add: hex_number_def)

theorem hex_codec_matches_reference_witness:
  "write_uint64_hex16 0xBEEF [] = replicate 12 48 @ lit ''beef'' \<and>
   peer_id_loop (lit ''00000000DeadBeef'') 56 0 = 0xDEADBEEF"
proof -
  have "length (lit ''00000000DeadBeef'') = 16" "\<forall>c \<in> set (lit ''00000000DeadBeef''). is_hex c"
    "hex_number (lit ''00000000DeadBeef'') = 0xDEADBEEF"
    by (simp_all add: lit_def is_hex_def hex_number_def hex_value_def)
  moreover have "zero_padded 16 (digits 16 (unat (0xBEEF :: u64))) = replicate 12 48 @ lit ''beef''"
    by (simp add: zero_padded_def digits.simps [of 16 48879] digits.simps [of 16 3054] digits.simps [of 16 190]
        digits.simps [of 16 11] digit_def lit_def)
  ultimately show ?thesis
    using hex_codec_matches_reference [of "0xBEEF" "[]" "lit ''00000000DeadBeef''"] by simp
qed

end
