(* ===== verification/TrackerSend.thy ===== *)
theory TrackerSend
  imports Tracker
begin

text \<open>
  The sending half of \<open>BLE/BleConnectionTracker.cpp\<close>: announcing the repeater, relaying queued packets
  to connections, handing raw packets to the Bluetooth stack when it is ready, and forgetting what is
  stale.
\<close>

section \<open>Searching through pointers\<close>

text \<open>\<open>std::ranges::find_if\<close>: stops at the first element that matches.\<close>

fun find_if :: "('a \<Rightarrow> bool result) \<Rightarrow> 'a list \<Rightarrow> bool result" where
  "find_if P [] = Inr False"
| "find_if P (x # xs) = bind_result (P x) (\<lambda>b. if b then Inr True else find_if P xs)"

text \<open>A loop that looks at every element.\<close>

fun any_of :: "('a \<Rightarrow> bool result) \<Rightarrow> 'a list \<Rightarrow> bool result" where
  "any_of P [] = Inr False"
| "any_of P (x # xs) = bind_result (P x) (\<lambda>b. bind_result (any_of P xs) (\<lambda>c. Inr (b \<or> c)))"

text \<open>\<open>std::erase_if\<close> with a predicate that follows pointers.\<close>

fun erase_if :: "('a \<Rightarrow> bool result) \<Rightarrow> 'a list \<Rightarrow> 'a list result" where
  "erase_if P [] = Inr []"
| "erase_if P (x # xs) =
     bind_result (P x) (\<lambda>b. bind_result (erase_if P xs) (\<lambda>ys. Inr (if b then ys else x # ys)))"

text \<open>\<open>sent_to.second->getConnectionHandle() == handle\<close>.\<close>

definition handle_matches :: "tracker \<Rightarrow> u16 \<Rightarrow> addr \<times> connection_ptr \<Rightarrow> bool result" where
  "handle_matches s h sent =
     bind_result (deref_connection s (snd sent)) (\<lambda>c. Inr (connection_handle c = h))"

section \<open>Announcing\<close>

text \<open>The first six bytes of a \<open>uint64_t\<close> on a little-endian machine.\<close>

definition address_as_sender :: "bytes \<Rightarrow> u64" where
  "address_as_sender a =
     foldr (\<lambda>b acc. push_bit 8 acc OR ucast b) (take 6 a) 0"

definition announce_ttl :: u8 where
  "announce_ttl = 3"

definition repeater_name :: "bytes \<Rightarrow> bytes" where
  "repeater_name local_addr =
     write_uint8_hex16 (local_addr ! 5) (write_uint8_hex16 (local_addr ! 4)
       (write_data bitchat_service_name (length bitchat_service_name) []))"

text \<open>\<open>local_addr\<close> is what \<open>gap_local_bd_addr\<close> fills in.\<close>

definition setupAnnounceIfNeeded :: "bytes \<Rightarrow> tracker \<Rightarrow> tracker" where
  "setupAnnounceIfNeeded local_addr s =
     (if packet_ttl (announcement s) = announce_ttl then s
      else s\<lparr>announcement :=
             setName (repeater_name local_addr)
               (setPacketSenderId (address_as_sender local_addr)
                 (setPacketFlags 0 (setPacketTtl announce_ttl (announcement s))))\<rparr>)"

definition available :: "ble_connection \<Rightarrow> bool" where
  "available c \<longleftrightarrow> connected c \<and> bitchat_characteristic_value_handle c > 0"

definition announced_to :: "tracker \<Rightarrow> u16 \<Rightarrow> bool result" where
  "announced_to s h =
     find_if (handle_matches s h)
       (multi_range (announcement_addr s) (packets_connections_sent_list s))"

text \<open>
  The loop over the connections; each announcement reads the clock, which shows \<open>clock i\<close> at the
  \<open>i\<close>-th reading. The conditions do not depend on what the loop changes.
\<close>

fun announce_loop ::
    "(nat \<Rightarrow> u64) \<Rightarrow> (u16 \<times> ble_connection) list \<Rightarrow> nat \<Rightarrow> tracker \<Rightarrow> tracker result" where
  "announce_loop clock [] i s = Inr s"
| "announce_loop clock ((key, c) # cs) i s =
     (if \<not> (available c \<and> timestamp_offset_ms s \<ge> build_time_ms)
      then announce_loop clock cs i s
      else bind_result (announced_to s (connection_handle c)) (\<lambda>done.
        if done then announce_loop clock cs i s
        else (let s = s\<lparr>announcement := setPacketTimestamp (getTimeMs (clock i) s) (announcement s)\<rparr>
              in bind_result (enqueueTargetedPacket (announcement_addr s) (connection_handle c) s)
                   (announce_loop clock cs (i + 1)))))"

definition announceToConnections :: "bytes \<Rightarrow> (nat \<Rightarrow> u64) \<Rightarrow> tracker \<Rightarrow> tracker result" where
  "announceToConnections local_addr clock s =
     (let s = setupAnnounceIfNeeded local_addr s in announce_loop clock (connections s) 0 s)"

section \<open>Sending\<close>

text \<open>The two ends of \<open>SendPacketToConnection\<close>: a raw packet is queued and the stack asked for a callback.\<close>

definition queue_notification :: "u16 \<Rightarrow> bytes \<Rightarrow> tracker \<Rightarrow> tracker" where
  [simp]: "queue_notification con_handle packet_data s =
     call_stack (Request_notification con_handle)
       (s\<lparr>raw_packet_to_notify := multi_emplace con_handle packet_data (raw_packet_to_notify s),
          notify_context := con_handle\<rparr>)"

definition queue_write :: "u16 \<Rightarrow> bytes \<Rightarrow> tracker \<Rightarrow> tracker" where
  [simp]: "queue_write con_handle packet_data s =
     call_stack (Request_write con_handle)
       (s\<lparr>raw_packet_to_write := multi_emplace con_handle packet_data (raw_packet_to_write s),
          write_context := con_handle\<rparr>)"

definition SendPacketToConnection :: "addr \<Rightarrow> connection_ptr \<Rightarrow> tracker \<Rightarrow> tracker result" where
  "SendPacketToConnection p cp s =
     bind_result (deref_packet s p) (\<lambda>pk.
     bind_result (writePacket (peers s) pk []) (\<lambda>packet_data.
     bind_result (deref_connection s cp) (\<lambda>c.
       if length packet_data > unat (bt_mtu c) then Inl AssertionFailed
       else
         (let con_handle = connection_handle c;
              s = (case cp of ConnectionNode k \<Rightarrow> update_connection k (setHasData True) s
                            | LocalCopy a \<Rightarrow> s)
          in if role c = HCI_ROLE_SLAVE then Inr (queue_notification con_handle packet_data s)
             else Inr (queue_write con_handle packet_data s)))))"

definition note_sent :: "addr \<Rightarrow> connection_ptr \<Rightarrow> tracker \<Rightarrow> tracker" where
  "note_sent p cp s =
     s\<lparr>packets_connections_sent_list := multi_emplace p cp (packets_connections_sent_list s)\<rparr>"

text \<open>\<open>packet_needed\<close>: the packet was not sent to a connection with this handle.\<close>

definition packet_needed :: "tracker \<Rightarrow> addr \<times> connection_ptr \<Rightarrow> bool result" where
  "packet_needed s targeted =
     (case multi_range (fst targeted) (packets_connections_sent_list s) of
        [] \<Rightarrow> Inr True
      | sent \<Rightarrow>
          bind_result (deref_connection s (snd targeted)) (\<lambda>c.
          bind_result (find_if (handle_matches s (connection_handle c)) sent) (\<lambda>found.
            Inr (\<not> found))))"

text \<open>
  The loop over the targeted packets that are needed. Its log line, which builds without logging do not have,
  reads the connection's handle before the packet is written.
\<close>

fun targeted_loop ::
    "(addr \<times> connection_ptr) list \<Rightarrow> addr list \<Rightarrow> tracker \<Rightarrow> (addr list \<times> tracker) result" where
  "targeted_loop [] removed s = Inr (removed, s)"
| "targeted_loop ((p, cp) # rest) removed s =
     bind_result (packet_needed s (p, cp)) (\<lambda>needed.
       if needed
       then bind_result (SendPacketToConnection p cp s) (\<lambda>s.
              targeted_loop rest (p # removed) (note_sent p cp s))
       else targeted_loop rest removed s)"

text \<open>
  The scan of a broadcast packet starts at the packet's first entry and runs to the end of the
  multimap, over the entries of all packets at higher addresses.
\<close>

definition sendable :: "tracker \<Rightarrow> addr \<Rightarrow> ble_connection \<Rightarrow> bool result" where
  "sendable s p c =
     bind_result (any_of (handle_matches s (connection_handle c))
                    (multi_from p (packets_connections_sent_list s))) (\<lambda>found. Inr (\<not> found))"

definition broadcast_to :: "addr \<Rightarrow> u16 \<times> ble_connection \<Rightarrow> tracker \<Rightarrow> tracker result" where
  "broadcast_to p kc s =
     bind_result (sendable s p (snd kc)) (\<lambda>ok.
       if ok then bind_result (SendPacketToConnection p (ConnectionNode (fst kc)) s) (\<lambda>s.
                    Inr (note_sent p (ConnectionNode (fst kc)) s))
       else Inr s)"

definition broadcast_packet :: "addr \<Rightarrow> tracker \<Rightarrow> tracker result" where
  "broadcast_packet p s =
     fold_result (broadcast_to p) (filter (\<lambda>(k, c). available c) (connections s)) s"

definition sendPackets :: "tracker \<Rightarrow> tracker result" where
  "sendPackets s =
     (if broadcast_packets_to_send_list s = [] \<and> targeted_packets_to_send_list s = [] then Inr s
      else
        bind_result (targeted_loop (targeted_packets_to_send_list s) [] s) (\<lambda>(removed, s).
        let s = s\<lparr>targeted_packets_to_send_list :=
                    filter (\<lambda>(p, cp). p \<notin> set removed) (targeted_packets_to_send_list s)\<rparr>;
            queue = broadcast_packets_to_send_list s
        in bind_result (fold_result broadcast_packet queue s) (\<lambda>s.
             Inr (s\<lparr>broadcast_packets_to_send_list :=
                      filter (\<lambda>p. p \<notin> set queue) (broadcast_packets_to_send_list s)\<rparr>))))"

section \<open>Raw packets\<close>

definition erase_first :: "u16 \<Rightarrow> (u16 \<times> bytes) list \<Rightarrow> (u16 \<times> bytes) list" where
  "erase_first h q = takeWhile (\<lambda>(h', v). h' < h) q @ tl (multi_lower h q)"

text \<open>
  \<open>equal_range(con_handle).first != end()\<close>: it is the first element whose handle is not less. The
  connections read are copies. \<open>ret\<close> is what the stack answers; 0 and 2
  (\<open>ERROR_CODE_UNKNOWN_CONNECTION_IDENTIFIER\<close>) drop the packet.
\<close>

definition notifyRawPacket :: "u8 \<Rightarrow> u16 \<Rightarrow> tracker \<Rightarrow> tracker result" where
  "notifyRawPacket ret con_handle s =
     bind_result
       (case multi_lower con_handle (raw_packet_to_notify s) of
          [] \<Rightarrow> Inr s
        | (h, data) # _ \<Rightarrow>
            (let s = update_connection con_handle id s;
                 connection = connection_or_new s con_handle
             in if \<not> has_data_to_send connection then Inl AssertionFailed
                else
                  (let s = call_stack (Notify con_handle
                             (bitchat_characteristic_value_handle connection) data) s
                   in Inr (if ret = 0 \<or> ret = 2
                           then s\<lparr>raw_packet_to_notify := erase_first con_handle (raw_packet_to_notify s)\<rparr>
                           else s))))
       (\<lambda>s. if multi_lower con_handle (raw_packet_to_notify s) = []
            then Inr (update_connection con_handle id s)
            else Inr (call_stack (Request_notification con_handle) (s\<lparr>notify_context := con_handle\<rparr>)))"

definition writeRawPacket :: "u8 \<Rightarrow> u16 \<Rightarrow> tracker \<Rightarrow> tracker result" where
  "writeRawPacket ret con_handle s =
     bind_result
       (case multi_lower con_handle (raw_packet_to_write s) of
          [] \<Rightarrow> Inr s
        | (h, data) # _ \<Rightarrow>
            (let s = update_connection con_handle id s;
                 connection = connection_or_new s con_handle
             in if \<not> has_data_to_send connection then Inl AssertionFailed
                else
                  (let s = call_stack (Write_value con_handle
                             (bitchat_characteristic_value_handle connection) data) s
                   in Inr (if ret = 0 \<or> ret = 2
                           then s\<lparr>raw_packet_to_write := erase_first con_handle (raw_packet_to_write s)\<rparr>
                           else s))))
       (\<lambda>s. if multi_lower con_handle (raw_packet_to_write s) = []
            then Inr (update_connection con_handle id s)
            else Inr (call_stack (Request_write con_handle) (s\<lparr>write_context := con_handle\<rparr>)))"

section \<open>Clean-up\<close>

definition packet_stale :: "tracker \<Rightarrow> u64 \<Rightarrow> addr \<Rightarrow> bool result" where
  "packet_stale s now p =
     bind_result (deref_packet s p) (\<lambda>pk.
       Inr (getPacketTimestampMs (base pk) + ten_minutes_in_ms < now))"

definition connection_stale :: "u64 \<Rightarrow> ble_connection \<Rightarrow> bool" where
  "connection_stale now c \<longleftrightarrow> \<not> connected c \<and> getTimestampMs c + ten_minutes_in_ms < now"

definition packet_connection_stale :: "tracker \<Rightarrow> u64 \<Rightarrow> addr \<times> connection_ptr \<Rightarrow> bool result" where
  "packet_connection_stale s now item =
     bind_result (deref_packet s (fst item)) (\<lambda>pk.
       if packet_timestamp (base pk) + ten_minutes_in_ms < now then Inr True
       else bind_result (deref_connection s (snd item)) (\<lambda>c. Inr (connection_stale now c)))"

definition message_stale :: "u64 \<Rightarrow> 'z packet_base_scheme \<Rightarrow> bool" where
  "message_stale now m \<longleftrightarrow> getPacketTimestampMs m + ten_minutes_in_ms < now"

definition cleanupStaleItems :: "u64 \<Rightarrow> tracker \<Rightarrow> tracker result" where
  "cleanupStaleItems now_us s =
     (let now = getTimeMs now_us s
      in bind_result (erase_if (packet_connection_stale s now) (packets_connections_sent_list s)) (\<lambda>sent.
         bind_result (erase_if (\<lambda>(p, k). packet_stale s now p) (packets_peers_sent_list s)) (\<lambda>peers_sent.
         bind_result (erase_if (packet_stale s now) (broadcast_packets_to_send_list s)) (\<lambda>broadcast.
         bind_result (erase_if (packet_connection_stale s now) (targeted_packets_to_send_list s)) (\<lambda>targeted.
         Inr (s\<lparr>packets_connections_sent_list := sent,
                packets_peers_sent_list := peers_sent,
                broadcast_packets_to_send_list := broadcast,
                targeted_packets_to_send_list := targeted,
                connections := map_erase_if (\<lambda>h c. connection_stale now c) (connections s),
                available_neighbours :=
                  map_erase_if (\<lambda>a c. connection_stale now c) (available_neighbours s),
                messages := map_erase_if (\<lambda>k (a, m). message_stale now m) (messages s),
                packets := map_erase_if (\<lambda>k (a, p). message_stale now p) (packets s),
                rssi_position :=
                  (case rssi_position s of
                     Some (At_node h) \<Rightarrow>
                       (case map_of (connections s) h of
                          Some c \<Rightarrow> if connection_stale now c then Some Erased else rssi_position s
                        | None \<Rightarrow> rssi_position s)
                   | _ \<Rightarrow> rssi_position s)\<rparr>))))))"

end
