(* ===== verification/Invariant.thy ===== *)
theory Invariant
  imports TrackerSend ProtocolProcessor
begin

text \<open>
  The invariant of the tracker: what holds between its stores, its connections and its queues in every
  state the program reaches, and that every operation keeps it. An operation that makes a node is given
  an address at which nothing lives, which is what an allocator promises.
\<close>

section \<open>The invariant\<close>

definition live_addresses :: "tracker \<Rightarrow> addr list" where
  "live_addresses s =
     announcement_addr s # map (fst \<circ> snd) (messages s) @ map (fst \<circ> snd) (packets s)"

abbreviation fresh :: "addr \<Rightarrow> tracker \<Rightarrow> bool" where
  "fresh a s \<equiv> a \<notin> set (live_addresses s)"

definition peer_known :: "tracker \<Rightarrow> u64 \<Rightarrow> bool" where
  "peer_known s k \<longleftrightarrow> map_of (peers s) k \<noteq> None"

text \<open>
  Keys say what is stored under them, no two objects share an address, messages are messages and
  other packets are not, and every pointer to a peer is to one that is there.
\<close>

definition peers_ok :: "tracker \<Rightarrow> bool" where
  "peers_ok s \<longleftrightarrow> map_ok (peers s) \<and> (\<forall>(k, p) \<in> set (peers s). peer_id p = k)"

definition messages_ok :: "tracker \<Rightarrow> bool" where
  "messages_ok s \<longleftrightarrow> map_ok (messages s) \<and>
     (\<forall>(k, a, m) \<in> set (messages s).
        message_id m = k \<and> packet_type m = type_value type_message \<and>
        (\<forall>i \<in> set_option (sender_peer m). peer_known s i))"

definition packets_ok :: "tracker \<Rightarrow> bool" where
  "packets_ok s \<longleftrightarrow> map_ok (packets s) \<and>
     (\<forall>(k, a, p) \<in> set (packets s). packet_type p \<noteq> type_value type_message \<and> packet_ttl p > 0) \<and>
     packet_type (announcement s) = type_value type_announce \<and> distinct (live_addresses s)"

text \<open>A connection that is up stands under its own handle.\<close>

definition connections_ok :: "tracker \<Rightarrow> bool" where
  "connections_ok s \<longleftrightarrow>
     map_ok (connections s) \<and> map_ok (available_neighbours s) \<and> map_ok (handle_peer_map s) \<and>
     (\<forall>(h, c) \<in> set (connections s). connected c \<longrightarrow> connection_handle c = h) \<and>
     (\<forall>(h, k) \<in> set (handle_peer_map s). peer_known s k)"

text \<open>What waits to be broadcast is there and may still travel; only announcements are targeted.\<close>

definition relayable :: "tracker \<Rightarrow> addr \<Rightarrow> bool" where
  "relayable s p \<longleftrightarrow>
     (case deref_packet s p of Inr pk \<Rightarrow> packet_ttl (base pk) > 0 | Inl e \<Rightarrow> False)"

definition queues_ok :: "tracker \<Rightarrow> bool" where
  "queues_ok s \<longleftrightarrow>
     multi_ok (raw_packet_to_notify s) \<and> multi_ok (raw_packet_to_write s) \<and>
     multi_ok (packets_connections_sent_list s) \<and> multi_ok (packets_peers_sent_list s) \<and>
     multi_ok (targeted_packets_to_send_list s) \<and>
     (\<forall>p \<in> set (broadcast_packets_to_send_list s). relayable s p) \<and>
     (\<forall>(p, k) \<in> set (packets_peers_sent_list s). p \<in> set (live_addresses s) \<and> peer_known s k) \<and>
     (\<forall>(p, cp) \<in> set (targeted_packets_to_send_list s). p = announcement_addr s)"

definition tracker_ok :: "tracker \<Rightarrow> bool" where
  "tracker_ok s \<longleftrightarrow>
     peers_ok s \<and> messages_ok s \<and> packets_ok s \<and> connections_ok s \<and> queues_ok s"

lemmas tracker_ok_defs = tracker_ok_def peers_ok_def messages_ok_def packets_ok_def
  connections_ok_def queues_ok_def

lemma new_tracker_ok: "tracker_ok (new_tracker a)"
  by (simp add: tracker_ok_defs new_tracker_def live_addresses_def new_packet_defs multi_ok_def)

section \<open>Dereferencing\<close>

lemma deref_packet_cong:
  assumes "messages s' = messages s" and "packets s' = packets s"
    and "announcement s' = announcement s" and "announcement_addr s' = announcement_addr s"
  shows "deref_packet s' = deref_packet s"
  using assms by (intro ext) (simp add: deref_packet_def message_at_def pass_along_at_def
      cong: option.case_cong)

lemma deref_packet_frame [simp]:
  "deref_packet (s\<lparr>peers := x1\<rparr>) = deref_packet s"
  "deref_packet (s\<lparr>connections := x2\<rparr>) = deref_packet s"
  "deref_packet (s\<lparr>available_neighbours := x3\<rparr>) = deref_packet s"
  "deref_packet (s\<lparr>raw_packet_to_notify := x4\<rparr>) = deref_packet s"
  "deref_packet (s\<lparr>raw_packet_to_write := x5\<rparr>) = deref_packet s"
  "deref_packet (s\<lparr>timestamp_offset_ms := x6\<rparr>) = deref_packet s"
  "deref_packet (s\<lparr>handle_peer_map := x7\<rparr>) = deref_packet s"
  "deref_packet (s\<lparr>packets_connections_sent_list := x8\<rparr>) = deref_packet s"
  "deref_packet (s\<lparr>packets_peers_sent_list := x9\<rparr>) = deref_packet s"
  "deref_packet (s\<lparr>broadcast_packets_to_send_list := x10\<rparr>) = deref_packet s"
  "deref_packet (s\<lparr>targeted_packets_to_send_list := x11\<rparr>) = deref_packet s"
  "deref_packet (s\<lparr>rssi_position := x12\<rparr>) = deref_packet s"
  "deref_packet (s\<lparr>notify_context := x13\<rparr>) = deref_packet s"
  "deref_packet (s\<lparr>write_context := x14\<rparr>) = deref_packet s"
  "deref_packet (s\<lparr>stack_calls := x15\<rparr>) = deref_packet s"
  by ((rule deref_packet_cong; simp)+)

lemma live_addresses_frame [simp]:
  "live_addresses (s\<lparr>peers := x1\<rparr>) = live_addresses s"
  "live_addresses (s\<lparr>connections := x2\<rparr>) = live_addresses s"
  "live_addresses (s\<lparr>available_neighbours := x3\<rparr>) = live_addresses s"
  "live_addresses (s\<lparr>raw_packet_to_notify := x4\<rparr>) = live_addresses s"
  "live_addresses (s\<lparr>raw_packet_to_write := x5\<rparr>) = live_addresses s"
  "live_addresses (s\<lparr>timestamp_offset_ms := x6\<rparr>) = live_addresses s"
  "live_addresses (s\<lparr>handle_peer_map := x7\<rparr>) = live_addresses s"
  "live_addresses (s\<lparr>packets_connections_sent_list := x8\<rparr>) = live_addresses s"
  "live_addresses (s\<lparr>packets_peers_sent_list := x9\<rparr>) = live_addresses s"
  "live_addresses (s\<lparr>broadcast_packets_to_send_list := x10\<rparr>) = live_addresses s"
  "live_addresses (s\<lparr>targeted_packets_to_send_list := x11\<rparr>) = live_addresses s"
  "live_addresses (s\<lparr>rssi_position := x12\<rparr>) = live_addresses s"
  "live_addresses (s\<lparr>notify_context := x13\<rparr>) = live_addresses s"
  "live_addresses (s\<lparr>write_context := x14\<rparr>) = live_addresses s"
  "live_addresses (s\<lparr>stack_calls := x15\<rparr>) = live_addresses s"
  by (simp_all add: live_addresses_def)

lemma peer_known_cong:
  "peers s' = peers s \<Longrightarrow> peer_known s' = peer_known s"
  by (simp add: fun_eq_iff peer_known_def)

lemma relayable_cong: "deref_packet s' = deref_packet s \<Longrightarrow> relayable s' = relayable s"
  by (simp add: fun_eq_iff relayable_def)

text \<open>A search by address in a store that gained a node.\<close>

lemma node_at_Cons [simp]:
  "node_at ((k, a, v) # m) p = (if a = p then Some v else node_at m p)"
  by (simp add: node_at_def)

lemma node_at_put:
  assumes "map_of m k = None" and "a \<notin> fst ` snd ` set m"
  shows "node_at (map_put k (a, v) m) p = (if p = a then Some v else node_at m p)"
  using assms
proof (induction m)
  case Nil
  then show ?case by (simp add: node_at_def)
next
  case (Cons x m)
  then show ?case by (cases x) (auto split: if_splits)
qed

lemma node_at_None: "node_at m p = None \<longleftrightarrow> p \<notin> fst ` snd ` set m"
  by (induction m) (auto simp: node_at_def)

lemma node_at_Some: "node_at m p = Some v \<Longrightarrow> \<exists>k. (k, p, v) \<in> set m"
  by (induction m) (auto simp: node_at_def split: if_splits)

lemma set_live_addresses:
  "set (live_addresses s) =
     insert (announcement_addr s) (fst ` snd ` set (messages s) \<union> fst ` snd ` set (packets s))"
  by (auto simp: live_addresses_def image_image)

lemma deref_stored_message:
  assumes "map_of (messages s) k = None" and "fresh a s"
  shows "deref_packet (s\<lparr>messages := map_put k (a, m) (messages s)\<rparr>) =
    (deref_packet s)(a := Inr (MessagePacket m))"
  using assms
  by (intro ext) (simp add: deref_packet_def message_at_def pass_along_at_def node_at_put
      set_live_addresses cong: option.case_cong)

lemma deref_stored_packet:
  assumes "map_of (packets s) k = None" and "fresh a s"
  shows "deref_packet (s\<lparr>packets := map_put k (a, q) (packets s)\<rparr>) =
    (deref_packet s)(a := Inr (PassAlongPacket q))"
proof -
  have "message_at s a = None"
    using assms(2) by (simp add: message_at_def node_at_None set_live_addresses)
  then show ?thesis
    using assms
    by (intro ext) (simp add: deref_packet_def message_at_def pass_along_at_def node_at_put
        set_live_addresses cong: option.case_cong)
qed

lemma deref_live: "(\<exists>pk. deref_packet s p = Inr pk) \<longleftrightarrow> p \<in> set (live_addresses s)"
proof -
  have "(\<exists>pk. deref_packet s p = Inr pk) \<longleftrightarrow>
      p = announcement_addr s \<or> message_at s p \<noteq> None \<or> pass_along_at s p \<noteq> None"
    by (auto simp: deref_packet_def split: option.splits)
  then show ?thesis
    by (simp add: message_at_def pass_along_at_def node_at_None set_live_addresses del: not_None_eq)
qed

section \<open>Every operation keeps the invariant\<close>

lemmas frame_defs = relayable_def peer_known_def

lemma peers_ok_frame [simp]:
  "peers_ok (s\<lparr>messages := x1\<rparr>) = peers_ok s"
  "peers_ok (s\<lparr>packets := x2\<rparr>) = peers_ok s"
  "peers_ok (s\<lparr>announcement := x3\<rparr>) = peers_ok s"
  "peers_ok (s\<lparr>announcement_addr := x4\<rparr>) = peers_ok s"
  "peers_ok (s\<lparr>connections := x5\<rparr>) = peers_ok s"
  "peers_ok (s\<lparr>available_neighbours := x6\<rparr>) = peers_ok s"
  "peers_ok (s\<lparr>raw_packet_to_notify := x7\<rparr>) = peers_ok s"
  "peers_ok (s\<lparr>raw_packet_to_write := x8\<rparr>) = peers_ok s"
  "peers_ok (s\<lparr>timestamp_offset_ms := x9\<rparr>) = peers_ok s"
  "peers_ok (s\<lparr>handle_peer_map := x10\<rparr>) = peers_ok s"
  "peers_ok (s\<lparr>packets_connections_sent_list := x11\<rparr>) = peers_ok s"
  "peers_ok (s\<lparr>packets_peers_sent_list := x12\<rparr>) = peers_ok s"
  "peers_ok (s\<lparr>broadcast_packets_to_send_list := x13\<rparr>) = peers_ok s"
  "peers_ok (s\<lparr>targeted_packets_to_send_list := x14\<rparr>) = peers_ok s"
  "peers_ok (s\<lparr>rssi_position := x15\<rparr>) = peers_ok s"
  "peers_ok (s\<lparr>notify_context := x16\<rparr>) = peers_ok s"
  "peers_ok (s\<lparr>write_context := x17\<rparr>) = peers_ok s"
  "peers_ok (s\<lparr>stack_calls := x18\<rparr>) = peers_ok s"
  by (simp_all add: peers_ok_def frame_defs)

lemma messages_ok_frame [simp]:
  "messages_ok (s\<lparr>packets := x1\<rparr>) = messages_ok s"
  "messages_ok (s\<lparr>announcement := x2\<rparr>) = messages_ok s"
  "messages_ok (s\<lparr>announcement_addr := x3\<rparr>) = messages_ok s"
  "messages_ok (s\<lparr>connections := x4\<rparr>) = messages_ok s"
  "messages_ok (s\<lparr>available_neighbours := x5\<rparr>) = messages_ok s"
  "messages_ok (s\<lparr>raw_packet_to_notify := x6\<rparr>) = messages_ok s"
  "messages_ok (s\<lparr>raw_packet_to_write := x7\<rparr>) = messages_ok s"
  "messages_ok (s\<lparr>timestamp_offset_ms := x8\<rparr>) = messages_ok s"
  "messages_ok (s\<lparr>handle_peer_map := x9\<rparr>) = messages_ok s"
  "messages_ok (s\<lparr>packets_connections_sent_list := x10\<rparr>) = messages_ok s"
  "messages_ok (s\<lparr>packets_peers_sent_list := x11\<rparr>) = messages_ok s"
  "messages_ok (s\<lparr>broadcast_packets_to_send_list := x12\<rparr>) = messages_ok s"
  "messages_ok (s\<lparr>targeted_packets_to_send_list := x13\<rparr>) = messages_ok s"
  "messages_ok (s\<lparr>rssi_position := x14\<rparr>) = messages_ok s"
  "messages_ok (s\<lparr>notify_context := x15\<rparr>) = messages_ok s"
  "messages_ok (s\<lparr>write_context := x16\<rparr>) = messages_ok s"
  "messages_ok (s\<lparr>stack_calls := x17\<rparr>) = messages_ok s"
  by (simp_all add: messages_ok_def frame_defs)

lemma packets_ok_frame [simp]:
  "packets_ok (s\<lparr>peers := x1\<rparr>) = packets_ok s"
  "packets_ok (s\<lparr>connections := x2\<rparr>) = packets_ok s"
  "packets_ok (s\<lparr>available_neighbours := x3\<rparr>) = packets_ok s"
  "packets_ok (s\<lparr>raw_packet_to_notify := x4\<rparr>) = packets_ok s"
  "packets_ok (s\<lparr>raw_packet_to_write := x5\<rparr>) = packets_ok s"
  "packets_ok (s\<lparr>timestamp_offset_ms := x6\<rparr>) = packets_ok s"
  "packets_ok (s\<lparr>handle_peer_map := x7\<rparr>) = packets_ok s"
  "packets_ok (s\<lparr>packets_connections_sent_list := x8\<rparr>) = packets_ok s"
  "packets_ok (s\<lparr>packets_peers_sent_list := x9\<rparr>) = packets_ok s"
  "packets_ok (s\<lparr>broadcast_packets_to_send_list := x10\<rparr>) = packets_ok s"
  "packets_ok (s\<lparr>targeted_packets_to_send_list := x11\<rparr>) = packets_ok s"
  "packets_ok (s\<lparr>rssi_position := x12\<rparr>) = packets_ok s"
  "packets_ok (s\<lparr>notify_context := x13\<rparr>) = packets_ok s"
  "packets_ok (s\<lparr>write_context := x14\<rparr>) = packets_ok s"
  "packets_ok (s\<lparr>stack_calls := x15\<rparr>) = packets_ok s"
  by (simp_all add: packets_ok_def frame_defs)

lemma connections_ok_frame [simp]:
  "connections_ok (s\<lparr>messages := x1\<rparr>) = connections_ok s"
  "connections_ok (s\<lparr>packets := x2\<rparr>) = connections_ok s"
  "connections_ok (s\<lparr>announcement := x3\<rparr>) = connections_ok s"
  "connections_ok (s\<lparr>announcement_addr := x4\<rparr>) = connections_ok s"
  "connections_ok (s\<lparr>raw_packet_to_notify := x5\<rparr>) = connections_ok s"
  "connections_ok (s\<lparr>raw_packet_to_write := x6\<rparr>) = connections_ok s"
  "connections_ok (s\<lparr>timestamp_offset_ms := x7\<rparr>) = connections_ok s"
  "connections_ok (s\<lparr>packets_connections_sent_list := x8\<rparr>) = connections_ok s"
  "connections_ok (s\<lparr>packets_peers_sent_list := x9\<rparr>) = connections_ok s"
  "connections_ok (s\<lparr>broadcast_packets_to_send_list := x10\<rparr>) = connections_ok s"
  "connections_ok (s\<lparr>targeted_packets_to_send_list := x11\<rparr>) = connections_ok s"
  "connections_ok (s\<lparr>rssi_position := x12\<rparr>) = connections_ok s"
  "connections_ok (s\<lparr>notify_context := x13\<rparr>) = connections_ok s"
  "connections_ok (s\<lparr>write_context := x14\<rparr>) = connections_ok s"
  "connections_ok (s\<lparr>stack_calls := x15\<rparr>) = connections_ok s"
  by (simp_all add: connections_ok_def frame_defs)

lemma queues_ok_frame [simp]:
  "queues_ok (s\<lparr>connections := x1\<rparr>) = queues_ok s"
  "queues_ok (s\<lparr>available_neighbours := x2\<rparr>) = queues_ok s"
  "queues_ok (s\<lparr>timestamp_offset_ms := x3\<rparr>) = queues_ok s"
  "queues_ok (s\<lparr>handle_peer_map := x4\<rparr>) = queues_ok s"
  "queues_ok (s\<lparr>rssi_position := x5\<rparr>) = queues_ok s"
  "queues_ok (s\<lparr>notify_context := x6\<rparr>) = queues_ok s"
  "queues_ok (s\<lparr>write_context := x7\<rparr>) = queues_ok s"
  "queues_ok (s\<lparr>stack_calls := x8\<rparr>) = queues_ok s"
  by (simp_all add: queues_ok_def frame_defs)

lemma call_stack_keeps_ok [simp]: "tracker_ok (call_stack c s) = tracker_ok s"
  by (simp add: tracker_ok_def call_stack_def)

subsection \<open>Connections and neighbours\<close>

lemma map_put_put [simp]: "map_put k v (map_put k w m) = map_put k v m"
  by (induction m) (auto split: if_splits)

lemma set_map_erase [simp]: "set (map_erase k m) = {(k', v) \<in> set m. k' \<noteq> k}"
  by (auto simp: map_erase_def)

lemma set_map_erase_if [simp]: "set (map_erase_if P m) = {(k, v) \<in> set m. \<not> P k v}"
  by (auto simp: map_erase_if_def)

lemma set_map_put_cases: "x \<in> set (map_put k v m) \<Longrightarrow> x = (k, v) \<or> x \<in> set m"
  using set_map_put_subset [of k v m] by blast

lemma update_connection_keeps_ok:
  assumes "tracker_ok s"
    and "connected (f (connection_or_new s h)) \<Longrightarrow> connection_handle (f (connection_or_new s h)) = h"
  shows "tracker_ok (update_connection h f s)"
  using assms
  by (auto simp: tracker_ok_def connections_ok_def peer_known_def update_connection_def
      dest!: set_map_put_cases)

lemma connection_or_new_handle:
  assumes "tracker_ok s" and "connected (connection_or_new s h)"
  shows "connection_handle (connection_or_new s h) = h"
  using assms
  by (auto simp: tracker_ok_def connections_ok_def connection_or_new_def new_BleConnection_def
      dest!: map_of_SomeD split: option.splits)

lemma connectionForConnHandle_keeps_ok:
  "tracker_ok s \<Longrightarrow> tracker_ok (connectionForConnHandle h s)"
  by (simp add: connectionForConnHandle_def update_connection_keeps_ok setConnectionHandle_def)

text \<open>A connection changed without touching its handle or bringing it up.\<close>

lemma adjust_connection_keeps_ok:
  assumes "tracker_ok s" and "\<And>c. connected (f c) \<Longrightarrow> connected c"
    and "\<And>c. connection_handle (f c) = connection_handle c"
  shows "tracker_ok (update_connection h f s)"
  using assms connection_or_new_handle [OF assms(1)] by (intro update_connection_keeps_ok) auto

lemma neighbours_keep_ok:
  "tracker_ok s \<Longrightarrow> map_ok x \<Longrightarrow> tracker_ok (s\<lparr>available_neighbours := x\<rparr>)"
  by (simp add: tracker_ok_def connections_ok_def peer_known_def)

lemma addAvailablePeer_keeps_ok: "tracker_ok s \<Longrightarrow> tracker_ok (addAvailablePeer now a t v r s)"
  unfolding addAvailablePeer_def update_neighbour_def Let_def
  by (rule neighbours_keep_ok) (simp_all add: tracker_ok_def connections_ok_def)

lemma setConnectionStarted_keeps_ok: "tracker_ok s \<Longrightarrow> tracker_ok (setConnectionStarted c s)"
  unfolding setConnectionStarted_def by (rule neighbours_keep_ok) (simp_all add: tracker_ok_def connections_ok_def)

text \<open>
  \<open>reportConnection\<close> first copies the neighbour, whose handle need not be right yet: the states in
  between keep everything but what is said of that one connection.
\<close>

lemma reportConnection_keeps_ok:
  assumes "tracker_ok s"
  shows "tracker_ok (reportConnection now h addr ty s)"
proof -
  define s1 where "s1 = (case map_of (available_neighbours s) (take 6 addr) of
      None \<Rightarrow> s
    | Some item \<Rightarrow> s\<lparr>connections := map_put h item (connections s),
        available_neighbours := map_erase (take 6 addr) (available_neighbours s)\<rparr>)"
  define f where "f = setTimestamp now \<circ> setBleAddress addr ty \<circ> setConnected True \<circ> setConnectionHandle h"
  have f: "connection_handle (f c) = h" for c
    by (simp add: f_def connection_setters)
  have "tracker_ok (update_connection h f s1)"
    using assms unfolding s1_def
    by (auto simp: tracker_ok_def connections_ok_def peer_known_def update_connection_def f
        dest!: set_map_put_cases split: option.split)
  then have "tracker_ok ((update_connection h f s1)\<lparr>available_neighbours :=
      map_erase (take 6 addr) (available_neighbours (update_connection h f s1))\<rparr>)"
    by (rule neighbours_keep_ok) (use \<open>tracker_ok (update_connection h f s1)\<close> in \<open>simp add: tracker_ok_def connections_ok_def\<close>)
  then show ?thesis
    by (simp add: reportConnection_def Let_def s1_def f_def)
qed

lemma reportConnectionWithRole_keeps_ok:
  assumes "tracker_ok s"
  shows "tracker_ok (reportConnectionWithRole now h addr ty r s)"
  using adjust_connection_keeps_ok [OF reportConnection_keeps_ok [OF assms], of "setRole r" h]
  by (auto simp: reportConnectionWithRole_def Let_def setRole_def)

lemma reportDisconnection_keeps_ok:
  assumes "tracker_ok s"
  shows "tracker_ok (reportDisconnection closure h s)"
proof -
  have "tracker_ok (update_connection h (setConnected False \<circ> setNotificationEnabled False) s)"
    using assms by (intro adjust_connection_keeps_ok) (simp_all add: connection_setters)
  then show ?thesis
    by (auto simp: reportDisconnection_def Let_def tracker_ok_def connections_ok_def queues_ok_def
        frame_defs call_stack_def)
qed

subsection \<open>Peers\<close>

text \<open>Peers may be added, and changed as long as their ids stay.\<close>

lemma peers_keep_ok:
  assumes "tracker_ok s" and "peer_id p = k"
  shows "tracker_ok (s\<lparr>peers := map_put k p (peers s)\<rparr>)"
proof -
  let ?s = "s\<lparr>peers := map_put k p (peers s)\<rparr>"
  have known: "peer_known s i \<Longrightarrow> peer_known ?s i" for i
    by (simp add: peer_known_def)
  have "peers_ok ?s"
    using assms by (auto simp: tracker_ok_def peers_ok_def dest!: set_map_put_cases)
  moreover have "messages_ok ?s" "connections_ok ?s" "queues_ok ?s"
    using assms(1) known
    by (fastforce simp: tracker_ok_def messages_ok_def connections_ok_def queues_ok_def relayable_def)+
  ultimately show ?thesis
    using assms(1) by (simp add: tracker_ok_def)
qed

lemma checkSenderInPeers_keeps_ok:
  "tracker_ok s \<Longrightarrow> tracker_ok (checkSenderInPeers k s)"
  by (simp add: checkSenderInPeers_def peers_keep_ok setId_def)

lemma checkSenderInPeers_known [simp]: "peer_known (checkSenderInPeers k s) i \<longleftrightarrow> i = k \<or> peer_known s i"
  by (auto simp: checkSenderInPeers_def peer_known_def)

lemma update_peer_keeps_ok:
  assumes "tracker_ok s" and "\<And>p. peer_id (f p) = peer_id p"
  shows "tracker_ok (update_peer k f s)"
proof (cases "map_of (peers s) k")
  case None
  then show ?thesis using assms by (simp add: update_peer_def)
next
  case (Some p)
  then have "peer_id p = k"
    using assms(1) by (auto simp: tracker_ok_def peers_ok_def dest!: map_of_SomeD)
  then show ?thesis
    using assms Some peers_keep_ok [of s "f p" k] by (simp add: update_peer_def)
qed

lemma update_peer_known [simp]: "peer_known (update_peer k f s) i = peer_known s i"
  by (auto simp: update_peer_def peer_known_def split: option.split)

lemma setConnectionHandleForPeer_keeps_ok:
  "tracker_ok s \<Longrightarrow> peer_known s k \<Longrightarrow> tracker_ok (setConnectionHandleForPeer h k s)"
  by (auto simp: setConnectionHandleForPeer_def tracker_ok_def connections_ok_def peer_known_def
      dest!: set_map_put_cases)

lemma updateOrStorePeerName_keeps_ok:
  assumes "tracker_ok s"
  shows "tracker_ok (updateOrStorePeerName k name ttl h s)"
proof -
  let ?s = "update_peer k (updateName name) (checkSenderInPeers k s)"
  have "tracker_ok ?s"
    using assms by (intro update_peer_keeps_ok checkSenderInPeers_keeps_ok) (simp_all add: updateName_def)
  moreover from this have "tracker_ok (update_peer k (setAnnounceTtl ttl) ?s)"
    by (rule update_peer_keeps_ok) (simp add: setAnnounceTtl_def)
  ultimately show ?thesis
    by (auto simp: updateOrStorePeerName_def Let_def setConnectionHandleForPeer_keeps_ok
        split: option.split)
qed

lemma updateOrStorePeerNoisePublicKey_keeps_ok:
  "tracker_ok s \<Longrightarrow> tracker_ok (updateOrStorePeerNoisePublicKey k key s)"
  unfolding updateOrStorePeerNoisePublicKey_def
  by (intro update_peer_keeps_ok checkSenderInPeers_keeps_ok) (simp_all add: updateNoisePublicKey_def)

lemma possiblyUpdateTimeOffset_keeps_ok:
  "possiblyUpdateTimeOffset now t s = Inr s' \<Longrightarrow> tracker_ok s \<Longrightarrow> tracker_ok s'"
  by (auto simp: possiblyUpdateTimeOffset_def Let_def tracker_ok_def split: if_splits)

subsection \<open>Stores\<close>

lemma distinct_live_message:
  assumes "distinct (live_addresses s)" and "map_of (messages s) k = None" and "fresh a s"
  shows "distinct (live_addresses (s\<lparr>messages := map_put k (a, m) (messages s)\<rparr>))"
  using assms
  by (auto simp: live_addresses_def distinct_map_put_new set_map_put_new)

lemma distinct_live_packet:
  assumes "distinct (live_addresses s)" and "map_of (packets s) k = None" and "fresh a s"
  shows "distinct (live_addresses (s\<lparr>packets := map_put k (a, m) (packets s)\<rparr>))"
  using assms
  by (auto simp: live_addresses_def distinct_map_put_new set_map_put_new)

lemma fresh_not_relayable: "fresh a s \<Longrightarrow> \<not> relayable s a"
  using deref_live [of s a] by (auto simp: relayable_def split: sum.splits)

lemma storeMessage_keeps_ok:
  assumes "tracker_ok s" and "fresh a s" and "packet_type m = type_value type_message"
    and "\<forall>i \<in> set_option (sender_peer m). peer_known s i"
    and "storeMessageAndReturnIfNew a m s = (r, s')"
  shows "tracker_ok s' \<and> (\<forall>q \<in> set_option r. q = a \<and> deref_packet s' q = Inr (MessagePacket m)) \<and>
    peers s' = peers s"
proof (cases "map_of (messages s) (message_id m)")
  case (Some x)
  then show ?thesis using assms by (simp add: storeMessageAndReturnIfNew_def)
next
  case None
  then have s': "s' = s\<lparr>messages := map_put (message_id m) (a, m) (messages s)\<rparr>" and r: "r = Some a"
    using assms(5) by (auto simp: storeMessageAndReturnIfNew_def)
  have d: "deref_packet s' = (deref_packet s)(a := Inr (MessagePacket m))"
    using None assms(2) by (simp add: s' deref_stored_message)
  have "messages_ok s'"
    using assms None by (auto simp: tracker_ok_def messages_ok_def s' peer_known_def set_map_put_new)
  moreover have "packets_ok s'"
    using assms(1,2) None by (auto simp: tracker_ok_def packets_ok_def s' distinct_live_message)
  moreover have "queues_ok s'"
    using assms(1) fresh_not_relayable [OF assms(2)]
    by (auto simp: tracker_ok_def queues_ok_def relayable_def d [unfolded s'] s' peer_known_def
        set_live_addresses set_map_put_new [OF None])
  ultimately show ?thesis
    using assms(1) by (simp add: tracker_ok_def s' r d [unfolded s'])
qed

lemma storePacket_keeps_ok:
  assumes "tracker_ok s" and "fresh a s" and "packet_type p \<noteq> type_value type_message"
    and "packet_ttl p > 0" and "storePacketAndReturnIfNew std_hash a p s = (r, s')"
  shows "tracker_ok s' \<and> (\<forall>q \<in> set_option r. q = a \<and> deref_packet s' q = Inr (PassAlongPacket p)) \<and>
    peers s' = peers s"
proof (cases "map_of (packets s) (getPacketHash std_hash p)")
  case (Some x)
  then show ?thesis using assms by (simp add: storePacketAndReturnIfNew_def)
next
  case None
  then have s': "s' = s\<lparr>packets := map_put (getPacketHash std_hash p) (a, p) (packets s)\<rparr>"
    and r: "r = Some a"
    using assms(5) by (auto simp: storePacketAndReturnIfNew_def)
  have d: "deref_packet s' = (deref_packet s)(a := Inr (PassAlongPacket p))"
    using None assms(2) by (simp add: s' deref_stored_packet)
  have "packets_ok s'"
    using assms(1,2,3,4) None
    by (auto simp: tracker_ok_def packets_ok_def s' distinct_live_packet set_map_put_new)
  moreover have "queues_ok s'"
    using assms(1) fresh_not_relayable [OF assms(2)]
    by (auto simp: tracker_ok_def queues_ok_def relayable_def d [unfolded s'] s' peer_known_def
        set_live_addresses set_map_put_new [OF None])
  ultimately show ?thesis
    using assms(1) by (simp add: tracker_ok_def s' r d [unfolded s'])
qed

subsection \<open>Queues\<close>

lemma enqueueBroadcastPacket_keeps_ok:
  assumes "tracker_ok s" and "enqueueBroadcastPacket p s = Inr s'"
  shows "tracker_ok s'"
  using assms
  by (auto simp: enqueueBroadcastPacket_def tracker_ok_def queues_ok_def frame_defs split: if_splits)

lemma note_origin_keeps_ok:
  assumes "tracker_ok s" and "p \<in> set (live_addresses s)" and "peer_known s k"
  shows "tracker_ok (s\<lparr>packets_connections_sent_list := multi_emplace p cp (packets_connections_sent_list s),
    packets_peers_sent_list := multi_emplace p k (packets_peers_sent_list s)\<rparr>)"
  using assms by (auto simp: tracker_ok_def queues_ok_def frame_defs)

lemma enqueueBroadcastPacketFrom_keeps_ok:
  assumes "tracker_ok s" and "peer_known s k" and "enqueueBroadcastPacketFrom p cp k s = Inr s'"
  shows "tracker_ok s'"
proof -
  have "p \<in> set (live_addresses s)"
    using assms(3) deref_live [of s p] by (auto simp: enqueueBroadcastPacketFrom_def enqueueBroadcastPacket_def)
  then show ?thesis
    using assms enqueueBroadcastPacket_keeps_ok [OF note_origin_keeps_ok]
    unfolding enqueueBroadcastPacketFrom_def by blast
qed

lemma enqueueTargetedPacket_keeps_ok:
  assumes "tracker_ok s" and "enqueueTargetedPacket (announcement_addr s) h s = Inr s'"
  shows "tracker_ok s'"
proof -
  have "announcement_addr (connectionForConnHandle h s) = announcement_addr s"
    by (simp add: connectionForConnHandle_def update_connection_def)
  then show ?thesis
    using assms connectionForConnHandle_keeps_ok [OF assms(1), of h]
    by (auto simp: enqueueTargetedPacket_def Let_def tracker_ok_def queues_ok_def frame_defs
        split: if_splits)
qed

subsection \<open>Receiving\<close>

lemma message_over_type [simp]: "packet_type (message_over b) = packet_type b"
  by (simp add: new_packet_defs)

definition stays :: "(message_parse \<Rightarrow> bool) \<Rightarrow> field_parser \<Rightarrow> bool" where
  "stays I f \<longleftrightarrow> (\<forall>st. I st \<longrightarrow> I (snd (f st)))"

text \<open>The fields of the payload: neither the packet header nor the pointer to the sender's peer.\<close>

definition payload_setter :: "(bytes \<Rightarrow> message \<Rightarrow> message) \<Rightarrow> bool" where
  "payload_setter f \<longleftrightarrow> (\<forall>d m. packet_base.truncate (f d m) = packet_base.truncate m \<and>
     sender_peer (f d m) = sender_peer m)"

lemma payload_setters [simp]:
  "payload_setter setMessageId" "payload_setter setSenderNickname" "payload_setter set_any_content"
  "payload_setter setOriginalSenderNickname" "payload_setter setRecipientNickname"
  "payload_setter addMention" "payload_setter setChannel"
  by (simp_all add: payload_setter_def message_setters set_any_content_def packet_base.defs)

lemma stays_then: "stays I f \<Longrightarrow> stays I g \<Longrightarrow> stays I (parse_then f g)"
  by (simp add: stays_def parse_then_def case_prod_beta)

lemma stays_when: "stays I f \<Longrightarrow> stays I (parse_when c f)"
  by (auto simp: stays_def parse_when_def)

text \<open>
  What every step of the message parser keeps, the whole parser keeps.
\<close>

locale parse_invariant =
  fixes I :: "message_parse \<Rightarrow> bool"
  assumes I_reader: "I st \<Longrightarrow> I (st\<lparr>mp_reader := r\<rparr>)"
    and I_head: "I st \<Longrightarrow>
      I (st\<lparr>mp_message := setMessageTimestamp t (setMessageFlags flags (mp_message st))\<rparr>)"
    and I_field: "payload_setter f \<Longrightarrow> I st \<Longrightarrow> I (st\<lparr>mp_message := f d (mp_message st)\<rparr>)"
    and I_peer: "I st \<Longrightarrow> I (st\<lparr>mp_message := setSenderPeer k (mp_message st),
      mp_tracker := checkSenderInPeers k (mp_tracker st)\<rparr>)"
begin

lemma take_field_stays: "payload_setter f \<Longrightarrow> I st \<Longrightarrow> I (snd (take_field f n r st))"
  using I_field [of f "st\<lparr>mp_reader := r'\<rparr>" for r'] I_reader
  by (auto simp: take_field_def split: prod.split option.split)

lemma strings_stay:
  "payload_setter f \<Longrightarrow> stays I (parse_short_string f)"
  "payload_setter f \<Longrightarrow> stays I (parse_long_string f)"
  by (auto simp: stays_def parse_short_string_def parse_long_string_def intro: take_field_stays
      split: prod.split)

lemma head_stays: "stays I parse_head"
  using I_head [of "st\<lparr>mp_reader := r\<rparr>" for st r] I_reader
  by (auto simp: stays_def parse_head_def split: prod.split)

lemma sender_peer_stays: "stays I parse_sender_peer"
  using I_peer [of "st\<lparr>mp_reader := r\<rparr>" for st r] I_reader
  by (auto simp: stays_def parse_sender_peer_def Let_def split: prod.split option.split)

lemma mentions_stay: "stays I parse_mentions"
proof -
  have "stays I (parse_mentions_loop n)" for n
  proof (induction n)
    case (Suc n)
    then show ?case
      using stays_then [OF strings_stay(1) Suc] by (simp add: stays_def)
  qed (simp add: stays_def)
  then show ?thesis
    using I_reader by (auto simp: stays_def parse_mentions_def split: prod.split)
qed

lemma message_parser_stays: "stays I message_parser"
  unfolding message_parser_def
  by (intro stays_then stays_when head_stays sender_peer_stays mentions_stay strings_stay
      payload_setters)

lemma processMessage_stays:
  assumes "processMessage m data s = (ok, m', s')"
    and "I \<lparr>mp_reader = new_BinaryReader 0 data, mp_message = m, mp_tracker = s\<rparr>"
  shows "\<exists>r. I \<lparr>mp_reader = r, mp_message = m', mp_tracker = s'\<rparr>"
proof (cases "length data < 13")
  case True
  then show ?thesis using assms by (auto simp: processMessage_def)
next
  case False
  let ?st = "snd (message_parser \<lparr>mp_reader = new_BinaryReader 0 data, mp_message = m, mp_tracker = s\<rparr>)"
  have "I ?st"
    using message_parser_stays assms(2) by (simp add: stays_def)
  moreover have "?st = \<lparr>mp_reader = mp_reader ?st, mp_message = m', mp_tracker = s'\<rparr>"
    using assms(1) False by (auto simp: processMessage_def split: prod.splits)
  ultimately show ?thesis by metis
qed

end

text \<open>
  The parser changes nothing of the tracker but its peers, and no field of the packet header.
\<close>

definition peers_only :: "tracker \<Rightarrow> packet_base \<Rightarrow> message_parse \<Rightarrow> bool" where
  "peers_only s b st \<longleftrightarrow>
     mp_tracker st = s\<lparr>peers := peers (mp_tracker st)\<rparr> \<and> packet_base.truncate (mp_message st) = b \<and>
     (\<forall>k. peer_known s k \<longrightarrow> peer_known (mp_tracker st) k)"

text \<open>It keeps the tracker's invariant, and points only to peers that are known.\<close>

definition senders_known :: "message_parse \<Rightarrow> bool" where
  "senders_known st \<longleftrightarrow> tracker_ok (mp_tracker st) \<and>
     (\<forall>i \<in> set_option (sender_peer (mp_message st)). peer_known (mp_tracker st) i)"

lemma checkSenderInPeers_only_peers:
  "checkSenderInPeers k s = s\<lparr>peers := peers (checkSenderInPeers k s)\<rparr>"
  by (simp add: checkSenderInPeers_def)

lemma checkSenderInPeers_peers_only:
  assumes "t = s\<lparr>peers := peers t\<rparr>"
  shows "checkSenderInPeers k t = s\<lparr>peers := peers (checkSenderInPeers k t)\<rparr>"
proof -
  have "checkSenderInPeers k t = t\<lparr>peers := peers (checkSenderInPeers k t)\<rparr>"
    by (rule checkSenderInPeers_only_peers)
  also have "\<dots> = (s\<lparr>peers := peers t\<rparr>)\<lparr>peers := peers (checkSenderInPeers k t)\<rparr>"
    using assms by simp
  finally show ?thesis by simp
qed

interpretation only_peers: parse_invariant "peers_only s b" for s b
  by unfold_locales
    (auto simp: peers_only_def payload_setter_def message_setters packet_base.defs
      intro: checkSenderInPeers_peers_only)

interpretation known_senders: parse_invariant senders_known
  by unfold_locales
    (auto simp: senders_known_def payload_setter_def message_setters checkSenderInPeers_keeps_ok)

lemma processMessage_frame:
  assumes "processMessage m data s = (ok, m', s')"
  shows "s' = s\<lparr>peers := peers s'\<rparr> \<and> packet_base.truncate m' = packet_base.truncate m \<and>
    (\<forall>k. peer_known s k \<longrightarrow> peer_known s' k)"
  using only_peers.processMessage_stays [OF assms, of s "packet_base.truncate m"]
  by (auto simp: peers_only_def)

lemma processMessage_known:
  assumes "tracker_ok s" and "sender_peer m = None" and "processMessage m data s = (ok, m', s')"
  shows "tracker_ok s' \<and> (\<forall>i \<in> set_option (sender_peer m'). peer_known s' i)"
  using known_senders.processMessage_stays [OF assms(3)] assms(1,2)
  by (auto simp: senders_known_def)

lemma live_checkSenderInPeers [simp]: "live_addresses (checkSenderInPeers k s) = live_addresses s"
  by (subst checkSenderInPeers_only_peers) simp

lemma truncate_type: "packet_base.truncate m = packet_base.truncate m' \<Longrightarrow> packet_type m = packet_type m'"
  by (simp add: packet_base.defs)

lemma receive_message_keeps_ok:
  assumes "tracker_ok s" and "fresh a s" and "receive_message a cp p s = Inr s'"
  shows "tracker_ok s'"
proof -
  define s1 where "s1 = checkSenderInPeers (parsed_sender p) s"
  obtain ok m s2 where pm: "processMessage (parsed_message p) (parsed_payload p) s1 = (ok, m, s2)"
    by (metis prod_cases3)
  have s1: "tracker_ok s1" "peer_known s1 (parsed_sender p)"
    using assms(1) by (simp_all add: s1_def checkSenderInPeers_keeps_ok)
  have none: "sender_peer (parsed_message p) = None"
    by (simp add: parsed_message_def new_packet_defs)
  have ok2: "tracker_ok s2" and sender: "\<forall>i \<in> set_option (sender_peer m). peer_known s2 i"
    using processMessage_known [OF s1(1) none pm] by auto
  have known: "peer_known s2 (parsed_sender p)"
    and type: "packet_type m = packet_type (parsed_message p)"
    and s2: "s2 = s1\<lparr>peers := peers s2\<rparr>"
    using processMessage_frame [OF pm] s1(2) truncate_type by auto
  have type4: "packet_type m = type_value type_message"
    using type by (simp add: parsed_message_def new_packet_defs)
  have "live_addresses s2 = live_addresses s1"
    by (subst s2) simp
  then have fresh2: "fresh a s2"
    using assms(2) by (simp add: s1_def)
  obtain r s3 where store: "storeMessageAndReturnIfNew a m s2 = (r, s3)"
    by fastforce
  from storeMessage_keeps_ok [OF ok2 fresh2 type4 sender store] have "tracker_ok s3"
    and "peers s3 = peers s2" by auto
  then show ?thesis
    using assms(3) pm ok2 store known enqueueBroadcastPacketFrom_keeps_ok [of s3 "parsed_sender p"]
    by (auto simp: receive_message_def s1_def [symmetric] Let_def peer_known_def
        split: if_splits option.splits)
qed

lemma pass_packet_along_keeps_ok:
  assumes "tracker_ok s" and "fresh a s" and "parsed_type p \<noteq> type_value type_message"
    and "pass_packet_along std_hash a cp p s = Inr s'"
  shows "tracker_ok s'"
proof (cases "parsed_ttl p < 1")
  case True
  then show ?thesis using assms by (simp add: pass_packet_along_def)
next
  case False
  define s1 where "s1 = checkSenderInPeers (parsed_sender p) s"
  obtain r s3 where store: "storePacketAndReturnIfNew std_hash a (parsed_pass_along p) s1 = (r, s3)"
    by fastforce
  have "tracker_ok s1" "fresh a s1" "packet_type (parsed_pass_along p) \<noteq> type_value type_message"
    "packet_ttl (parsed_pass_along p) > 0"
    using assms False
    by (simp_all add: s1_def checkSenderInPeers_keeps_ok parsed_pass_along_def new_packet_defs packet_setters
        word_less_1 word_gt_0)
  from storePacket_keeps_ok [OF this store] have "tracker_ok s3" "peers s3 = peers s1"
    by auto
  moreover have "peer_known s1 (parsed_sender p)"
    by (simp add: s1_def)
  ultimately show ?thesis
    using assms(4) False store enqueueBroadcastPacketFrom_keeps_ok [of s3 "parsed_sender p"]
    by (auto simp: pass_packet_along_def s1_def [symmetric] Let_def peer_known_def split: option.splits)
qed

lemma live_receive_announce:
  assumes "receive_announce now h p s = Inr s'"
  shows "live_addresses s' = live_addresses s"
proof -
  have "live_addresses (update_peer k f s) = live_addresses s"
    and "live_addresses (setConnectionHandleForPeer i k s) = live_addresses s" for k f s i
    by (simp_all add: update_peer_def setConnectionHandleForPeer_def split: option.split)
  then have "live_addresses (updateOrStorePeerName k name ttl h s) = live_addresses s" for k name ttl h
    by (simp add: updateOrStorePeerName_def Let_def split: option.split)
  then show ?thesis
    using assms by (auto simp: receive_announce_def possiblyUpdateTimeOffset_def Let_def split: if_splits)
qed

lemma dispatch_packet_keeps_ok:
  assumes "tracker_ok s" and "fresh a s" and "dispatch_packet std_hash now a cp h p s = Inr s'"
  shows "tracker_ok s'"
proof (cases "type_of_value (parsed_type p)")
  case None
  then show ?thesis using assms by (simp add: dispatch_packet_def)
next
  case (Some t)
  then have t: "parsed_type p = type_value t" by (simp add: type_of_value_Some)
  consider "t = noiseIdentityAnnounce" | "t = type_message" | "t = type_announce"
    | "t \<notin> {noiseIdentityAnnounce, type_message, type_announce}" by blast
  then show ?thesis
  proof cases
    case 1
    then show ?thesis
      using assms Some updateOrStorePeerNoisePublicKey_keeps_ok by (auto simp: dispatch_packet_def)
  next
    case 2
    then show ?thesis
      using assms Some receive_message_keeps_ok by (simp add: dispatch_packet_def)
  next
    case 3
    then obtain s1 where s1: "receive_announce now h p s = Inr s1"
      and s': "pass_packet_along std_hash a cp p s1 = Inr s'"
      using assms(3) Some by (auto simp: dispatch_packet_def)
    have "tracker_ok s1"
      using s1 assms(1) possiblyUpdateTimeOffset_keeps_ok updateOrStorePeerName_keeps_ok
      unfolding receive_announce_def by blast
    then show ?thesis
      using s' 3 t live_receive_announce [OF s1] assms(2) pass_packet_along_keeps_ok [of s1 a p] by simp
  next
    case 4
    then show ?thesis
      using assms Some t type_value_inj [of t type_message] pass_packet_along_keeps_ok [of s a p]
      by (auto simp: dispatch_packet_def split: if_splits)
  qed
qed

lemma processWrite_keeps_ok:
  assumes "tracker_ok s" and "fresh a s"
    and "processWrite zlib std_hash now a cp h offset buffer s = Inr s'"
  shows "tracker_ok s'"
  using assms dispatch_packet_keeps_ok by (auto simp: processWrite_def split: option.splits)

subsection \<open>Announcing and sending\<close>

lemma deref_new_announcement:
  "deref_packet (s\<lparr>announcement := x\<rparr>) =
     (deref_packet s)(announcement_addr s := Inr (AnnouncePacket x))"
  by (rule ext) (simp add: deref_packet_def message_at_def pass_along_at_def cong: option.case_cong)

lemma announcement_keeps_ok:
  assumes "tracker_ok s" and "packet_type x = packet_type (announcement s)"
    and "packet_ttl x > 0 \<or> packet_ttl x = packet_ttl (announcement s)"
  shows "tracker_ok (s\<lparr>announcement := x\<rparr>)"
proof -
  have "relayable s p \<Longrightarrow> relayable (s\<lparr>announcement := x\<rparr>) p" for p
    using assms(3) by (auto simp: relayable_def deref_new_announcement) (auto simp: deref_packet_def)
  then have "queues_ok (s\<lparr>announcement := x\<rparr>)"
    using assms(1) by (simp add: tracker_ok_def queues_ok_def peer_known_def set_live_addresses)
  then show ?thesis
    using assms(1,2) by (simp add: tracker_ok_def packets_ok_def live_addresses_def)
qed

lemma setupAnnounceIfNeeded_keeps_ok: "tracker_ok s \<Longrightarrow> tracker_ok (setupAnnounceIfNeeded l s)"
  by (auto simp: setupAnnounceIfNeeded_def announce_ttl_def packet_setters intro!: announcement_keeps_ok)

lemma announce_loop_keeps_ok:
  assumes "announce_loop clock cs i s = Inr s'" and "tracker_ok s"
  shows "tracker_ok s'"
  using assms
proof (induction cs arbitrary: i s)
  case (Cons kc cs)
  obtain key c where kc: "kc = (key, c)" by (cases kc)
  define s1 where "s1 = s\<lparr>announcement := setPacketTimestamp (getTimeMs (clock i) s) (announcement s)\<rparr>"
  have "tracker_ok s1"
    using Cons.prems(2) unfolding s1_def by (rule announcement_keeps_ok) (simp_all add: packet_setters)
  moreover have "announcement_addr s1 = announcement_addr s"
    by (simp add: s1_def)
  ultimately show ?case
    using Cons enqueueTargetedPacket_keeps_ok [of s1 "connection_handle c"]
    by (auto simp: kc Let_def s1_def [symmetric] split: if_splits)
qed simp

lemma announceToConnections_keeps_ok:
  "announceToConnections l clock s = Inr s' \<Longrightarrow> tracker_ok s \<Longrightarrow> tracker_ok s'"
  using announce_loop_keeps_ok setupAnnounceIfNeeded_keeps_ok
  unfolding announceToConnections_def Let_def by blast

lemma raw_packets_keep_ok:
  "tracker_ok s \<Longrightarrow> multi_ok x \<Longrightarrow> tracker_ok (s\<lparr>raw_packet_to_notify := x\<rparr>)"
  "tracker_ok s \<Longrightarrow> multi_ok x \<Longrightarrow> tracker_ok (s\<lparr>raw_packet_to_write := x\<rparr>)"
  by (auto simp: tracker_ok_def queues_ok_def frame_defs)

lemma contexts_keep_ok [simp]:
  "tracker_ok (s\<lparr>notify_context := x\<rparr>) = tracker_ok s"
  "tracker_ok (s\<lparr>write_context := x\<rparr>) = tracker_ok s"
  by (simp_all add: tracker_ok_def)

lemma raw_packets_ok:
  "tracker_ok s \<Longrightarrow> multi_ok (raw_packet_to_notify s)"
  "tracker_ok s \<Longrightarrow> multi_ok (raw_packet_to_write s)"
  by (simp_all add: tracker_ok_def queues_ok_def)

lemma setHasData_keeps_ok: "tracker_ok s \<Longrightarrow> tracker_ok (update_connection k (setHasData b) s)"
  by (rule adjust_connection_keeps_ok) (simp_all add: setHasData_def)

lemma SendPacketToConnection_keeps_ok:
  assumes "SendPacketToConnection p cp s = Inr s'" and "tracker_ok s"
  shows "tracker_ok s'"
proof -
  define s1 where "s1 = (case cp of ConnectionNode k \<Rightarrow> update_connection k (setHasData True) s | LocalCopy a \<Rightarrow> s)"
  have "tracker_ok s1"
    using assms(2) by (simp add: s1_def setHasData_keeps_ok split: connection_ptr.split)
  then show ?thesis
    using assms(1)
    by (auto simp: SendPacketToConnection_def Let_def s1_def [symmetric] raw_packets_keep_ok
        raw_packets_ok split: if_splits)
qed

lemma note_sent_keeps_ok: "tracker_ok s \<Longrightarrow> tracker_ok (note_sent p cp s)"
  by (simp add: note_sent_def tracker_ok_def queues_ok_def frame_defs)

lemma targeted_loop_keeps_ok:
  "targeted_loop ts removed s = Inr (removed', s') \<Longrightarrow> tracker_ok s \<Longrightarrow> tracker_ok s'"
proof (induction ts arbitrary: removed s)
  case (Cons t ts)
  obtain p cp where t: "t = (p, cp)" by (cases t)
  have "tracker_ok (note_sent p cp s1)" if "SendPacketToConnection p cp s = Inr s1" for s1
    using note_sent_keeps_ok SendPacketToConnection_keeps_ok [OF that Cons.prems(2)] .
  then show ?case
    using Cons by (auto simp: t split: if_splits)
qed simp

lemma broadcast_packet_keeps_ok:
  assumes "broadcast_packet p s = Inr s'" and "tracker_ok s"
  shows "tracker_ok s'"
  using assms unfolding broadcast_packet_def
  by (rule fold_result_invariant)
    (auto simp: broadcast_to_def split: if_splits intro: note_sent_keeps_ok SendPacketToConnection_keeps_ok)

lemma multi_ok_filter: "multi_ok m \<Longrightarrow> multi_ok (filter P m)"
  by (simp add: multi_ok_def sorted_filter)

lemma shorter_queues_keep_ok:
  "tracker_ok s \<Longrightarrow> tracker_ok (s\<lparr>targeted_packets_to_send_list := filter P (targeted_packets_to_send_list s)\<rparr>)"
  "tracker_ok s \<Longrightarrow> tracker_ok (s\<lparr>broadcast_packets_to_send_list := filter Q (broadcast_packets_to_send_list s)\<rparr>)"
  by (auto simp: tracker_ok_def queues_ok_def frame_defs multi_ok_filter)

lemma sendPackets_keeps_ok:
  assumes "sendPackets s = Inr s'" and "tracker_ok s"
  shows "tracker_ok s'"
proof (cases "broadcast_packets_to_send_list s = [] \<and> targeted_packets_to_send_list s = []")
  case True
  then show ?thesis using assms by (simp add: sendPackets_def)
next
  case False
  then obtain removed s1 s3 where
    s1: "targeted_loop (targeted_packets_to_send_list s) [] s = Inr (removed, s1)"
    and s3: "fold_result broadcast_packet (broadcast_packets_to_send_list s1)
      (s1\<lparr>targeted_packets_to_send_list :=
        filter (\<lambda>(p, cp). p \<notin> set removed) (targeted_packets_to_send_list s1)\<rparr>) = Inr s3"
    and s': "s' = s3\<lparr>broadcast_packets_to_send_list :=
        filter (\<lambda>p. p \<notin> set (broadcast_packets_to_send_list s1)) (broadcast_packets_to_send_list s3)\<rparr>"
    using assms(1) by (auto simp: sendPackets_def Let_def split: prod.splits)
  have "tracker_ok s1"
    using targeted_loop_keeps_ok [OF s1 assms(2)] .
  then have "tracker_ok s3"
    using fold_result_invariant [OF s3, of tracker_ok] broadcast_packet_keeps_ok shorter_queues_keep_ok(1)
    by blast
  then show ?thesis
    unfolding s' by (rule shorter_queues_keep_ok)
qed

subsection \<open>Raw packets, signal strength and duplicates\<close>

lemma touch_connection_keeps_ok: "tracker_ok s \<Longrightarrow> tracker_ok (update_connection h id s)"
  by (rule adjust_connection_keeps_ok) simp_all

lemma erase_first_ok:
  assumes "multi_ok q"
  shows "multi_ok (erase_first h q)"
proof -
  let ?t = "takeWhile (\<lambda>(h', v). h' < h) q"
  have "sorted (map fst (?t @ multi_lower h q))"
    using assms by (simp add: multi_ok_def multi_lower_def)
  then show ?thesis
    by (cases "multi_lower h q") (auto simp: multi_ok_def erase_first_def sorted_append)
qed

lemma notifyRawPacket_keeps_ok:
  assumes "notifyRawPacket ret h s = Inr s'" and "tracker_ok s"
  shows "tracker_ok s'"
  using assms
  by (auto simp: notifyRawPacket_def Let_def touch_connection_keeps_ok raw_packets_keep_ok
      raw_packets_ok erase_first_ok split: list.splits if_splits)

lemma writeRawPacket_keeps_ok:
  assumes "writeRawPacket ret h s = Inr s'" and "tracker_ok s"
  shows "tracker_ok s'"
  using assms
  by (auto simp: writeRawPacket_def Let_def touch_connection_keeps_ok raw_packets_keep_ok
      raw_packets_ok erase_first_ok split: list.splits if_splits)

lemma requestNextRssi_keeps_ok:
  "requestNextRssi restart s = Inr (again, s') \<Longrightarrow> tracker_ok s \<Longrightarrow> tracker_ok s'"
  by (auto simp: requestNextRssi_def Let_def tracker_ok_def call_stack_def
      split: rssi_iterator.splits)

lemma duplicate_loop_keeps_ok:
  "tracker_ok s \<Longrightarrow> tracker_ok (snd (duplicate_loop m reversed s))"
  by (induction m reversed s rule: duplicate_loop.induct) (simp_all add: Let_def touch_connection_keeps_ok)

lemma getAnyDuplicateHandle_keeps_ok: "tracker_ok s \<Longrightarrow> tracker_ok (snd (getAnyDuplicateHandle s))"
  by (simp add: getAnyDuplicateHandle_def duplicate_loop_keeps_ok)

subsection \<open>Clean-up\<close>

lemma erase_if_Inr:
  assumes "erase_if P xs = Inr ys"
  shows "ys = filter (\<lambda>x. P x = Inr False) xs \<and> (\<forall>x \<in> set xs. \<exists>b. P x = Inr b)"
  using assms by (induction xs arbitrary: ys) auto

lemma node_at_filter:
  assumes "node_at m p = Some v" and "\<And>k. Q (k, p, v)"
  shows "node_at (filter Q m) p = Some v"
  using assms(1)
proof (induction m)
  case (Cons x m)
  obtain k a w where "x = (k, a, w)" by (cases x)
  then show ?case using Cons assms(2) by (auto split: if_splits)
qed (simp add: node_at_def)

lemma node_at_filter_None: "node_at m p = None \<Longrightarrow> node_at (filter Q m) p = None"
  by (auto simp: node_at_None)

text \<open>An object that is not stale is where it was.\<close>

lemma deref_after_cleanup:
  assumes "deref_packet s p = Inr pk"
    and "\<not> getPacketTimestampMs (base pk) + ten_minutes_in_ms < now"
    and "messages s' = map_erase_if (\<lambda>k (a, m). message_stale now m) (messages s)"
    and "packets s' = map_erase_if (\<lambda>k (a, p). message_stale now p) (packets s)"
    and "announcement s' = announcement s" and "announcement_addr s' = announcement_addr s"
  shows "deref_packet s' p = Inr pk"
proof -
  have ms: "message_at s p = Some m \<Longrightarrow> \<not> message_stale now m \<Longrightarrow> message_at s' p = Some m" for m
    unfolding message_at_def assms(3) map_erase_if_def by (rule node_at_filter) auto
  have mn: "message_at s p = None \<Longrightarrow> message_at s' p = None"
    unfolding message_at_def assms(3) map_erase_if_def by (rule node_at_filter_None)
  have ps: "pass_along_at s p = Some q \<Longrightarrow> \<not> message_stale now q \<Longrightarrow> pass_along_at s' p = Some q" for q
    unfolding pass_along_at_def assms(4) map_erase_if_def by (rule node_at_filter) auto
  show ?thesis
    using assms(1,2,5,6) ms mn ps
    by (auto simp: deref_packet_def message_stale_def getPacketTimestampMs_def split: if_splits option.splits)
qed

lemma cleanup_live_distinct:
  assumes "distinct (live_addresses s)"
    and "messages s' = map_erase_if M (messages s)" and "packets s' = map_erase_if Q (packets s)"
    and "announcement_addr s' = announcement_addr s"
  shows "distinct (live_addresses s')"
  using assms by (auto simp: live_addresses_def map_erase_if_def distinct_map_filter)

lemma cleanupStaleItems_keeps_ok:
  assumes "cleanupStaleItems now_us s = Inr s'" and "tracker_ok s"
  shows "tracker_ok s'"
proof -
  define now where "now = getTimeMs now_us s"
  obtain sent peers_sent broadcast targeted rssi where
    sent: "erase_if (packet_connection_stale s now) (packets_connections_sent_list s) = Inr sent"
    and peers_sent: "erase_if (\<lambda>(p, k). packet_stale s now p) (packets_peers_sent_list s) = Inr peers_sent"
    and broadcast: "erase_if (packet_stale s now) (broadcast_packets_to_send_list s) = Inr broadcast"
    and targeted: "erase_if (packet_connection_stale s now) (targeted_packets_to_send_list s) = Inr targeted"
    and s': "s' = s\<lparr>packets_connections_sent_list := sent, packets_peers_sent_list := peers_sent,
        broadcast_packets_to_send_list := broadcast, targeted_packets_to_send_list := targeted,
        connections := map_erase_if (\<lambda>h c. connection_stale now c) (connections s),
        available_neighbours := map_erase_if (\<lambda>a c. connection_stale now c) (available_neighbours s),
        messages := map_erase_if (\<lambda>k (a, m). message_stale now m) (messages s),
        packets := map_erase_if (\<lambda>k (a, p). message_stale now p) (packets s),
        rssi_position := rssi\<rparr>"
    using assms(1) by (auto simp: cleanupStaleItems_def Let_def now_def)
  have kept: "deref_packet s' p = deref_packet s p" if stale: "packet_stale s now p = Inr False" for p
  proof -
    obtain pk where "deref_packet s p = Inr pk"
      "\<not> getPacketTimestampMs (base pk) + ten_minutes_in_ms < now"
      using stale by (auto simp: packet_stale_def)
    moreover from this have "deref_packet s' p = Inr pk"
      by (rule deref_after_cleanup) (simp_all add: s')
    ultimately show ?thesis by simp
  qed
  have live: "p \<in> set (live_addresses s')" if "packet_stale s now p = Inr False" for p
    using that kept [OF that] deref_live [of s' p] by (auto simp: packet_stale_def)
  have "queues_ok s'"
    unfolding queues_ok_def
  proof (intro conjI)
    show "\<forall>p \<in> set (broadcast_packets_to_send_list s'). relayable s' p"
      using assms(2) erase_if_Inr [OF broadcast] kept
      by (auto simp: tracker_ok_def queues_ok_def relayable_def s')
    show "\<forall>(p, k) \<in> set (packets_peers_sent_list s'). p \<in> set (live_addresses s') \<and> peer_known s' k"
      using assms(2) erase_if_Inr [OF peers_sent] live
      by (auto simp: tracker_ok_def queues_ok_def peer_known_def s')
  qed (use assms(2) erase_if_Inr [OF sent] erase_if_Inr [OF peers_sent] erase_if_Inr [OF targeted]
      in \<open>auto simp: tracker_ok_def queues_ok_def s' multi_ok_filter\<close>)
  moreover have "packets_ok s'"
    using assms(2) cleanup_live_distinct [of s s'] by (auto simp: tracker_ok_def packets_ok_def s')
  moreover have "peers_ok s'" "messages_ok s'" "connections_ok s'"
    using assms(2) by (auto simp: tracker_ok_def peers_ok_def messages_ok_def connections_ok_def s' peer_known_def)
  ultimately show ?thesis by (simp add: tracker_ok_def)
qed

lemmas operations_keep_ok =
  connectionForConnHandle_keeps_ok adjust_connection_keeps_ok addAvailablePeer_keeps_ok
  setConnectionStarted_keeps_ok reportConnection_keeps_ok reportConnectionWithRole_keeps_ok
  reportDisconnection_keeps_ok processWrite_keeps_ok announceToConnections_keeps_ok
  sendPackets_keeps_ok notifyRawPacket_keeps_ok writeRawPacket_keeps_ok requestNextRssi_keeps_ok
  getAnyDuplicateHandle_keeps_ok cleanupStaleItems_keeps_ok

end
