(* ===== verification/Relay.thy ===== *)
theory Relay
  imports Invariant
begin

text \<open>
  What \<open>sendPackets\<close> achieves: which connections a queued packet goes to, that none gets it twice or
  back, and where the search for earlier transmissions goes wrong.
\<close>

section \<open>What sending leaves alone\<close>

text \<open>Sending changes the raw queues, the data flags of connections and the notes of what was sent.\<close>

definition same_but_sent :: "tracker \<Rightarrow> tracker \<Rightarrow> bool" where
  "same_but_sent s s' \<longleftrightarrow>
     peers s' = peers s \<and> messages s' = messages s \<and> packets s' = packets s \<and>
     announcement s' = announcement s \<and> announcement_addr s' = announcement_addr s \<and>
     broadcast_packets_to_send_list s' = broadcast_packets_to_send_list s \<and>
     targeted_packets_to_send_list s' = targeted_packets_to_send_list s \<and>
     packets_peers_sent_list s' = packets_peers_sent_list s \<and>
     map (\<lambda>(h, c). (h, setHasData False c)) (connections s') =
       map (\<lambda>(h, c). (h, setHasData False c)) (connections s)"

lemma same_but_sent_refl [simp]: "same_but_sent s s"
  by (simp add: same_but_sent_def)

lemma same_but_sent_trans: "same_but_sent s t \<Longrightarrow> same_but_sent t u \<Longrightarrow> same_but_sent s u"
  by (simp add: same_but_sent_def)

lemma same_but_sent_deref: "same_but_sent s s' \<Longrightarrow> deref_packet s' = deref_packet s"
  by (rule deref_packet_cong) (simp_all add: same_but_sent_def)

lemma note_sent_same [simp]: "same_but_sent s (note_sent p cp s)"
  by (simp add: same_but_sent_def note_sent_def)

text \<open>A connection read before and after differs at most in its data flag.\<close>

definition same_connection :: "ble_connection \<Rightarrow> ble_connection \<Rightarrow> bool" where
  "same_connection c c' \<longleftrightarrow> setHasData False c = setHasData False c'"

lemma same_connection_fields:
  assumes "same_connection c c'"
  shows "connection_handle c' = connection_handle c" and "role c' = role c" and "bt_mtu c' = bt_mtu c"
    and "available c' = available c" 
  using assms by (cases c; cases c'; simp add: same_connection_def setHasData_def available_def)+

lemma same_but_sent_map_of:
  assumes "same_but_sent s s'"
  shows "map_option (setHasData False) (map_of (connections s') h) =
    map_option (setHasData False) (map_of (connections s) h)"
  using assms map_of_map [of "setHasData False" "connections s"]
    map_of_map [of "setHasData False" "connections s'"]
  by (simp add: same_but_sent_def fun_eq_iff)

lemma same_but_sent_connection:
  assumes "same_but_sent s s'" and "map_of (connections s) h = Some c"
  shows "\<exists>c'. map_of (connections s') h = Some c' \<and> same_connection c c'"
  using same_but_sent_map_of [OF assms(1), of h] assms(2) by (auto simp: same_connection_def)

lemma map_put_same_image:
  assumes "map_ok m" and "map_of m k = Some w" and "g v = g w"
  shows "map (\<lambda>(k, v). (k, g v)) (map_put k v m) = map (\<lambda>(k, v). (k, g v)) m"
  using assms
proof (induction m)
  case (Cons x m)
  obtain k' v' where x: "x = (k', v')" by (cases x)
  show ?case
  proof (cases "k = k'")
    case False
    then have "(k, w) \<in> set m"
      using Cons.prems(2) x by (auto dest: map_of_SomeD)
    then have "k' < k" using Cons.prems(1) x by force
    then show ?thesis using Cons x False by auto
  qed (use Cons x in auto)
qed simp

lemma SendPacketToConnection_same:
  assumes "SendPacketToConnection p cp s = Inr s'" and "map_ok (connections s)"
  shows "same_but_sent s s' \<and> packets_connections_sent_list s' = packets_connections_sent_list s"
proof (cases cp)
  case (LocalCopy a)
  then show ?thesis using assms by (simp add: SendPacketToConnection_def deref_connection_def)
next
  case (ConnectionNode k)
  then obtain c where c: "map_of (connections s) k = Some c"
    using assms(1) by (auto simp: SendPacketToConnection_def deref_connection_def split: option.splits)
  then have "map (\<lambda>(h, c). (h, setHasData False c)) (map_put k (setHasData True c) (connections s)) =
      map (\<lambda>(h, c). (h, setHasData False c)) (connections s)"
    using assms(2) by (intro map_put_same_image) (simp_all add: setHasData_def)
  then show ?thesis
    using assms(1) ConnectionNode c
    by (auto simp: SendPacketToConnection_def Let_def same_but_sent_def call_stack_def
        update_connection_def connection_or_new_def split: if_splits)
qed

section \<open>No connection gets a packet twice\<close>

text \<open>The handles of the connections that a packet came from or went to.\<close>

definition ptr_handle :: "tracker \<Rightarrow> connection_ptr \<Rightarrow> u16 option" where
  "ptr_handle s cp = (case deref_connection s cp of Inr c \<Rightarrow> Some (connection_handle c) | Inl e \<Rightarrow> None)"

definition sent_handles :: "tracker \<Rightarrow> addr \<Rightarrow> u16 list" where
  "sent_handles s p =
     concat (map (\<lambda>(q, cp). case ptr_handle s cp of Some h \<Rightarrow> [h] | None \<Rightarrow> [])
       (multi_range p (packets_connections_sent_list s)))"

definition sent_once :: "tracker \<Rightarrow> bool" where
  "sent_once s \<longleftrightarrow> (\<forall>p \<in> fst ` set (packets_connections_sent_list s). distinct (sent_handles s p))"

definition raw_packets :: "tracker \<Rightarrow> nat" where
  "raw_packets s = length (raw_packet_to_notify s) + length (raw_packet_to_write s)"

text \<open>What holds along the loops of \<open>sendPackets\<close> that start in \<open>s\<close>.\<close>

definition sending :: "tracker \<Rightarrow> tracker \<Rightarrow> bool" where
  "sending s t \<longleftrightarrow>
     same_but_sent s t \<and> tracker_ok t \<and> (\<forall>p. distinct (sent_handles t p)) \<and>
     set (packets_connections_sent_list s) \<subseteq> set (packets_connections_sent_list t) \<and>
     raw_packets t + length (packets_connections_sent_list s) =
       raw_packets s + length (packets_connections_sent_list t)"

lemma sent_once_all: "sent_once s \<longleftrightarrow> (\<forall>p. distinct (sent_handles s p))"
proof -
  have "sent_handles s p = []" if "p \<notin> fst ` set (packets_connections_sent_list s)" for p
    using that by (force simp: sent_handles_def)
  then have "distinct (sent_handles s p)" if "p \<notin> fst ` set (packets_connections_sent_list s)" for p
    using that by simp
  then show ?thesis
    unfolding sent_once_def by blast
qed

lemma ptr_handle_cong: "connections s' = connections s \<Longrightarrow> ptr_handle s' = ptr_handle s"
  by (rule ext) (simp add: ptr_handle_def deref_connection_def split: connection_ptr.split)

lemma ptr_handle_same:
  assumes "same_but_sent s t"
  shows "ptr_handle t = ptr_handle s"
proof (rule ext)
  fix cp
  show "ptr_handle t cp = ptr_handle s cp"
  proof (cases cp)
    case (ConnectionNode k)
    show ?thesis
    proof (cases "map_of (connections s) k")
      case None
      then have "map_of (connections t) k = None"
        using same_but_sent_map_of [OF assms, of k] by simp
      then show ?thesis using None ConnectionNode by (simp add: ptr_handle_def deref_connection_def)
    next
      case (Some c)
      then obtain c' where "map_of (connections t) k = Some c'" "connection_handle c' = connection_handle c"
        using same_but_sent_connection [OF assms] same_connection_fields(1) by blast
      then show ?thesis using Some ConnectionNode by (simp add: ptr_handle_def deref_connection_def)
    qed
  qed (simp add: ptr_handle_def deref_connection_def)
qed

lemma handle_matches_iff:
  "handle_matches s h x = Inr b \<longleftrightarrow> (\<exists>i. ptr_handle s (snd x) = Some i \<and> b = (i = h))"
  by (auto simp: handle_matches_def ptr_handle_def split: sum.splits)

lemma find_if_False: "find_if P xs = Inr False \<Longrightarrow> \<forall>x \<in> set xs. P x = Inr False"
  by (induction xs) (auto split: if_splits)

lemma any_of_False: "any_of P xs = Inr False \<Longrightarrow> \<forall>x \<in> set xs. P x = Inr False"
  by (induction xs) auto

lemma set_sent_handles:
  "h \<in> set (sent_handles s p) \<longleftrightarrow>
     (\<exists>cp. (p, cp) \<in> set (packets_connections_sent_list s) \<and> ptr_handle s cp = Some h)"
  by (auto simp: sent_handles_def split: option.splits)

lemma sending_step:
  assumes "sending s t" and "SendPacketToConnection p cp t = Inr t1"
    and "ptr_handle t cp = Some h" and "h \<notin> set (sent_handles t p)"
  shows "sending s (note_sent p cp t1)"
proof -
  have ok: "tracker_ok t" and conns: "map_ok (connections t)"
    and sorted: "multi_ok (packets_connections_sent_list t)"
    using assms(1) by (auto simp: sending_def tracker_ok_defs)
  have t1: "same_but_sent t t1" "packets_connections_sent_list t1 = packets_connections_sent_list t"
    using SendPacketToConnection_same [OF assms(2) conns] by auto
  have raw: "raw_packets t1 = raw_packets t + 1"
    using assms(2) by (auto simp: SendPacketToConnection_def Let_def raw_packets_def call_stack_def
        update_connection_def split: if_splits connection_ptr.splits)
  have h: "ptr_handle (note_sent p cp t1) = ptr_handle t"
    using ptr_handle_same same_but_sent_trans [OF t1(1) note_sent_same] by blast
  have "sent_handles (note_sent p cp t1) q = (if q = p then sent_handles t p @ [h] else sent_handles t q)" for q
    using assms(3) sorted unfolding sent_handles_def h
    by (auto simp: note_sent_def t1(2) multi_range_emplace)
  then have "distinct (sent_handles (note_sent p cp t1) q)" for q
    using assms(1,4) by (simp add: sending_def)
  moreover have "same_but_sent s (note_sent p cp t1)"
    using assms(1) t1(1) same_but_sent_trans note_sent_same unfolding sending_def by blast
  moreover have "tracker_ok (note_sent p cp t1)"
    using note_sent_keeps_ok SendPacketToConnection_keeps_ok [OF assms(2) ok] .
  ultimately show ?thesis
    using assms(1) raw by (auto simp: sending_def note_sent_def t1(2) raw_packets_def)
qed

lemma packet_needed_True:
  assumes "packet_needed s (p, cp) = Inr True" and "SendPacketToConnection p cp s = Inr s'"
  shows "\<exists>h. ptr_handle s cp = Some h \<and> h \<notin> set (sent_handles s p)"
proof -
  obtain c where c: "deref_connection s cp = Inr c"
    using assms(2) by (auto simp: SendPacketToConnection_def)
  have "find_if (handle_matches s (connection_handle c))
      (multi_range p (packets_connections_sent_list s)) = Inr False"
  proof (cases "multi_range p (packets_connections_sent_list s)")
    case (Cons y ys)
    then show ?thesis
      using assms(1) c Cons by (auto simp: packet_needed_def simp del: find_if.simps)
  qed simp
  then have "\<forall>x \<in> set (multi_range p (packets_connections_sent_list s)).
      handle_matches s (connection_handle c) x = Inr False"
    by (rule find_if_False)
  then have "connection_handle c \<notin> set (sent_handles s p)"
    by (fastforce simp: set_sent_handles handle_matches_iff)
  then show ?thesis using c by (simp add: ptr_handle_def)
qed

lemma targeted_loop_sending:
  assumes "targeted_loop ts removed t = Inr (removed', t')" and "sending s t"
  shows "sending s t'"
  using assms
proof (induction ts arbitrary: removed t)
  case (Cons x ts)
  obtain p cp where x: "x = (p, cp)" by (cases x)
  have "sending s (note_sent p cp t1)"
    if "packet_needed t (p, cp) = Inr True" "SendPacketToConnection p cp t = Inr t1" for t1
    using packet_needed_True [OF that] sending_step [OF Cons.prems(2) that(2)] by blast
  then show ?case
    using Cons by (auto simp: x split: if_splits)
qed simp

lemma sendable_True:
  assumes "sendable s p c = Inr True" and "multi_ok (packets_connections_sent_list s)"
  shows "connection_handle c \<notin> set (sent_handles s p)"
proof -
  have "\<forall>x \<in> set (multi_from p (packets_connections_sent_list s)).
      handle_matches s (connection_handle c) x = Inr False"
    using assms(1) by (intro any_of_False) (auto simp: sendable_def)
  moreover have "(p, cp) \<in> set (packets_connections_sent_list s) \<Longrightarrow>
      (p, cp) \<in> set (multi_from p (packets_connections_sent_list s))" for cp
    using multi_range_subset_from [OF assms(2), of p] by auto
  ultimately show ?thesis
    by (fastforce simp: set_sent_handles handle_matches_iff)
qed

lemma broadcast_to_sending:
  assumes "broadcast_to p kc t = Inr t'" and "sending s t" and "kc \<in> set (connections s)"
    and "map_ok (connections s)"
  shows "sending s t'"
proof (cases "sendable t p (snd kc) = Inr True")
  case False
  then show ?thesis using assms(1,2) by (auto simp: broadcast_to_def split: if_splits)
next
  case True
  obtain k c where kc: "kc = (k, c)" by (cases kc)
  then obtain t1 where t1: "SendPacketToConnection p (ConnectionNode k) t = Inr t1"
    and t': "t' = note_sent p (ConnectionNode k) t1"
    using assms(1) True by (auto simp: broadcast_to_def)
  have same: "same_but_sent s t" and sorted: "multi_ok (packets_connections_sent_list t)"
    using assms(2) by (auto simp: sending_def tracker_ok_defs)
  have "ptr_handle s (ConnectionNode k) = Some (connection_handle c)"
    using assms(3,4) kc map_of_iff_set [of "connections s" k c]
    by (simp add: ptr_handle_def deref_connection_def)
  then have "ptr_handle t (ConnectionNode k) = Some (connection_handle c)"
    using ptr_handle_same [OF same] by simp
  then show ?thesis
    using sending_step [OF assms(2) t1] sendable_True [OF True sorted] by (simp add: kc t')
qed

lemma broadcast_packet_sending:
  assumes "broadcast_packet p t = Inr t'" and "sending s t"
  shows "sending s t'"
proof -
  have "sending t t" and conns: "map_ok (connections t)"
    using assms(2) by (auto simp: sending_def tracker_ok_defs)
  from assms(1) [unfolded broadcast_packet_def] this(1) have "sending t t'"
    by (rule fold_result_invariant) (use conns in \<open>auto intro: broadcast_to_sending\<close>)
  then show ?thesis
    using assms(2) same_but_sent_trans unfolding sending_def by (auto 4 4)
qed

text \<open>The three stages of \<open>sendPackets\<close>.\<close>

lemma sendPackets_stages:
  assumes "sendPackets s = Inr s'"
    and "\<not> (broadcast_packets_to_send_list s = [] \<and> targeted_packets_to_send_list s = [])"
  obtains removed s1 s3 where
    "targeted_loop (targeted_packets_to_send_list s) [] s = Inr (removed, s1)"
    and "fold_result broadcast_packet (broadcast_packets_to_send_list s1)
      (s1\<lparr>targeted_packets_to_send_list :=
        filter (\<lambda>(p, cp). p \<notin> set removed) (targeted_packets_to_send_list s1)\<rparr>) = Inr s3"
    and "s' = s3\<lparr>broadcast_packets_to_send_list :=
        filter (\<lambda>p. p \<notin> set (broadcast_packets_to_send_list s1)) (broadcast_packets_to_send_list s3)\<rparr>"
  using assms by (auto simp: sendPackets_def Let_def split: prod.splits)

lemma sent_handles_frame [simp]:
  "sent_handles (s\<lparr>targeted_packets_to_send_list := x\<rparr>) = sent_handles s"
  "sent_handles (s\<lparr>broadcast_packets_to_send_list := y\<rparr>) = sent_handles s"
proof -
  have "ptr_handle (s\<lparr>targeted_packets_to_send_list := x\<rparr>) = ptr_handle s"
    "ptr_handle (s\<lparr>broadcast_packets_to_send_list := y\<rparr>) = ptr_handle s"
    by (rule ptr_handle_cong, simp)+
  then show "sent_handles (s\<lparr>targeted_packets_to_send_list := x\<rparr>) = sent_handles s"
    "sent_handles (s\<lparr>broadcast_packets_to_send_list := y\<rparr>) = sent_handles s"
    by (simp_all add: fun_eq_iff sent_handles_def)
qed

lemma sending_refl: "tracker_ok s \<Longrightarrow> sent_once s \<Longrightarrow> sending s s"
  by (simp add: sending_def sent_once_all)

text \<open>
  C5: sending empties the broadcast queue; no connection gets the same packet twice, nor gets back
  a packet it brought, since where a packet came from is noted like where it went; and every
  transmission handed to the Bluetooth stack is noted.
\<close>

theorem sendPackets_never_repeats:
  assumes "tracker_ok s" and "sent_once s" and "sendPackets s = Inr s'"
  shows "broadcast_packets_to_send_list s' = [] \<and> sent_once s' \<and>
    set (packets_connections_sent_list s) \<subseteq> set (packets_connections_sent_list s') \<and>
    raw_packets s' + length (packets_connections_sent_list s) =
      raw_packets s + length (packets_connections_sent_list s')"
proof (cases "broadcast_packets_to_send_list s = [] \<and> targeted_packets_to_send_list s = []")
  case True
  then show ?thesis using assms by (simp add: sendPackets_def)
next
  case False
  then obtain removed s1 s3 where
    l: "targeted_loop (targeted_packets_to_send_list s) [] s = Inr (removed, s1)"
    and f: "fold_result broadcast_packet (broadcast_packets_to_send_list s1)
      (s1\<lparr>targeted_packets_to_send_list :=
        filter (\<lambda>(p, cp). p \<notin> set removed) (targeted_packets_to_send_list s1)\<rparr>) = Inr s3"
    and s': "s' = s3\<lparr>broadcast_packets_to_send_list :=
        filter (\<lambda>p. p \<notin> set (broadcast_packets_to_send_list s1)) (broadcast_packets_to_send_list s3)\<rparr>"
    using sendPackets_stages [OF assms(3)] by metis
  define s2 where "s2 = s1\<lparr>targeted_packets_to_send_list :=
        filter (\<lambda>(p, cp). p \<notin> set removed) (targeted_packets_to_send_list s1)\<rparr>"
  have s1: "sending s s1"
    using targeted_loop_sending [OF l sending_refl [OF assms(1,2)]] .
  then have "sending s2 s2"
    by (auto simp: sending_def s2_def shorter_queues_keep_ok)
  from f [folded s2_def] this have s3: "sending s2 s3"
    by (rule fold_result_invariant) (rule broadcast_packet_sending)
  have "broadcast_packets_to_send_list s3 = broadcast_packets_to_send_list s1"
    using s3 by (simp add: sending_def same_but_sent_def s2_def)
  then show ?thesis
    using s1 s3 by (auto simp: s' sending_def sent_once_all s2_def raw_packets_def)
qed

text \<open>A tracker with two connections up, and a packet that came in over the first.\<close>

definition sample_connection :: "u16 \<Rightarrow> u8 \<Rightarrow> ble_connection" where
  "sample_connection h r =
     setMtu 200 (setRole r (setBitchatCharacteristicValueHandle 9 (setConnected True
       (setConnectionHandle h new_BleConnection))))"

definition sample_tracker :: tracker where
  "sample_tracker = (new_tracker 1)
     \<lparr>connections := [(64, sample_connection 64 HCI_ROLE_SLAVE), (65, sample_connection 65 HCI_ROLE_MASTER)],
      peers := sample_peers,
      packets := [(7, 5, setPayload [10] (PacketPassAlong_full 5 3 0 0 42 0 []))],
      packets_connections_sent_list := [(5, ConnectionNode 64)],
      packets_peers_sent_list := [(5, 42)],
      broadcast_packets_to_send_list := [5]\<rparr>"

lemmas sample_tracker_defs = sample_tracker_def sample_connection_def sample_peers_def new_tracker_def
  connection_setters new_BleConnection_def new_packet_defs packet_setters Peer_named_def new_Peer_def
  HCI_ROLE_MASTER_def HCI_ROLE_SLAVE_def HCI_ROLE_INVALID_def BD_ADDR_TYPE_UNKNOWN_def

lemma sample_tracker_deref:
  "deref_packet sample_tracker 5 =
    Inr (PassAlongPacket (setPayload [10] (PacketPassAlong_full 5 3 0 0 42 0 [])))"
  by (simp add: sample_tracker_defs deref_packet_def message_at_def pass_along_at_def node_at_def)

lemma sample_tracker_ok: "tracker_ok sample_tracker \<and> sent_once sample_tracker"
proof -
  have "relayable sample_tracker 5"
    by (simp add: relayable_def sample_tracker_deref new_packet_defs packet_setters)
  then have "queues_ok sample_tracker"
    by (simp add: queues_ok_def multi_ok_def set_live_addresses peer_known_def sample_tracker_def
        sample_peers_def new_tracker_def)
  moreover have "peers_ok sample_tracker" "messages_ok sample_tracker" "packets_ok sample_tracker"
    "connections_ok sample_tracker"
    by (simp_all add: peers_ok_def messages_ok_def packets_ok_def connections_ok_def live_addresses_def
        sample_tracker_defs)
  moreover have "sent_once sample_tracker"
    by (simp add: sent_once_def sent_handles_def multi_range_def sample_tracker_def split: option.split)
  ultimately show ?thesis by (simp add: tracker_ok_def)
qed

section \<open>Who gets a packet\<close>

text \<open>The handles that the scan for a packet comes across.\<close>

definition scanned :: "tracker \<Rightarrow> addr \<Rightarrow> u16 option set" where
  "scanned s p = ptr_handle s ` snd ` set (multi_from p (packets_connections_sent_list s))"

definition recipients :: "tracker \<Rightarrow> addr \<Rightarrow> (u16 \<times> ble_connection) set" where
  "recipients s p = {(k, c) \<in> set (connections s). available c \<and> Some k \<notin> scanned s p}"

definition pointers_ok :: "tracker \<Rightarrow> bool" where
  "pointers_ok s \<longleftrightarrow> (\<forall>(p, cp) \<in> set (packets_connections_sent_list s). ptr_handle s cp \<noteq> None)"

lemma any_of_total:
  "\<forall>x \<in> set xs. \<exists>b. P x = Inr b \<Longrightarrow> any_of P xs = Inr (\<exists>x \<in> set xs. P x = Inr True)"
  by (induction xs) auto

lemma sendable_total:
  assumes "pointers_ok s" and "multi_ok (packets_connections_sent_list s)"
  shows "sendable s p c = Inr (Some (connection_handle c) \<notin> scanned s p)"
proof -
  have "set (multi_from p (packets_connections_sent_list s)) \<subseteq> set (packets_connections_sent_list s)"
    using assms(2) by (auto simp: set_multi_from split: if_splits)
  then have "\<forall>x \<in> set (multi_from p (packets_connections_sent_list s)).
      \<exists>b. handle_matches s (connection_handle c) x = Inr b"
    using assms(1) by (force simp: pointers_ok_def handle_matches_iff)
  from any_of_total [OF this] show ?thesis
    by (auto simp: sendable_def scanned_def handle_matches_iff image_image) (force simp: image_iff)+
qed

lemma SendPacketToConnection_total:
  assumes "map_ok (connections s)" and "deref_packet s p = Inr pk" and "writePacket (peers s) pk [] = Inr bytes"
    and "map_of (connections s) k = Some c" and "length bytes \<le> unat (bt_mtu c)"
  shows "\<exists>s'. SendPacketToConnection p (ConnectionNode k) s = Inr s' \<and> same_but_sent s s' \<and>
    packets_connections_sent_list s' = packets_connections_sent_list s \<and>
    set (raw_packet_to_notify s') = set (raw_packet_to_notify s) \<union>
      (if role c = HCI_ROLE_SLAVE then {(connection_handle c, bytes)} else {}) \<and>
    set (raw_packet_to_write s') = set (raw_packet_to_write s) \<union>
      (if role c = HCI_ROLE_SLAVE then {} else {(connection_handle c, bytes)})"
proof -
  have "\<exists>s'. SendPacketToConnection p (ConnectionNode k) s = Inr s' \<and>
    set (raw_packet_to_notify s') = set (raw_packet_to_notify s) \<union>
      (if role c = HCI_ROLE_SLAVE then {(connection_handle c, bytes)} else {}) \<and>
    set (raw_packet_to_write s') = set (raw_packet_to_write s) \<union>
      (if role c = HCI_ROLE_SLAVE then {} else {(connection_handle c, bytes)})"
    using assms by (auto simp: SendPacketToConnection_def deref_connection_def Let_def call_stack_def
        update_connection_def)
  then show ?thesis
    using SendPacketToConnection_same [OF _ assms(1)] by blast
qed

text \<open>The state after a packet went to the connections in \<open>D\<close>.\<close>

definition delivered :: "tracker \<Rightarrow> addr \<Rightarrow> bytes \<Rightarrow> (u16 \<times> ble_connection) set \<Rightarrow> tracker \<Rightarrow> bool" where
  "delivered s p bytes D t \<longleftrightarrow>
     same_but_sent s t \<and>
     set (packets_connections_sent_list t) =
       set (packets_connections_sent_list s) \<union> (\<lambda>(k, c). (p, ConnectionNode k)) ` D \<and>
     set (raw_packet_to_notify t) =
       set (raw_packet_to_notify s) \<union> {(k, bytes) |k c. (k, c) \<in> D \<and> role c = HCI_ROLE_SLAVE} \<and>
     set (raw_packet_to_write t) =
       set (raw_packet_to_write s) \<union> {(k, bytes) |k c. (k, c) \<in> D \<and> role c \<noteq> HCI_ROLE_SLAVE}"

lemma up_handle:
  assumes "tracker_ok s" and "(k, c) \<in> set (connections s)" and "available c"
  shows "connection_handle c = k" and "map_of (connections s) k = Some c"
    and "ptr_handle s (ConnectionNode k) = Some k"
proof -
  show h: "connection_handle c = k"
    using assms by (auto simp: tracker_ok_defs available_def)
  show m: "map_of (connections s) k = Some c"
    using assms map_of_iff_set [of "connections s"] by (simp add: tracker_ok_defs)
  show "ptr_handle s (ConnectionNode k) = Some k"
    by (simp add: ptr_handle_def deref_connection_def m h)
qed

lemma delivered_scanned:
  assumes "tracker_ok s" and "delivered s p bytes D t" and "multi_ok (packets_connections_sent_list t)"
    and "p \<in> fst ` set (packets_connections_sent_list s)"
    and "\<forall>(k, c) \<in> D. (k, c) \<in> set (connections s) \<and> available c"
  shows "scanned t p = scanned s p \<union> Some ` fst ` D"
proof -
  have h: "ptr_handle t = ptr_handle s"
    using assms(2) by (intro ptr_handle_same) (simp add: delivered_def)
  have sent: "set (packets_connections_sent_list t) =
      set (packets_connections_sent_list s) \<union> (\<lambda>(k, c). (p, ConnectionNode k)) ` D"
    using assms(2) by (simp add: delivered_def)
  have "multi_ok (packets_connections_sent_list s)"
    using assms(1) by (simp add: tracker_ok_defs)
  moreover have "p \<in> fst ` set (packets_connections_sent_list t)"
    using assms(4) sent by auto
  ultimately have "set (multi_from p (packets_connections_sent_list t)) =
      set (multi_from p (packets_connections_sent_list s)) \<union> (\<lambda>(k, c). (p, ConnectionNode k)) ` D"
    using assms(3,4) by (auto simp: set_multi_from sent)
  moreover have "ptr_handle s ` snd ` (\<lambda>(k, c). (p, ConnectionNode k)) ` D = Some ` fst ` D"
    using assms(5) up_handle(3) [OF assms(1)] by (force simp: image_image)
  ultimately show ?thesis
    by (simp add: scanned_def h image_Un)
qed

lemma broadcast_to_delivers:
  assumes "tracker_ok s" and "pointers_ok s" and "p \<in> fst ` set (packets_connections_sent_list s)"
    and "deref_packet s p = Inr pk" and "writePacket (peers s) pk [] = Inr bytes"
    and "(k, c) \<in> set (connections s)" and "available c" and "length bytes \<le> unat (bt_mtu c)"
    and "delivered s p bytes D t" and "tracker_ok t" and "pointers_ok t"
    and "\<forall>(k, c) \<in> D. (k, c) \<in> set (connections s) \<and> available c" and "k \<notin> fst ` D"
  shows "\<exists>t'. broadcast_to p (k, c) t = Inr t' \<and> tracker_ok t' \<and> pointers_ok t' \<and>
    delivered s p bytes (if Some k \<in> scanned s p then D else insert (k, c) D) t'"
proof -
  have same: "same_but_sent s t" using assms(9) by (simp add: delivered_def)
  have ok: "map_ok (connections t)" "multi_ok (packets_connections_sent_list t)"
    using assms(10) by (simp_all add: tracker_ok_defs)
  note up = up_handle [OF assms(1,6,7)]
  have "sendable t p c = Inr (Some k \<notin> scanned s p \<union> Some ` fst ` D)"
    using sendable_total [OF assms(11) ok(2)] delivered_scanned [OF assms(1,9) ok(2) assms(3,12)] up(1)
    by simp
  then have sendable: "sendable t p c = Inr (Some k \<notin> scanned s p)"
    using assms(13) by auto
  show ?thesis
  proof (cases "Some k \<in> scanned s p")
    case True
    then show ?thesis using sendable assms(9,10,11) by (simp add: broadcast_to_def)
  next
    case False
    obtain c' where c': "map_of (connections t) k = Some c'" "same_connection c c'"
      using same_but_sent_connection [OF same up(2)] by blast
    note cf = same_connection_fields [OF c'(2)]
    have "deref_packet t p = Inr pk" "writePacket (peers t) pk [] = Inr bytes"
      using assms(4,5) same same_but_sent_deref [OF same] by (simp_all add: same_but_sent_def)
    from SendPacketToConnection_total [OF ok(1) this c'(1)] obtain t1
      where t1: "SendPacketToConnection p (ConnectionNode k) t = Inr t1" "same_but_sent t t1"
        "packets_connections_sent_list t1 = packets_connections_sent_list t"
        "set (raw_packet_to_notify t1) = set (raw_packet_to_notify t) \<union>
          (if role c = HCI_ROLE_SLAVE then {(k, bytes)} else {})"
        "set (raw_packet_to_write t1) = set (raw_packet_to_write t) \<union>
          (if role c = HCI_ROLE_SLAVE then {} else {(k, bytes)})"
      using assms(8) cf up(1) by auto
    let ?t' = "note_sent p (ConnectionNode k) t1"
    have bt: "broadcast_to p (k, c) t = Inr ?t'"
      using sendable False t1(1) by (simp add: broadcast_to_def)
    have same': "same_but_sent s ?t'"
      using same t1(2) same_but_sent_trans note_sent_same by blast
    have "tracker_ok ?t'"
      using note_sent_keeps_ok SendPacketToConnection_keeps_ok [OF t1(1) assms(10)] .
    moreover have "pointers_ok ?t'"
      using assms(11) up(3) t1(3) ptr_handle_same [OF same] ptr_handle_same [OF same']
      by (auto simp: pointers_ok_def note_sent_def)
    moreover have "delivered s p bytes (insert (k, c) D) ?t'"
      using assms(9) same' t1(3-5) by (auto simp: delivered_def note_sent_def split: if_splits)
    ultimately show ?thesis using bt False by auto
  qed
qed

lemma broadcast_fold_delivers:
  assumes "tracker_ok s" and "pointers_ok s" and "p \<in> fst ` set (packets_connections_sent_list s)"
    and "deref_packet s p = Inr pk" and "writePacket (peers s) pk [] = Inr bytes"
    and "\<forall>(k, c) \<in> set cs. (k, c) \<in> set (connections s) \<and> available c \<and> length bytes \<le> unat (bt_mtu c)"
    and "distinct (map fst cs)"
    and "delivered s p bytes D t" and "tracker_ok t" and "pointers_ok t"
    and "\<forall>(k, c) \<in> D. (k, c) \<in> set (connections s) \<and> available c" and "fst ` set cs \<inter> fst ` D = {}"
  shows "\<exists>t'. fold_result (broadcast_to p) cs t = Inr t' \<and> tracker_ok t' \<and> pointers_ok t' \<and>
    delivered s p bytes (D \<union> {(k, c) \<in> set cs. Some k \<notin> scanned s p}) t'"
  using assms(6-)
proof (induction cs arbitrary: D t)
  case (Cons kc cs)
  obtain k c where kc: "kc = (k, c)" by (cases kc)
  let ?D = "if Some k \<in> scanned s p then D else insert (k, c) D"
  obtain t1 where t1: "broadcast_to p (k, c) t = Inr t1" "tracker_ok t1" "pointers_ok t1"
      "delivered s p bytes ?D t1"
    using broadcast_to_delivers [OF assms(1-5), of k c D t] Cons.prems kc by auto
  have "\<exists>t'. fold_result (broadcast_to p) cs t1 = Inr t' \<and> tracker_ok t' \<and> pointers_ok t' \<and>
      delivered s p bytes (?D \<union> {(k, c) \<in> set cs. Some k \<notin> scanned s p}) t'"
    using Cons.prems kc by (intro Cons.IH t1) (auto split: if_splits)
  moreover have "?D \<union> {(k, c) \<in> set cs. Some k \<notin> scanned s p} =
      D \<union> {(k, c) \<in> set (kc # cs). Some k \<notin> scanned s p}"
    by (auto simp: kc)
  ultimately show ?case using t1(1) kc by simp
qed simp

lemma broadcast_packet_delivers:
  assumes "tracker_ok s" and "pointers_ok s" and "p \<in> fst ` set (packets_connections_sent_list s)"
    and "deref_packet s p = Inr pk" and "writePacket (peers s) pk [] = Inr bytes"
    and "\<forall>(k, c) \<in> set (connections s). available c \<longrightarrow> length bytes \<le> unat (bt_mtu c)"
  shows "\<exists>s'. broadcast_packet p s = Inr s' \<and> delivered s p bytes (recipients s p) s'"
proof -
  let ?cs = "filter (\<lambda>(k, c). available c) (connections s)"
  have "distinct (map fst ?cs)"
    using assms(1) map_ok_distinct [of "connections s"]
    by (simp add: tracker_ok_def connections_ok_def distinct_map_filter)
  then have "\<exists>s'. fold_result (broadcast_to p) ?cs s = Inr s' \<and> tracker_ok s' \<and> pointers_ok s' \<and>
      delivered s p bytes ({} \<union> {(k, c) \<in> set ?cs. Some k \<notin> scanned s p}) s'"
    using assms(6) by (intro broadcast_fold_delivers [OF assms(1-5)])
      (auto simp: assms(1,2) delivered_def)
  moreover have "{} \<union> {(k, c) \<in> set ?cs. Some k \<notin> scanned s p} = recipients s p"
    by (auto simp: recipients_def)
  ultimately show ?thesis
    by (auto simp: broadcast_packet_def)
qed


lemma sample_bytes:
  "\<exists>bytes. writePacket (peers sample_tracker) (PassAlongPacket (setPayload [10]
      (PacketPassAlong_full 5 3 0 0 42 0 []))) [] = Inr bytes \<and> length bytes = 24"
  by (simp add: writePacket_bytes packet_payload_def new_packet_defs packet_setters write_data_def
      trailer_bytes_def length_header_bytes hasPacketRecipient_def hasPacketSignature_def has_flag_def
      base.simps)

lemma sample_recipients:
  "recipients sample_tracker 5 = {(65, sample_connection 65 HCI_ROLE_MASTER)}"
  by (auto simp: recipients_def scanned_def multi_from_def multi_lower_def ptr_handle_def
      deref_connection_def available_def sample_tracker_def sample_connection_def new_tracker_def
      connection_setters)

lemma sample_pointers_ok: "pointers_ok sample_tracker"
  by (simp add: pointers_ok_def ptr_handle_def deref_connection_def sample_tracker_def)

lemma sample_mtu:
  "length bytes = 24 \<Longrightarrow>
     \<forall>(k, c) \<in> set (connections sample_tracker). available c \<longrightarrow> length bytes \<le> unat (bt_mtu c)"
  by (simp add: sample_tracker_def sample_connection_def connection_setters)

lemma sample_noted: "5 \<in> fst ` set (packets_connections_sent_list sample_tracker)"
  by (simp add: sample_tracker_def)


lemma sample_tracker_sends: "\<exists>s'. sendPackets sample_tracker = Inr s'"
proof -
  obtain bytes where b: "writePacket (peers sample_tracker) (PassAlongPacket (setPayload [10]
      (PacketPassAlong_full 5 3 0 0 42 0 []))) [] = Inr bytes" "length bytes = 24"
    using sample_bytes by blast
  let ?cs = "filter (\<lambda>(k, c). available c) (connections sample_tracker)"
  have "\<exists>s'. fold_result (broadcast_to 5) ?cs sample_tracker = Inr s' \<and> tracker_ok s' \<and> pointers_ok s' \<and>
      delivered sample_tracker 5 bytes ({} \<union> {(k, c) \<in> set ?cs. Some k \<notin> scanned sample_tracker 5}) s'"
    by (rule broadcast_fold_delivers [OF conjunct1 [OF sample_tracker_ok] sample_pointers_ok
        sample_noted sample_tracker_deref b(1)])
      (use sample_mtu [OF b(2)] sample_tracker_ok sample_pointers_ok in
        \<open>auto simp: delivered_def distinct_map_filter, simp_all add: sample_tracker_def\<close>)
  then obtain s' where s': "broadcast_packet 5 sample_tracker = Inr s'"
    by (auto simp: broadcast_packet_def)
  moreover have "sample_tracker\<lparr>targeted_packets_to_send_list := []\<rparr> = sample_tracker"
    by (simp add: sample_tracker_def new_tracker_def)
  moreover have "broadcast_packets_to_send_list sample_tracker = [5]"
    "targeted_packets_to_send_list sample_tracker = []"
    by (simp_all add: sample_tracker_def new_tracker_def)
  ultimately show ?thesis
    by (simp add: sendPackets_def)
qed

theorem sendPackets_never_repeats_witness:
  "\<exists>s'. sendPackets sample_tracker = Inr s' \<and> broadcast_packets_to_send_list s' = [] \<and> sent_once s' \<and>
    (5, ConnectionNode 64) \<in> set (packets_connections_sent_list s')"
proof -
  obtain s' where "sendPackets sample_tracker = Inr s'"
    using sample_tracker_sends by blast
  with sendPackets_never_repeats [OF conjunct1 [OF sample_tracker_ok] conjunct2 [OF sample_tracker_ok] this]
  show ?thesis by (auto simp: sample_tracker_def)
qed

end
