(* ===== verification/Receive.thy ===== *)
theory Receive
  imports Relay
begin

text \<open>
  What reception achieves: which packets are queued, that a copy of a packet or of a message is never
  queued again, what the time to live does, and the only ways in which \<open>processWrite\<close> can fail.
\<close>

section \<open>What reception changes of the queues\<close>

lemma queue_frames [simp]:
  "broadcast_packets_to_send_list (checkSenderInPeers k s) = broadcast_packets_to_send_list s"
  "messages (checkSenderInPeers k s) = messages s" "packets (checkSenderInPeers k s) = packets s"
  by (simp_all add: checkSenderInPeers_def)

lemma update_peer_frames [simp]:
  "broadcast_packets_to_send_list (update_peer k f s) = broadcast_packets_to_send_list s"
  "messages (update_peer k f s) = messages s" "packets (update_peer k f s) = packets s"
  by (simp_all add: update_peer_def split: option.split)

lemma receive_announce_frames:
  assumes "receive_announce now h p s = Inr s'"
  shows "broadcast_packets_to_send_list s' = broadcast_packets_to_send_list s \<and>
    messages s' = messages s \<and> packets s' = packets s"
  using assms
  by (auto simp: receive_announce_def possiblyUpdateTimeOffset_def updateOrStorePeerName_def Let_def
      setConnectionHandleForPeer_def split: if_splits option.splits)

lemma enqueueBroadcastPacketFrom_frames:
  assumes "enqueueBroadcastPacketFrom q cp k s = Inr s'"
  shows "messages s' = messages s \<and> packets s' = packets s \<and>
    (\<exists>pk. deref_packet s q = Inr pk \<and> broadcast_packets_to_send_list s' =
      broadcast_packets_to_send_list s @ (if packet_ttl (base pk) > 0 then [q] else []))"
proof -
  obtain pk where pk: "deref_packet s q = Inr pk"
    using assms by (auto simp: enqueueBroadcastPacketFrom_def enqueueBroadcastPacket_def)
  then show ?thesis
    using assms by (cases "packet_ttl (base pk) > 0")
      (simp_all add: enqueueBroadcastPacketFrom_def enqueueBroadcastPacket_def pk, auto)
qed

text \<open>A packet whose hash is known changes no queue and no store; another is stored.\<close>

lemma pass_packet_along_known:
  assumes "pass_packet_along std_hash a cp p s = Inr s'"
    and "getPacketHash std_hash (parsed_pass_along p) \<in> fst ` set (packets s)"
  shows "broadcast_packets_to_send_list s' = broadcast_packets_to_send_list s \<and>
    messages s' = messages s \<and> packets s' = packets s"
proof -
  have "map_of (packets s) (getPacketHash std_hash (parsed_pass_along p)) \<noteq> None"
    using assms(2) by (simp add: map_of_eq_None_iff)
  then show ?thesis
    using assms(1) by (auto simp: pass_packet_along_def Let_def storePacketAndReturnIfNew_def split: if_splits)
qed

lemma pass_packet_along_new:
  assumes "pass_packet_along std_hash a cp p s = Inr s'" and "\<not> parsed_ttl p < 1"
    and "getPacketHash std_hash (parsed_pass_along p) \<notin> fst ` set (packets s)"
  shows "\<exists>s1. storePacketAndReturnIfNew std_hash a (parsed_pass_along p)
      (checkSenderInPeers (parsed_sender p) s) = (Some a, s1) \<and>
    fst ` set (packets s1) = insert (getPacketHash std_hash (parsed_pass_along p)) (fst ` set (packets s)) \<and>
    enqueueBroadcastPacketFrom a cp (parsed_sender p) s1 = Inr s'"
proof -
  obtain r s1 where st: "storePacketAndReturnIfNew std_hash a (parsed_pass_along p)
      (checkSenderInPeers (parsed_sender p) s) = (r, s1)" by fastforce
  with packet_store.store_new [of std_hash "parsed_pass_along p" "checkSenderInPeers (parsed_sender p) s" a]
  show ?thesis
    using assms by (simp add: pass_packet_along_def Let_def)
qed

text \<open>A new packet with hops left is stored, queued and noted for where it came from.\<close>

lemma pass_packet_along_enqueues:
  assumes "pass_packet_along std_hash a cp p s = Inr s'" and "\<not> parsed_ttl p < 1" and "fresh a s"
    and "map_of (packets s) (getPacketHash std_hash (parsed_pass_along p)) = None"
  shows "deref_packet s' a = Inr (PassAlongPacket (parsed_pass_along p)) \<and>
    broadcast_packets_to_send_list s' = broadcast_packets_to_send_list s @ [a] \<and>
    targeted_packets_to_send_list s' = targeted_packets_to_send_list s \<and> connections s' = connections s \<and>
    packets_connections_sent_list s' = multi_emplace a cp (packets_connections_sent_list s)"
proof -
  define u where "u = checkSenderInPeers (parsed_sender p) s"
  define k where "k = getPacketHash std_hash (parsed_pass_along p)"
  define v where "v = u\<lparr>packets := map_put k (a, parsed_pass_along p) (packets u)\<rparr>"
  have u: "packets u = packets s" "live_addresses u = live_addresses s" "connections u = connections s"
    "broadcast_packets_to_send_list u = broadcast_packets_to_send_list s"
    "targeted_packets_to_send_list u = targeted_packets_to_send_list s"
    "packets_connections_sent_list u = packets_connections_sent_list s"
    by (simp_all add: u_def) (simp_all add: checkSenderInPeers_def)
  have "deref_packet v a = Inr (PassAlongPacket (parsed_pass_along p))"
    using deref_stored_packet [of u k a "parsed_pass_along p"] assms(3,4) u(1,2) by (simp add: v_def k_def)
  moreover have "packet_ttl (parsed_pass_along p) > 0"
    using assms(2) by (simp add: parsed_pass_along_def new_packet_defs packet_setters word_less_1 word_gt_0)
  moreover have "enqueueBroadcastPacketFrom a cp (parsed_sender p) v = Inr s'"
    using assms(1,2,4) u(1)
    by (simp add: pass_packet_along_def storePacketAndReturnIfNew_def u_def [symmetric] k_def v_def)
  ultimately show ?thesis
    by (auto simp: enqueueBroadcastPacketFrom_def enqueueBroadcastPacket_def v_def u)
qed

lemma pass_packet_along_stores:
  assumes "pass_packet_along std_hash a cp p s = Inr s'"
  shows "messages s' = messages s \<and>
    fst ` set (packets s') = fst ` set (packets s) \<union>
      (if parsed_ttl p < 1 then {} else {getPacketHash std_hash (parsed_pass_along p)})"
proof (cases "parsed_ttl p < 1")
  case True
  then show ?thesis using assms by (simp add: pass_packet_along_def)
next
  case False
  show ?thesis
  proof (cases "getPacketHash std_hash (parsed_pass_along p) \<in> fst ` set (packets s)")
    case True
    then show ?thesis using pass_packet_along_known [OF assms] by auto
  next
    case new: False
    from pass_packet_along_new [OF assms False new] obtain s1
      where st: "storePacketAndReturnIfNew std_hash a (parsed_pass_along p)
          (checkSenderInPeers (parsed_sender p) s) = (Some a, s1)"
        and k: "fst ` set (packets s1) =
          insert (getPacketHash std_hash (parsed_pass_along p)) (fst ` set (packets s))"
        and e: "enqueueBroadcastPacketFrom a cp (parsed_sender p) s1 = Inr s'" by blast
    have "messages s1 = messages s"
      using st by (auto simp: storePacketAndReturnIfNew_def split: if_splits)
    then show ?thesis
      using k enqueueBroadcastPacketFrom_frames [OF e] False by simp
  qed
qed

section \<open>The id of a message depends on its payload alone\<close>

definition agree :: "message_parse \<Rightarrow> message_parse \<Rightarrow> bool" where
  "agree st st' \<longleftrightarrow>
     mp_reader st = mp_reader st' \<and> message_flags (mp_message st) = message_flags (mp_message st') \<and>
     message_id (mp_message st) = message_id (mp_message st')"

definition uniform :: "field_parser \<Rightarrow> bool" where
  "uniform f \<longleftrightarrow>
     (\<forall>st st'. agree st st' \<longrightarrow> fst (f st) = fst (f st') \<and> agree (snd (f st)) (snd (f st')))"

definition uniform_setter :: "(bytes \<Rightarrow> message \<Rightarrow> message) \<Rightarrow> bool" where
  "uniform_setter f \<longleftrightarrow>
     (\<forall>d m m'. message_flags m = message_flags m' \<longrightarrow> message_id m = message_id m' \<longrightarrow>
        message_flags (f d m) = message_flags (f d m') \<and> message_id (f d m) = message_id (f d m'))"

lemma uniform_setters [simp]:
  "uniform_setter setMessageId" "uniform_setter setSenderNickname" "uniform_setter set_any_content"
  "uniform_setter setOriginalSenderNickname" "uniform_setter setRecipientNickname"
  "uniform_setter addMention" "uniform_setter setChannel"
  by (simp_all add: uniform_setter_def message_setters set_any_content_def isEncrypted_def)

lemma uniform_then: "uniform f \<Longrightarrow> uniform g \<Longrightarrow> uniform (parse_then f g)"
  by (simp add: uniform_def parse_then_def case_prod_beta)

lemma uniform_when:
  assumes "uniform f" and "\<And>m m'. message_flags m = message_flags m' \<Longrightarrow> c m = c m'"
  shows "uniform (parse_when c f)"
  unfolding uniform_def
proof (intro allI impI)
  fix st st' assume a: "agree st st'"
  then have "c (mp_message st) = c (mp_message st')"
    by (intro assms(2)) (simp add: agree_def)
  then show "fst (parse_when c f st) = fst (parse_when c f st') \<and>
      agree (snd (parse_when c f st)) (snd (parse_when c f st'))"
    using a assms(1) by (simp add: parse_when_def uniform_def)
qed

lemma take_field_uniform:
  assumes "uniform_setter f" and "agree st st'"
  shows "fst (take_field f n r st) = fst (take_field f n r st') \<and>
    agree (snd (take_field f n r st)) (snd (take_field f n r st'))"
proof (cases "read_data n r")
  case (Pair d r')
  have "message_flags (f x (mp_message st)) = message_flags (f x (mp_message st')) \<and>
      message_id (f x (mp_message st)) = message_id (f x (mp_message st'))" for x
    using assms unfolding uniform_setter_def agree_def by blast
  then show ?thesis
    using Pair assms(2) by (cases d) (simp_all add: take_field_def agree_def)
qed

lemma uniform_strings:
  assumes "uniform_setter f"
  shows "uniform (parse_short_string f)" and "uniform (parse_long_string f)"
proof -
  have "parse_short_string f st = take_field f (unat (fst (read_uint8 (mp_reader st))))
      (snd (read_uint8 (mp_reader st))) st"
    and "parse_long_string f st = take_field f (unat (fst (read_uint16 (mp_reader st))))
      (snd (read_uint16 (mp_reader st))) st" for st
    by (simp_all add: parse_short_string_def parse_long_string_def case_prod_beta)
  moreover have "agree st st' \<Longrightarrow> mp_reader st = mp_reader st'" for st st'
    by (simp add: agree_def)
  ultimately show "uniform (parse_short_string f)" "uniform (parse_long_string f)"
    unfolding uniform_def using take_field_uniform [OF assms] by presburger+
qed

lemma uniform_head: "uniform parse_head"
  by (auto simp: uniform_def agree_def parse_head_def message_setters split: prod.split)

lemma uniform_sender_peer: "uniform parse_sender_peer"
  by (auto simp: uniform_def agree_def parse_sender_peer_def Let_def setSenderPeer_def
      split: prod.split option.split)

lemma uniform_mentions: "uniform parse_mentions"
proof -
  have "uniform (parse_mentions_loop n)" for n
  proof (induction n)
    case (Suc n)
    then show ?case
      using uniform_then [OF uniform_strings(1) Suc] by (simp add: uniform_def)
  qed (simp add: uniform_def)
  then show ?thesis
    by (auto simp: uniform_def agree_def parse_mentions_def split: prod.split)
qed

lemma uniform_message_parser: "uniform message_parser"
  unfolding message_parser_def
  by (intro uniform_then uniform_when uniform_head uniform_sender_peer uniform_mentions uniform_strings
      uniform_setters) (simp_all add: message_flag_defs)

lemma processMessage_uniform:
  assumes "processMessage m data s = (ok, m1, s1)" and "processMessage m' data s' = (ok', m2, s2)"
    and "message_flags m = message_flags m'" and "message_id m = message_id m'"
  shows "ok = ok' \<and> message_id m1 = message_id m2"
proof (cases "length data < 13")
  case True
  then show ?thesis using assms by (auto simp: processMessage_def)
next
  case False
  have "agree \<lparr>mp_reader = new_BinaryReader 0 data, mp_message = m, mp_tracker = s\<rparr>
      \<lparr>mp_reader = new_BinaryReader 0 data, mp_message = m', mp_tracker = s'\<rparr>"
    using assms(3,4) by (simp add: agree_def)
  with uniform_message_parser have
    "fst (message_parser \<lparr>mp_reader = new_BinaryReader 0 data, mp_message = m, mp_tracker = s\<rparr>) =
     fst (message_parser \<lparr>mp_reader = new_BinaryReader 0 data, mp_message = m', mp_tracker = s'\<rparr>) \<and>
     agree (snd (message_parser \<lparr>mp_reader = new_BinaryReader 0 data, mp_message = m, mp_tracker = s\<rparr>))
       (snd (message_parser \<lparr>mp_reader = new_BinaryReader 0 data, mp_message = m', mp_tracker = s'\<rparr>))"
    unfolding uniform_def by blast
  then show ?thesis
    using assms(1,2) False by (auto simp: processMessage_def agree_def case_prod_beta)
qed


section \<open>Arrivals\<close>

text \<open>The keys under which messages and packets are known; reception only ever adds to them.\<close>

definition knows_more :: "tracker \<Rightarrow> tracker \<Rightarrow> bool" where
  "knows_more s s' \<longleftrightarrow>
     fst ` set (messages s) \<subseteq> fst ` set (messages s') \<and> fst ` set (packets s) \<subseteq> fst ` set (packets s')"

lemma knows_more_refl [simp]: "knows_more s s"
  by (simp add: knows_more_def)

lemma knows_more_trans: "knows_more s t \<Longrightarrow> knows_more t u \<Longrightarrow> knows_more s u"
  unfolding knows_more_def by (meson order_trans)

lemma knows_more_cong:
  "messages s' = messages s \<Longrightarrow> packets s' = packets s \<Longrightarrow> knows_more s s'"
  by (simp add: knows_more_def)

lemma pass_packet_along_knows_more:
  "pass_packet_along std_hash a cp p s = Inr s' \<Longrightarrow> knows_more s s'"
  using pass_packet_along_stores [of std_hash a cp p s s'] by (auto simp: knows_more_def)

text \<open>What a message payload is parsed to, and what becomes of it.\<close>

lemma only_peers_frames:
  assumes "s' = s\<lparr>peers := x\<rparr>"
  shows "messages s' = messages s" and "packets s' = packets s"
    and "broadcast_packets_to_send_list s' = broadcast_packets_to_send_list s"
    and "live_addresses s' = live_addresses s"
  using assms by simp_all

lemmas processMessage_stores = only_peers_frames [OF conjunct1 [OF processMessage_frame]]

text \<open>The id of the message in a packet, if the payload is one.\<close>

definition parsed_id :: "parsed_packet \<Rightarrow> bytes option" where
  "parsed_id p =
     (case processMessage (parsed_message p) (parsed_payload p) (new_tracker 0) of
        (ok, m, s) \<Rightarrow> if ok then Some (message_id m) else None)"

lemma processMessage_parsed_id:
  assumes "processMessage (parsed_message p) (parsed_payload p) s = (ok, m, s')"
  shows "parsed_id p = (if ok then Some (message_id m) else None)"
  using processMessage_uniform [OF assms, of "parsed_message p" "new_tracker 0"]
  by (auto simp: parsed_id_def split: prod.split)

lemma parsed_id_same_payload:
  assumes "parsed_payload q = parsed_payload p"
  shows "parsed_id q = parsed_id p"
proof -
  obtain ok m s' where m: "processMessage (parsed_message p) (parsed_payload p) (new_tracker 0) = (ok, m, s')"
    by (metis prod_cases3)
  obtain ok' m' s'' where m': "processMessage (parsed_message q) (parsed_payload p) (new_tracker 0) = (ok', m', s'')"
    by (metis prod_cases3)
  have "message_flags (parsed_message p) = message_flags (parsed_message q)"
    "message_id (parsed_message p) = message_id (parsed_message q)"
    by (simp_all add: parsed_message_def new_packet_defs)
  from processMessage_uniform [OF m m' this] show ?thesis
    by (simp add: parsed_id_def m m' assms)
qed

lemma receive_message_stores:
  assumes "receive_message a cp p s = Inr s'"
  shows "packets s' = packets s \<and>
    fst ` set (messages s') = fst ` set (messages s) \<union> set_option (parsed_id p) \<and>
    (set_option (parsed_id p) \<subseteq> fst ` set (messages s) \<longrightarrow>
       messages s' = messages s \<and> broadcast_packets_to_send_list s' = broadcast_packets_to_send_list s)"
proof -
  define s1 where "s1 = checkSenderInPeers (parsed_sender p) s"
  obtain ok m s2 where pm: "processMessage (parsed_message p) (parsed_payload p) s1 = (ok, m, s2)"
    by (metis prod_cases3)
  note s2 = processMessage_stores [OF pm]
  have s1: "messages s1 = messages s" "packets s1 = packets s"
    "broadcast_packets_to_send_list s1 = broadcast_packets_to_send_list s"
    by (simp_all add: s1_def)
  note id = processMessage_parsed_id [OF pm]
  obtain r s3 where store: "storeMessageAndReturnIfNew a m s2 = (r, s3)" by fastforce
  show ?thesis
  proof (cases "ok \<and> message_id m \<notin> fst ` set (messages s)")
    case False
    then have "s' = s2"
      using assms pm store message_store.store_old [of m s2 a] s2 s1
      by (auto simp: receive_message_def s1_def [symmetric] Let_def split: if_splits)
    then show ?thesis using s2 s1 id False by auto
  next
    case True
    then have r: "r = Some a" "fst ` set (messages s3) = insert (message_id m) (fst ` set (messages s))"
      using message_store.store_new [of m s2 a] store s2 s1 by auto
    have "packets s3 = packets s"
      using store s2 s1 by (auto simp: storeMessageAndReturnIfNew_def split: if_splits)
    moreover have "enqueueBroadcastPacketFrom a cp (parsed_sender p) s3 = Inr s'"
      using assms pm store r True by (simp add: receive_message_def s1_def [symmetric])
    ultimately show ?thesis
      using enqueueBroadcastPacketFrom_frames [of a cp _ s3 s'] id r True by auto
  qed
qed

lemma receive_message_knows_more: "receive_message a cp p s = Inr s' \<Longrightarrow> knows_more s s'"
  using receive_message_stores [of a cp p s s'] by (auto simp: knows_more_def)

lemma dispatch_packet_knows_more:
  assumes "dispatch_packet std_hash now a cp h p s = Inr s'"
  shows "knows_more s s'"
proof -
  have "knows_more s (updateOrStorePeerNoisePublicKey k key s)" for k key
    by (simp add: updateOrStorePeerNoisePublicKey_def knows_more_cong)
  moreover have "knows_more s s1" if "receive_announce now h p s = Inr s1" for s1
    using receive_announce_frames [OF that] by (simp add: knows_more_cong)
  ultimately show ?thesis
    using assms pass_packet_along_knows_more receive_message_knows_more
    by (auto simp: dispatch_packet_def split: option.splits if_splits intro: knows_more_trans)
qed

text \<open>Writes and notifications that arrive one after the other: clock, allocator, source and bytes of each.\<close>

type_synonym arrival = "u64 \<times> addr \<times> connection_ptr \<times> u16 \<times> nat \<times> bytes"

definition receive_all ::
    "(bytes \<Rightarrow> nat \<Rightarrow> bytes option) \<Rightarrow> (bytes \<Rightarrow> u32) \<Rightarrow> arrival list \<Rightarrow> tracker \<Rightarrow> tracker result" where
  "receive_all zlib std_hash =
     fold_result (\<lambda>(now_us, a, cp, handle, offset, buffer).
       processWrite zlib std_hash now_us a cp handle offset buffer)"

lemma processWrite_knows_more:
  "processWrite zlib std_hash now a cp h offset buffer s = Inr s' \<Longrightarrow> knows_more s s'"
  using dispatch_packet_knows_more by (auto simp: processWrite_def split: option.splits)

lemma receive_all_knows_more:
  assumes "receive_all zlib std_hash arrivals s = Inr s'"
  shows "knows_more s s'"
  using assms unfolding receive_all_def
  by (rule fold_result_invariant) (auto intro: processWrite_knows_more knows_more_trans)

lemma dispatch_relayed:
  assumes "type_of_value (parsed_type p) = Some t" and "t \<in> set relayed_types"
    and "dispatch_packet std_hash now a cp h p s = Inr s'"
  shows "\<exists>s1. pass_packet_along std_hash a cp p s1 = Inr s' \<and> messages s1 = messages s \<and>
    packets s1 = packets s \<and> broadcast_packets_to_send_list s1 = broadcast_packets_to_send_list s"
proof -
  have "t \<noteq> noiseIdentityAnnounce" "t \<noteq> type_message"
    using assms(2) by (auto simp: relayed_types_def)
  then show ?thesis
    using assms receive_announce_frames by (auto simp: dispatch_packet_def split: if_splits)
qed


section \<open>Properties\<close>

text \<open>
  C4: once a packet has been accepted for passing along, no later copy is queued or stored again, no
  matter what other packets arrive in between, over which connections, and how much of its time to live
  the copy has left: floods die out at a repeater. (Clean-up forgets packets.)
\<close>

theorem relayed_only_once:
  assumes "parse_packet zlib offset buffer = Inr (Some p)"
    and "type_of_value (parsed_type p) = Some t" and "t \<in> set relayed_types" and "parsed_ttl p \<ge> 1"
    and "processWrite zlib std_hash now a cp h offset buffer s = Inr s1"
    and "receive_all zlib std_hash arrivals s1 = Inr s2"
    and "parse_packet zlib offset' buffer' = Inr (Some (p\<lparr>parsed_ttl := ttl'\<rparr>))"
    and "processWrite zlib std_hash now' a' cp' h' offset' buffer' s2 = Inr s3"
  shows "broadcast_packets_to_send_list s3 = broadcast_packets_to_send_list s2 \<and>
    packets s3 = packets s2 \<and> messages s3 = messages s2"
proof -
  let ?q = "p\<lparr>parsed_ttl := ttl'\<rparr>"
  have hash: "getPacketHash std_hash (parsed_pass_along ?q) = getPacketHash std_hash (parsed_pass_along p)"
    by (simp add: getPacketHash_def parsed_pass_along_def new_packet_defs packet_setters)
  have "\<not> parsed_ttl p < 1" using assms(4) by (simp only: not_less)
  then have "getPacketHash std_hash (parsed_pass_along p) \<in> fst ` set (packets s1)"
    using assms(1,5) dispatch_relayed [OF assms(2,3)] pass_packet_along_stores
    by (fastforce simp: processWrite_def)
  then have known: "getPacketHash std_hash (parsed_pass_along ?q) \<in> fst ` set (packets s2)"
    using receive_all_knows_more [OF assms(6)] hash by (auto simp: knows_more_def)
  have "type_of_value (parsed_type ?q) = Some t" using assms(2) by simp
  moreover have "dispatch_packet std_hash now' a' cp' h' ?q s2 = Inr s3"
    using assms(7,8) by (simp add: processWrite_def)
  ultimately obtain s' where "pass_packet_along std_hash a' cp' ?q s' = Inr s3" "messages s' = messages s2"
    "packets s' = packets s2" "broadcast_packets_to_send_list s' = broadcast_packets_to_send_list s2"
    using dispatch_relayed [OF _ assms(3)] by blast
  then show ?thesis using pass_packet_along_known known by metis
qed

text \<open>A message that was received is known, and a message that is known is neither queued nor stored.\<close>

lemma received_message_known:
  assumes "parse_packet zlib offset buffer = Inr (Some p)" and "parsed_type p = type_value type_message"
    and "processWrite zlib std_hash now a cp h offset buffer s = Inr s1"
  shows "set_option (parsed_id p) \<subseteq> fst ` set (messages s1)"
proof -
  have "receive_message a cp p s = Inr s1"
    using assms type_of_type_value [of type_message] by (simp add: processWrite_def dispatch_packet_def)
  then show ?thesis using receive_message_stores by blast
qed

lemma known_message_not_queued:
  assumes "parse_packet zlib offset buffer = Inr (Some q)" and "parsed_type q = type_value type_message"
    and "set_option (parsed_id q) \<subseteq> fst ` set (messages s)"
    and "processWrite zlib std_hash now a cp h offset buffer s = Inr s'"
  shows "broadcast_packets_to_send_list s' = broadcast_packets_to_send_list s \<and>
    packets s' = packets s \<and> messages s' = messages s"
proof -
  have "receive_message a cp q s = Inr s'"
    using assms(1,2,4) type_of_type_value [of type_message] by (simp add: processWrite_def dispatch_packet_def)
  then show ?thesis using receive_message_stores assms(3) by blast
qed

section \<open>Time to live\<close>

lemma expired_message_not_queued:
  assumes "fresh a s" and "parsed_ttl p = 0" and "receive_message a cp p s = Inr s'"
  shows "broadcast_packets_to_send_list s' = broadcast_packets_to_send_list s"
proof -
  define s1 where "s1 = checkSenderInPeers (parsed_sender p) s"
  obtain ok m s2 where pm: "processMessage (parsed_message p) (parsed_payload p) s1 = (ok, m, s2)"
    by (metis prod_cases3)
  note s2 = processMessage_stores [OF pm]
  have ttl: "packet_ttl m = 0"
    using conjunct1 [OF conjunct2 [OF processMessage_frame [OF pm]]] assms(2)
    by (simp add: packet_base.defs parsed_message_def new_packet_defs)
  have b1: "broadcast_packets_to_send_list s1 = broadcast_packets_to_send_list s"
    and fresh: "fresh a s2"
    using assms(1) s2 by (simp_all add: s1_def)
  show ?thesis
  proof (cases "ok \<and> map_of (messages s2) (message_id m) = None")
    case False
    then have "s' = s2"
      using assms(3) pm
      by (auto simp: receive_message_def s1_def [symmetric] storeMessageAndReturnIfNew_def split: if_splits)
    then show ?thesis using s2 b1 by simp
  next
    case True
    let ?s3 = "s2\<lparr>messages := map_put (message_id m) (a, m) (messages s2)\<rparr>"
    have "enqueueBroadcastPacketFrom a cp (parsed_sender p) ?s3 = Inr s'"
      using assms(3) pm True
      by (simp add: receive_message_def s1_def [symmetric] storeMessageAndReturnIfNew_def)
    moreover have "deref_packet ?s3 a = Inr (MessagePacket m)"
      using True deref_stored_message [of s2 "message_id m" a m] fresh by simp
    ultimately have "broadcast_packets_to_send_list s' = broadcast_packets_to_send_list ?s3"
      using ttl enqueueBroadcastPacketFrom_frames [of a cp "parsed_sender p" ?s3 s'] by auto
    then show ?thesis using s2 b1 by simp
  qed
qed

text \<open>
  A packet whose time to live has run out is queued for nobody, whatever its type.
\<close>

lemma expired_packet_not_queued:
  assumes "fresh a s" and "parse_packet zlib offset buffer = Inr (Some p)" and "parsed_ttl p = 0"
    and "processWrite zlib std_hash now a cp h offset buffer s = Inr s'"
  shows "broadcast_packets_to_send_list s' = broadcast_packets_to_send_list s"
proof -
  have "parsed_ttl p < 1" using assms(3) by simp
  then have pass: "pass_packet_along std_hash a cp p t = Inr t' \<Longrightarrow> t' = t" for t t'
    by (simp add: pass_packet_along_def)
  have noise: "broadcast_packets_to_send_list (updateOrStorePeerNoisePublicKey k key s) =
      broadcast_packets_to_send_list s" for k key
    by (simp add: updateOrStorePeerNoisePublicKey_def)
  have "dispatch_packet std_hash now a cp h p s = Inr s'"
    using assms(2,4) by (simp add: processWrite_def)
  then show ?thesis
    using expired_message_not_queued [OF assms(1,3), of cp s'] noise
    by (auto simp: dispatch_packet_def dest!: pass dest: receive_announce_frames
        split: option.splits if_splits)
qed

text \<open>
  What waits to be broadcast is written with a time to live of exactly one less, which never wraps
  around.
\<close>

lemma relayed_ttl_decreases:
  assumes "tracker_ok s" and "p \<in> set (broadcast_packets_to_send_list s)"
    and "deref_packet s p = Inr pk" and "writePacket (peers s) pk [] = Inr bytes"
  shows "unat (bytes ! 2) + 1 = unat (packet_ttl (base pk))"
proof -
  have "packet_ttl (base pk) > 0"
    using assms(1-3) by (auto simp: tracker_ok_def queues_ok_def relayable_def)
  moreover have "bytes ! 2 = packet_ttl (base pk) - 1"
    using assms(4) by (auto simp: writePacket_bytes header_bytes_def)
  ultimately show ?thesis
    by (simp add: word_gt_0 unat_minus_one unat_gt_0)
qed

section \<open>Failures\<close>

text \<open>
  The header as the parser reads it: version, flags, payload length and the reader behind it. A signature is
  missing when the flags announce one and fewer than 64 bytes follow the payload.
\<close>

definition read_header :: "nat \<Rightarrow> bytes \<Rightarrow> u8 \<times> u8 \<times> u16 \<times> binary_reader" where
  "read_header offset buffer =
     (let (version, r) = read_uint8 (new_BinaryReader offset buffer);
          (type, r) = read_uint8 r;
          (ttl, r) = read_uint8 r;
          (timestamp, r) = read_uint64 r;
          (flags, r) = read_uint8 r;
          (n, r) = read_uint16 r;
          (sender, r) = read_uint64 r
      in (version, flags, n, if has_flag flags packet_flag_has_recipient then snd (read_uint64 r) else r))"

definition signature_missing :: "nat \<Rightarrow> bytes \<Rightarrow> bool" where
  "signature_missing offset buffer \<longleftrightarrow>
     (let (version, flags, n, r) = read_header offset buffer;
          compressed = has_flag flags packet_flag_is_compressed;
          payload_start = rpos (if compressed then snd (read_uint16 r) else r);
          payload_end = payload_start + unat (if compressed then n - 2 else n)
      in version = 1 \<and> has_flag flags packet_flag_has_signature \<and>
         payload_end \<le> length buffer \<and> length buffer < payload_end + 64)"

lemma rbuffer_reads [simp]:
  "rbuffer (snd (read_uint8 r)) = rbuffer r" "rbuffer (snd (read_uint16 r)) = rbuffer r"
  "rbuffer (snd (read_uint64 r)) = rbuffer r"
  by (simp_all add: read_uint8_def read_uint16_def read_uint64_def)

lemma rbuffer_new [simp]: "rbuffer (new_BinaryReader n buf) = buf"
  by (simp add: new_BinaryReader_def)

lemma parse_payload_then_signature:
  "(case parse_payload zlib flags n r of (None, r) \<Rightarrow> Inr None
    | (Some data, r) \<Rightarrow> bind_result (parse_signature flags r) (\<lambda>sig. Inr (Some (f data sig)))) = Inl e \<longleftrightarrow>
   e = NullDereference \<and> has_flag flags packet_flag_has_signature \<and>
   (let compressed = has_flag flags packet_flag_is_compressed;
        payload_start = rpos (if compressed then snd (read_uint16 r) else r);
        payload_end = payload_start + unat (if compressed then n - 2 else n)
    in payload_end \<le> buffer_size r \<and> buffer_size r < payload_end + 64)"
  by (cases "has_flag flags packet_flag_is_compressed")
    (auto simp: parse_payload_def parse_signature_def read_data_def Let_def bind_result_eq_Inl case_prod_beta
      split: if_splits)

lemma parse_packet_failure:
  "parse_packet zlib offset buffer = Inl e \<longleftrightarrow> e = NullDereference \<and> signature_missing offset buffer"
proof -
  obtain version r1 where 1: "read_uint8 (new_BinaryReader offset buffer) = (version, r1)" by fastforce
  obtain type r2 where 2: "read_uint8 r1 = (type, r2)" by fastforce
  obtain ttl r3 where 3: "read_uint8 r2 = (ttl, r3)" by fastforce
  obtain timestamp r4 where 4: "read_uint64 r3 = (timestamp, r4)" by fastforce
  obtain flags r5 where 5: "read_uint8 r4 = (flags, r5)" by fastforce
  obtain n r6 where 6: "read_uint16 r5 = (n, r6)" by fastforce
  obtain sender r7 where 7: "read_uint64 r6 = (sender, r7)" by fastforce
  obtain recipient r where 8:
    "(if has_flag flags packet_flag_has_recipient then read_uint64 r7 else (0, r7)) = (recipient, r)"
    by fastforce
  note reads = 1 2 3 4 5 6 7 8
  have r: "r = (if has_flag flags packet_flag_has_recipient then snd (read_uint64 r7) else r7)"
    using 8 by (auto split: if_splits)
  have "rbuffer r = buffer"
    unfolding r using rbuffer_reads rbuffer_new 1 2 3 4 5 6 7 by (metis snd_conv)
  moreover have "read_header offset buffer = (version, flags, n, r)"
    unfolding r by (simp add: read_header_def 1 2 3 4 5 6 7)
  ultimately show ?thesis
    by (auto simp: parse_packet_def signature_missing_def reads parse_payload_then_signature Let_def)
qed

lemma enqueue_stored_total:
  assumes "a \<in> set (live_addresses s)"
  shows "enqueueBroadcastPacketFrom a cp k s \<noteq> Inl e"
proof -
  obtain pk where "deref_packet s a = Inr pk" using assms deref_live by blast
  then show ?thesis
    by (simp add: enqueueBroadcastPacketFrom_def enqueueBroadcastPacket_def)
qed

lemma map_put_address: "a \<in> fst ` snd ` set (map_put k (a, v) m)"
proof -
  have "(k, a, v) \<in> set (map_put k (a, v) m)"
    by (induction m) auto
  then show ?thesis by force
qed

lemma stored_is_live:
  "storeMessageAndReturnIfNew a m s = (Some q, s') \<Longrightarrow> q \<in> set (live_addresses s')"
  "storePacketAndReturnIfNew std_hash a p s = (Some q, s') \<Longrightarrow> q \<in> set (live_addresses s')"
  by (auto simp: storeMessageAndReturnIfNew_def storePacketAndReturnIfNew_def set_live_addresses
      map_put_address split: if_splits)

lemma receive_message_total: "receive_message a cp p s \<noteq> Inl e"
  using stored_is_live(1) enqueue_stored_total
  by (auto simp: receive_message_def Let_def split: prod.splits option.splits)

lemma pass_packet_along_total: "pass_packet_along std_hash a cp p s \<noteq> Inl e"
  using stored_is_live(2) enqueue_stored_total
  by (auto simp: pass_packet_along_def Let_def split: prod.splits option.splits)

lemma time_offset_updateOrStorePeerName [simp]:
  "timestamp_offset_ms (updateOrStorePeerName k name ttl h s) = timestamp_offset_ms s"
  by (simp add: updateOrStorePeerName_def checkSenderInPeers_def update_peer_def
      setConnectionHandleForPeer_def Let_def split: option.split)

lemma receive_announce_failure:
  "receive_announce now h p s = Inl e \<longleftrightarrow>
     e = SignedOverflow \<and> \<bar>sint (parsed_timestamp p) - sint (getTimeMs now s)\<bar> \<ge> 2 ^ 63"
  by (auto simp: receive_announce_def possiblyUpdateTimeOffset_def getTimeMs_def Let_def abs_le_iff abs_if)

text \<open>
  C13: receiving fails in two ways only, whatever the bytes: the flags announce a signature and fewer than
  64 bytes are left behind the payload, or an announcement's time is further than the signed range away
  from the clock.
\<close>

theorem processWrite_failures:
  "processWrite zlib std_hash now a cp h offset buffer s = Inl e \<longleftrightarrow>
    e = NullDereference \<and> signature_missing offset buffer \<or>
    e = SignedOverflow \<and> (\<exists>p. parse_packet zlib offset buffer = Inr (Some p) \<and>
      type_of_value (parsed_type p) = Some type_announce \<and>
      \<bar>sint (parsed_timestamp p) - sint (getTimeMs now s)\<bar> \<ge> 2 ^ 63)"
proof -
  have "dispatch_packet std_hash now a cp h p s = Inl e \<longleftrightarrow>
      type_of_value (parsed_type p) = Some type_announce \<and> e = SignedOverflow \<and>
      \<bar>sint (parsed_timestamp p) - sint (getTimeMs now s)\<bar> \<ge> 2 ^ 63" for p
    using receive_message_total pass_packet_along_total
    by (auto simp: dispatch_packet_def bind_result_eq_Inl receive_announce_failure split: option.split)
  then show ?thesis
    using parse_packet_failure [of zlib offset buffer]
    by (auto simp: processWrite_def bind_result_eq_Inl split: option.split)
qed

section \<open>Witnesses\<close>

text \<open>A packet of 24 bytes from peer 42 with a payload of one byte, and a hash of byte strings.\<close>

definition sample_buffer :: "u8 \<Rightarrow> u8 \<Rightarrow> bytes" where
  "sample_buffer t ttl =
     [1, t, ttl, 0, 0, 0, 0, 0, 0, 0, 9, 0, 0, 1, 0, 0, 0, 0, 0, 0, 0, 42, 10, 0]"

definition sample_packet :: parsed_packet where
  "sample_packet =
     \<lparr>parsed_type = 5, parsed_ttl = 3, parsed_timestamp = 9, parsed_flags = 0, parsed_sender = 42,
      parsed_recipient = 0, parsed_payload = [10], parsed_signature = []\<rparr>"

definition sample_hash :: "bytes \<Rightarrow> u32" where
  "sample_hash bs = of_nat (length bs)"

definition no_zlib :: "bytes \<Rightarrow> nat \<Rightarrow> bytes option" where
  "no_zlib data room = None"

text \<open>A message with the id \<open>[9]\<close>, the nickname \<open>[8]\<close> and the content \<open>[7]\<close>, with some time to live.\<close>

definition sample_message_buffer :: "u8 \<Rightarrow> bytes" where
  "sample_message_buffer ttl =
     [1, 4, ttl, 0, 0, 0, 0, 0, 0, 0, 9, 0, 0, 16, 0, 0, 0, 0, 0, 0, 0, 42,
      0, 0, 0, 0, 0, 0, 0, 0, 5, 1, 9, 1, 8, 0, 1, 7, 0]"

definition sample_message_packet :: "u8 \<Rightarrow> parsed_packet" where
  "sample_message_packet ttl =
     \<lparr>parsed_type = 4, parsed_ttl = ttl, parsed_timestamp = 9, parsed_flags = 0, parsed_sender = 42,
      parsed_recipient = 0, parsed_payload = [0, 0, 0, 0, 0, 0, 0, 0, 5, 1, 9, 1, 8, 0, 1, 7],
      parsed_signature = []\<rparr>"

abbreviation sample_write :: "addr \<Rightarrow> u16 \<Rightarrow> bytes \<Rightarrow> tracker \<Rightarrow> tracker result" where
  "sample_write a h \<equiv> processWrite no_zlib sample_hash 0 a (ConnectionNode h) h 0"

lemma sample_parses:
  "parse_packet no_zlib 0 (sample_buffer 5 3) = Inr (Some sample_packet)"
  "parse_packet no_zlib 0 (sample_buffer 5 2) = Inr (Some (sample_packet\<lparr>parsed_ttl := 2\<rparr>))"
  "parse_packet no_zlib 0 (sample_buffer 5 0) = Inr (Some (sample_packet\<lparr>parsed_ttl := 0\<rparr>))"
  "parse_packet no_zlib 0 (sample_message_buffer 3) = Inr (Some (sample_message_packet 3))"
  "parse_packet no_zlib 0 (sample_message_buffer 2) = Inr (Some (sample_message_packet 2))"
  by code_simp+

lemma sample_writes:
  "map_sum id broadcast_packets_to_send_list
     (bind_result (sample_write 5 64 (sample_buffer 5 3) (new_tracker 1)) (\<lambda>s.
      bind_result (sample_write 6 65 (sample_message_buffer 3) s) (\<lambda>s.
        sample_write 7 65 (sample_buffer 5 2) s))) = Inr [5, 6]"
  by code_simp

lemma map_sum_Inr_D: "map_sum id f r = Inr y \<Longrightarrow> \<exists>x. r = Inr x \<and> f x = y"
  by (cases r) auto

theorem relayed_only_once_witness:
  "\<exists>s1 s2 s3. sample_write 5 64 (sample_buffer 5 3) (new_tracker 1) = Inr s1 \<and>
     sample_write 6 65 (sample_message_buffer 3) s1 = Inr s2 \<and>
     sample_write 7 65 (sample_buffer 5 2) s2 = Inr s3 \<and>
     broadcast_packets_to_send_list s3 = broadcast_packets_to_send_list s2 \<and> packets s3 = packets s2"
proof -
  obtain s1 s2 s3 where s: "sample_write 5 64 (sample_buffer 5 3) (new_tracker 1) = Inr s1"
    "sample_write 6 65 (sample_message_buffer 3) s1 = Inr s2" "sample_write 7 65 (sample_buffer 5 2) s2 = Inr s3"
    using map_sum_Inr_D [OF sample_writes] by auto
  have "receive_all no_zlib sample_hash [(0, 6, ConnectionNode 65, 65, 0, sample_message_buffer 3)] s1 = Inr s2"
    using s(2) by (simp add: receive_all_def)
  moreover have "type_of_value (parsed_type sample_packet) = Some type_fragment_start"
    "type_fragment_start \<in> set relayed_types" "parsed_ttl sample_packet \<ge> 1"
    by code_simp+
  ultimately show ?thesis
    using s relayed_only_once [OF sample_parses(1) _ _ _ s(1) _ sample_parses(2) s(3)] by blast
qed

text \<open>A header that announces a signature, and 63 bytes in its place.\<close>

definition unsigned_buffer :: bytes where
  "unsigned_buffer =
     [1, 5, 3, 0, 0, 0, 0, 0, 0, 0, 9, 2, 0, 1, 0, 0, 0, 0, 0, 0, 0, 42, 10] @ replicate 63 0"

theorem processWrite_failures_witness:
  "sample_write 5 64 unsigned_buffer (new_tracker 1) = Inl NullDereference"
proof -
  have "signature_missing 0 unsigned_buffer" by code_simp
  then show ?thesis by (simp add: processWrite_failures)
qed

end
