(* ===== verification/Handlers.thy ===== *)
theory Handlers
  imports Receive
begin

text \<open>
  The globals of \<open>main.cpp\<close> and the callbacks that the Bluetooth stack, its timers and the pins run. An
  event comes decoded: its constructor is the event code and its fields are what the stack's accessors
  return. What the stack's headers and the generated profile define is collected in a record that every
  handler takes.
\<close>

section \<open>The platform\<close>

text \<open>
  Constants and functions from outside the repository: the attribute handles generated from
  \<open>bitchat_repeater.gatt\<close>, the stack's constants that are written or compared, \<open>little_endian_read_16\<close>,
  the advertisement iterator (for each element its type and the memory from its data on, as far as it
  can be read), libdeflate and \<open>std::hash\<close>.
\<close>

record platform =
  CLIENT_CONFIGURATION_HANDLE :: u16
  VALUE_HANDLE :: u16
  USER_DESCRIPTION_HANDLE :: u16
  CONFIGURATION_NOTIFICATION :: u16
  DATA_TYPE_FLAGS :: u8
  DATA_TYPE_INCOMPLETE_UUIDS :: u8
  DATA_TYPE_COMPLETE_UUIDS :: u8
  DATA_TYPE_SOLICITATION_UUIDS :: u8
  DATA_TYPE_SHORTENED_NAME :: u8
  DATA_TYPE_COMPLETE_NAME :: u8
  little_endian_read_16 :: "bytes \<Rightarrow> nat \<Rightarrow> u16 result"
  ad_iterator :: "bytes \<Rightarrow> (u8 \<times> bytes) list"
  libdeflate :: "bytes \<Rightarrow> nat \<Rightarrow> bytes option"
  hash_function :: "bytes \<Rightarrow> u32"

text \<open>
  What a callback meets when it runs: the time, the address the allocator gives to a new node, and the
  address of the callback's own locals.
\<close>

record moment =
  now_us :: u64
  new_node :: addr
  frame :: addr

section \<open>Globals\<close>

record repeater =
  keep_running :: bool
  life_check :: bool
  global_activity :: u16
  scanning :: bool
  connection_in_progress :: bool
  disconnection_started_at :: u32
  discover_primary_services :: bool
  discover_characteristics_for_service :: bool
  connection_tracker :: tracker
  adv_data :: bytes
  adv_data_len :: u8

definition BLE_ADVERTISING_MAX_LENGTH :: nat where
  "BLE_ADVERTISING_MAX_LENGTH = 31"

definition BLE_FLAGS_LE_ONLY_GENERAL_DISC_MODE :: u8 where
  "BLE_FLAGS_LE_ONLY_GENERAL_DISC_MODE = 0x02 OR 0x04"

definition BLE_SCAN_PERIOD_MS :: u32 where
  "BLE_SCAN_PERIOD_MS = 2000"

definition EXIT_GPIO_PIN :: nat where
  "EXIT_GPIO_PIN = 28"

definition LIFE_CHECK_PIN :: nat where
  "LIFE_CHECK_PIN = 18"

text \<open>The tracker's announcement stands at \<open>a\<close>; statics without an initialiser are zero.\<close>

definition initial_repeater :: "addr \<Rightarrow> repeater" where
  "initial_repeater a =
     \<lparr>keep_running = True, life_check = False, global_activity = 0, scanning = False,
      connection_in_progress = False, disconnection_started_at = 0, discover_primary_services = False,
      discover_characteristics_for_service = False, connection_tracker = new_tracker a,
      adv_data = replicate BLE_ADVERTISING_MAX_LENGTH 0, adv_data_len = 0\<rparr>"

definition active :: "repeater \<Rightarrow> repeater" where
  "active r = r\<lparr>global_activity := global_activity r + 1\<rparr>"

definition on_tracker :: "(tracker \<Rightarrow> tracker) \<Rightarrow> repeater \<Rightarrow> repeater" where
  "on_tracker f r = r\<lparr>connection_tracker := f (connection_tracker r)\<rparr>"

definition try_tracker :: "(tracker \<Rightarrow> tracker result) \<Rightarrow> repeater \<Rightarrow> repeater result" where
  "try_tracker f r =
     bind_result (f (connection_tracker r)) (\<lambda>s. Inr (r\<lparr>connection_tracker := s\<rparr>))"

definition call :: "stack_call \<Rightarrow> repeater \<Rightarrow> repeater" where
  "call c = on_tracker (call_stack c)"

section \<open>The attribute server\<close>

text \<open>
  The buffer has \<open>buffer_size\<close> bytes. An offset behind its end makes the length of the \<open>memset\<close>
  negative, a huge \<open>size_t\<close>.
\<close>

definition clear_from :: "u16 \<Rightarrow> bytes \<Rightarrow> bytes result" where
  "clear_from offset buffer =
     (if unat offset > length buffer then Inl OutOfBounds
      else Inr (take (unat offset) buffer @ replicate (length buffer - unat offset) 0))"

definition att_read_callback ::
    "platform \<Rightarrow> u16 \<Rightarrow> u16 \<Rightarrow> bytes \<Rightarrow> repeater \<Rightarrow> (u16 \<times> bytes \<times> repeater) result" where
  "att_read_callback pf att_handle offset buffer r =
     (let r = active r
      in if att_handle = CLIENT_CONFIGURATION_HANDLE pf
         then bind_result (clear_from offset buffer) (\<lambda>b. Inr (2, b, r))
         else if att_handle = VALUE_HANDLE pf \<or> att_handle = USER_DESCRIPTION_HANDLE pf
         then bind_result (clear_from offset buffer) (\<lambda>b. Inr (0, b, r))
         else Inr (0, buffer, r))"

datatype transaction_mode =
    TRANSACTION_NONE | TRANSACTION_ACTIVE | TRANSACTION_EXECUTE | TRANSACTION_CANCEL
  | TRANSACTION_VALIDATE | TRANSACTION_OTHER

text \<open>
  A client configures notifications, or writes a packet. The connection passed on is the tracker's
  node.
\<close>

definition configure_notifications :: "platform \<Rightarrow> u16 \<Rightarrow> bytes \<Rightarrow> tracker \<Rightarrow> tracker result" where
  "configure_notifications pf h buffer s =
     bind_result (little_endian_read_16 pf buffer 0) (\<lambda>v.
       let enabled = (v = CONFIGURATION_NOTIFICATION pf);
           s = update_connection h (setNotificationEnabled enabled) s
       in Inr (if enabled
               then update_connection h (setBitchatCharacteristicValueHandle (VALUE_HANDLE pf)) s
               else s))"

definition att_write_callback ::
    "platform \<Rightarrow> moment \<Rightarrow> u16 \<Rightarrow> u16 \<Rightarrow> transaction_mode \<Rightarrow> u16 \<Rightarrow> bytes \<Rightarrow> repeater \<Rightarrow> repeater result" where
  "att_write_callback pf t h att_handle mode offset buffer r =
     (let r = active r
      in if mode \<noteq> TRANSACTION_NONE then Inr r
         else
           (let r = on_tracker (connectionForConnHandle h) r
            in if att_handle = CLIENT_CONFIGURATION_HANDLE pf
               then try_tracker (configure_notifications pf h buffer) r
               else if att_handle = VALUE_HANDLE pf
               then try_tracker (\<lambda>s. processWrite (libdeflate pf) (hash_function pf) (now_us t) (new_node t)
                      (ConnectionNode h) (connection_handle (connection_or_new s h)) (unat offset) buffer s) r
               else Inr r))"

section \<open>Advertising and scanning\<close>

text \<open>\<open>adv_data[adv_data_len++] = b\<close>, and \<open>memcpy\<close> to where \<open>adv_data_len\<close> stands.\<close>

definition adv_put :: "u8 \<Rightarrow> repeater \<Rightarrow> repeater result" where
  "adv_put b r =
     (if unat (adv_data_len r) < length (adv_data r)
      then Inr (r\<lparr>adv_data := (adv_data r)[unat (adv_data_len r) := b], adv_data_len := adv_data_len r + 1\<rparr>)
      else Inl OutOfBounds)"

definition adv_copy :: "bytes \<Rightarrow> repeater \<Rightarrow> repeater result" where
  "adv_copy bs r =
     (let n = unat (adv_data_len r)
      in if n + length bs \<le> length (adv_data r)
         then Inr (r\<lparr>adv_data := take n (adv_data r) @ bs @ drop (n + length bs) (adv_data r),
                     adv_data_len := adv_data_len r + of_nat (length bs)\<rparr>)
         else Inl OutOfBounds)"

definition put_name :: "platform \<Rightarrow> repeater \<Rightarrow> repeater result" where
  "put_name pf r =
     (let name_len = of_nat (length bitchat_service_name) :: u8;
          fitable_name_len = min (of_nat BLE_ADVERTISING_MAX_LENGTH - adv_data_len r - 2) name_len
      in bind_result (adv_put (fitable_name_len + 1) r) (\<lambda>r.
         bind_result (adv_put (if fitable_name_len = name_len then DATA_TYPE_COMPLETE_NAME pf
                               else DATA_TYPE_SHORTENED_NAME pf) r) (\<lambda>r.
           adv_copy (take (unat fitable_name_len) bitchat_service_name) r)))"

definition populate_advertising_data :: "platform \<Rightarrow> repeater \<Rightarrow> repeater result" where
  "populate_advertising_data pf r =
     bind_result
       (fold_result adv_put
          [2, DATA_TYPE_FLAGS pf, BLE_FLAGS_LE_ONLY_GENERAL_DISC_MODE, 17, DATA_TYPE_INCOMPLETE_UUIDS pf] r)
       (\<lambda>r. bind_result (adv_copy bitchat_service_uuid_reversed r) (put_name pf))"

definition setup_advertisements :: "platform \<Rightarrow> repeater \<Rightarrow> repeater result" where
  "setup_advertisements pf r =
     bind_result (populate_advertising_data pf r) (\<lambda>r.
       Inr (call (Enable_advertisements True)
              (call (Set_advertisement_data (adv_data_len r) (adv_data r))
                (call (Set_advertisement_params (of_nat (200000 div 625)) (of_nat (1000000 div 625)) 0 0 (replicate 6 0) 0x07 0x00) r))))"

definition start_scanning_for_local_nodes :: "repeater \<Rightarrow> repeater" where
  "start_scanning_for_local_nodes r =
     call (Start_timer BLE_SCAN_PERIOD_MS) ((call Start_scan r)\<lparr>scanning := True\<rparr>)"

definition setup_scanning :: "repeater \<Rightarrow> repeater" where
  "setup_scanning r =
     start_scanning_for_local_nodes
       (call (Set_scan_duplicate_filter True) (call (Set_scan_params 0 0x0030 0x0030 0) r))"

definition stop_scan_handler :: "repeater \<Rightarrow> repeater" where
  "stop_scan_handler r = (call Stop_scan (active r))\<lparr>scanning := False\<rparr>"

text \<open>
  \<open>memcmp\<close> looks at as many bytes as the expected text has, however long the element is.
\<close>

definition same_memory :: "bytes \<Rightarrow> bytes \<Rightarrow> bool result" where
  "same_memory expected data =
     (if length data < length expected then Inl OutOfBounds
      else Inr (take (length expected) data = expected))"

fun check_elements :: "platform \<Rightarrow> (u8 \<times> bytes) list \<Rightarrow> bool \<Rightarrow> bool \<Rightarrow> (bool \<times> bool) result" where
  "check_elements pf [] found_uuid found_name = Inr (found_uuid, found_name)"
| "check_elements pf ((data_type, data) # rest) found_uuid found_name =
     (if data_type \<in> {DATA_TYPE_INCOMPLETE_UUIDS pf, DATA_TYPE_COMPLETE_UUIDS pf,
                       DATA_TYPE_SOLICITATION_UUIDS pf}
      then bind_result (same_memory bitchat_service_uuid_reversed data) (\<lambda>found.
             check_elements pf rest found found_name)
      else if data_type \<in> {DATA_TYPE_SHORTENED_NAME pf, DATA_TYPE_COMPLETE_NAME pf}
      then bind_result (same_memory bitchat_service_name data) (\<lambda>found.
             check_elements pf rest found_uuid found)
      else check_elements pf rest found_uuid found_name)"

definition check_for_uuid :: "platform \<Rightarrow> bytes \<Rightarrow> service_uuid_check_status result" where
  "check_for_uuid pf advertisement_data =
     bind_result (check_elements pf (ad_iterator pf advertisement_data) False False)
       (\<lambda>(found_uuid, found_name).
         Inr (if found_uuid
              then (if found_name then ServiceUUIDAndNameFound else ServiceUUIDFound)
              else ServiceUUIDNotFound))"

section \<open>The attribute client\<close>

datatype gatt_client_event =
    GATT_EVENT_MTU u16 u16
  | GATT_EVENT_SERVICE_QUERY_RESULT u16 gatt_service
  | GATT_EVENT_CHARACTERISTIC_QUERY_RESULT u16 gatt_characteristic
  | GATT_EVENT_QUERY_COMPLETE u16
  | Other_gatt_event

fun gatt_client_event_handler :: "gatt_client_event \<Rightarrow> repeater \<Rightarrow> repeater" where
  "gatt_client_event_handler (GATT_EVENT_MTU h mtu) r =
     on_tracker (update_connection h (setMtu mtu) \<circ> connectionForConnHandle h) r"
| "gatt_client_event_handler (GATT_EVENT_SERVICE_QUERY_RESULT h service) r =
     on_tracker
       ((if service_uuid16 service = 0 then update_connection h (storeHandlesIfServiceMatches service) else id) \<circ>
        connectionForConnHandle h) r"
| "gatt_client_event_handler (GATT_EVENT_CHARACTERISTIC_QUERY_RESULT h characteristic) r =
     on_tracker
       ((if characteristic_uuid16 characteristic = 0
         then update_connection h (storeHandlesIfCharacteristicMatches characteristic) else id) \<circ>
        connectionForConnHandle h) r"
| "gatt_client_event_handler (GATT_EVENT_QUERY_COMPLETE h) r =
     (let r = on_tracker (connectionForConnHandle h) r;
          r = r\<lparr>discover_primary_services := False, discover_characteristics_for_service := False\<rparr>
      in case canAndNeedToDiscoverBitchatCharacteristicsQuery (connection_or_new (connection_tracker r) h) of
           None \<Rightarrow> r
         | Some service \<Rightarrow>
             call (Discover_characteristics h (start_group_handle service) (end_group_handle service)
                     bitchat_characteristic_uuid)
               (r\<lparr>discover_characteristics_for_service := True\<rparr>))"
| "gatt_client_event_handler Other_gatt_event r = r"

definition handle_gatt_client_event :: "gatt_client_event \<Rightarrow> repeater \<Rightarrow> repeater" where
  "handle_gatt_client_event e r = gatt_client_event_handler e (active r)"

datatype value_update_event =
    GATT_EVENT_NOTIFICATION u16 bytes
  | GATT_EVENT_INDICATION u16 bytes
  | Other_value_update

text \<open>The connection passed on is a copy in the callback's frame.\<close>

definition handle_gatt_client_value_update_event ::
    "platform \<Rightarrow> moment \<Rightarrow> value_update_event \<Rightarrow> repeater \<Rightarrow> repeater result" where
  "handle_gatt_client_value_update_event pf t e r =
     (let r = active r
      in case e of
           GATT_EVENT_NOTIFICATION h data \<Rightarrow>
             try_tracker (\<lambda>s. let s = connectionForConnHandle h s in
               processWrite (libdeflate pf) (hash_function pf) (now_us t) (new_node t) (LocalCopy (frame t))
                 (connection_handle (connection_or_new s h)) 0 data s) r
         | _ \<Rightarrow> Inr r)"

section \<open>The host controller, the attribute server and the security manager\<close>

datatype hci_event =
    BTSTACK_EVENT_STATE bool
  | HCI_EVENT_DISCONNECTION_COMPLETE u16
  | SM_EVENT_PAIRING_STARTED
  | SM_EVENT_PAIRING_COMPLETE
  | GAP_EVENT_RSSI_MEASUREMENT u16 int
  | BTSTACK_EVENT_NR_CONNECTIONS_CHANGED u8
  | HCI_SUBEVENT_LE_CONNECTION_COMPLETE u16 bytes u8 u8
  | HCI_EVENT_LE_META_OTHER
  | GAP_EVENT_ADVERTISING_REPORT bytes u8 int bytes
  | GAP_SUBEVENT_LE_CONNECTION_COMPLETE u16 bytes u8 u8
  | HCI_EVENT_META_GAP_OTHER
  | GATT_EVENT_CAN_WRITE_WITHOUT_RESPONSE u16
  | GATT_EVENT_QUERY_COMPLETE_STATUS u8
  | Other_hci_event

text \<open>
  The first argument of \<open>BTSTACK_EVENT_STATE\<close> says whether the state is \<open>HCI_STATE_WORKING\<close>. The RSSI is
  set on a copy of the connection.
\<close>

fun hci_event_handler :: "platform \<Rightarrow> moment \<Rightarrow> hci_event \<Rightarrow> repeater \<Rightarrow> repeater result" where
  "hci_event_handler pf t (BTSTACK_EVENT_STATE working) r =
     (if \<not> working then Inr r
      else bind_result (setup_advertisements pf (call (Set_max_peripheral_connections 4) r)) (\<lambda>r.
             Inr (setup_scanning r)))"
| "hci_event_handler pf t (HCI_EVENT_DISCONNECTION_COMPLETE h) r =
     Inr (on_tracker (reportDisconnection (frame t) h) r)"
| "hci_event_handler pf t (GAP_EVENT_RSSI_MEASUREMENT h rssi_value) r =
     Inr (on_tracker (connectionForConnHandle h) r)"
| "hci_event_handler pf t (HCI_SUBEVENT_LE_CONNECTION_COMPLETE h address address_type new_role) r =
     Inr (on_tracker (reportConnectionWithRole (now_us t) h address address_type new_role) r)"
| "hci_event_handler pf t (GAP_EVENT_ADVERTISING_REPORT address address_type rssi_value data) r =
     bind_result (check_for_uuid pf data) (\<lambda>services.
       Inr (if services = ServiceUUIDNotFound then r
            else on_tracker (addAvailablePeer (now_us t) address address_type services rssi_value) r))"
| "hci_event_handler pf t (GAP_SUBEVENT_LE_CONNECTION_COMPLETE h address address_type new_role) r =
     (let r = call (Enable_advertisements True) r;
          r = on_tracker (reportConnectionWithRole (now_us t) h address address_type new_role) r
      in Inr (call (Discover_primary_services h bitchat_service_uuid)
           (r\<lparr>connection_in_progress := False, discover_primary_services := True\<rparr>)))"
| "hci_event_handler pf t _ r = Inr r"

definition hci_packet_handler ::
    "platform \<Rightarrow> moment \<Rightarrow> bool \<Rightarrow> hci_event \<Rightarrow> repeater \<Rightarrow> repeater result" where
  "hci_packet_handler pf t is_hci_event e r =
     (if is_hci_event then hci_event_handler pf t e (active r) else Inr (active r))"

datatype att_event =
    ATT_EVENT_CAN_SEND_NOW
  | ATT_CAN_WRITE_WITHOUT_RESPONSE
  | ATT_EVENT_CONNECTED u16 bytes u8
  | ATT_EVENT_DISCONNECTED u16
  | Other_att_event

definition att_packet_handler :: "moment \<Rightarrow> bool \<Rightarrow> att_event \<Rightarrow> repeater \<Rightarrow> repeater" where
  "att_packet_handler t is_hci_event e r =
     (let r = active r
      in if \<not> is_hci_event then r
         else case e of
             ATT_EVENT_CONNECTED h address address_type \<Rightarrow>
               on_tracker (reportConnection (now_us t) h address address_type) r
           | ATT_EVENT_DISCONNECTED h \<Rightarrow> on_tracker (reportDisconnection (frame t) h) r
           | _ \<Rightarrow> r)"

definition sm_packet_handler :: "repeater \<Rightarrow> repeater" where
  "sm_packet_handler r = active r"

text \<open>The stack is ready to send for the connection the last request was made for.\<close>

definition bitchat_can_send_notification_handler :: "u8 \<Rightarrow> repeater \<Rightarrow> repeater result" where
  "bitchat_can_send_notification_handler ret =
     try_tracker (\<lambda>s. notifyRawPacket ret (notify_context s) s)"

definition bitchat_can_write_without_response_handler :: "u8 \<Rightarrow> repeater \<Rightarrow> repeater result" where
  "bitchat_can_write_without_response_handler ret =
     try_tracker (\<lambda>s. writeRawPacket ret (write_context s) s)"

section \<open>Pins\<close>

definition gpio_callback :: "nat \<Rightarrow> bool \<Rightarrow> repeater \<Rightarrow> repeater" where
  "gpio_callback gpio edge_fall r =
     (let r = active r;
          r = (if gpio = EXIT_GPIO_PIN \<and> edge_fall then r\<lparr>keep_running := False\<rparr> else r)
      in if gpio = LIFE_CHECK_PIN \<and> edge_fall then r\<lparr>life_check := True\<rparr> else r)"

text \<open>\<^verbatim>\<open> Still alive\<close>, between the seconds and nothing else.\<close>

definition still_alive_string :: bytes where
  "still_alive_string = [0x20, 0x53, 0x74, 0x69, 0x6C, 0x6C, 0x20, 0x61, 0x6C, 0x69, 0x76, 0x65]"

definition alive_content :: "u64 \<Rightarrow> bytes" where
  "alive_content timestamp_ms =
     write_data still_alive_string (length still_alive_string)
       (write_uint8 0x5D (write_uint16_hex16 (ucast (timestamp_ms div 1000)) (write_uint8 0x5B [])))"

definition alive_id :: "u64 \<Rightarrow> u64 \<Rightarrow> bytes" where
  "alive_id timestamp_ms sender =
     write_uint48_hex16 sender (write_uint8 0x2D (write_uint32_hex16 (ucast timestamp_ms) []))"

definition alive_message :: "bytes \<Rightarrow> u64 \<Rightarrow> message" where
  "alive_message local_addr timestamp_ms =
     (let sender = address_as_sender local_addr
      in setSenderNickname (repeater_name local_addr)
           (setMessageTimestamp timestamp_ms
             (setMessageId (alive_id timestamp_ms sender)
               (setMessageFlags 0
                 (setContent (alive_content timestamp_ms) (Message_from 7 timestamp_ms 0 sender))))))"

definition handlePinActivity :: "bytes \<Rightarrow> moment \<Rightarrow> repeater \<Rightarrow> repeater result" where
  "handlePinActivity local_addr t r =
     (let timestamp_ms = getTimeMs (now_us t) (connection_tracker r)
      in if \<not> life_check r then Inr r
         else
           (let r = r\<lparr>life_check := False\<rparr>
            in case storeMessageAndReturnIfNew (new_node t) (alive_message local_addr timestamp_ms)
                 (connection_tracker r) of
                 (None, s) \<Rightarrow> Inr (r\<lparr>connection_tracker := s\<rparr>)
               | (Some p, s) \<Rightarrow>
                   bind_result (try_tracker (enqueueBroadcastPacket p) (r\<lparr>connection_tracker := s\<rparr>)) (\<lambda>r.
                     Inr (active r))))"

section \<open>Connecting\<close>

text \<open>\<open>err\<close> is what \<open>gap_connect\<close> returns.\<close>

definition connect_to_first_neighbour :: "u8 \<Rightarrow> repeater \<Rightarrow> bool \<times> repeater" where
  "connect_to_first_neighbour err r =
     (case getConnectableNeighbours (connection_tracker r) of
        [] \<Rightarrow> (False, r)
      | (key, neighbour) # _ \<Rightarrow>
          if getConnectionForAddress (bt_address neighbour) (connection_tracker r) \<noteq> None then (False, r)
          else
            (let r = call (Connect (bt_address neighbour) (bt_address_type neighbour)) r
             in if err = 0
                then (True, (on_tracker (setConnectionStarted neighbour) r)\<lparr>connection_in_progress := True\<rparr>)
                else (False, r)))"

end
