(* ===== verification/MainLoop.thy ===== *)
theory MainLoop
  imports Handlers
begin

text \<open>
  The loop of \<open>main\<close> in \<open>main.cpp\<close>, cut into the phases between which callbacks run, the locals it keeps,
  and the step relation of the whole program: a phase of the loop or a callback. Sleeps change no state
  and logging is separate, so neither is part of it.
\<close>

section \<open>State\<close>

definition two_seconds_in_us :: u32 where
  "two_seconds_in_us = 1000 * 1000 * 2"

definition five_minutes_in_us :: u32 where
  "five_minutes_in_us = 1000 * 1000 * 60 * 5"

definition ten_minutes_in_us :: u32 where
  "ten_minutes_in_us = 1000 * 1000 * 60 * 10"

record machine =
  globals :: repeater
  loopStart :: u32
  lastSleepOrActivity :: u32
  lastAnnounce :: u32
  lastFlash :: u32
  lastScan :: u32
  lastRssiUpdate :: u32
  rssi_update_in_progress :: bool
  lastCleanup :: u32
  last_activity :: u16
  slept :: bool

text \<open>
  What a phase reads from outside: \<open>time_us_32()\<close>, the moment for what needs the full clock or a new
  node, the clock readings while announcing, the device's own address, and the answers of
  \<open>gap_connect\<close> and \<open>gap_disconnect\<close>.
\<close>

record inputs =
  time_us_32 :: u32
  at_moment :: moment
  announce_clock :: "nat \<Rightarrow> u64"
  local_address :: bytes
  gap_connect_error :: u8
  gap_disconnect_error :: u8

text \<open>The locals before the loop; the five readings of the clock come one after the other.\<close>

definition main_start :: "u32 \<Rightarrow> u32 \<Rightarrow> u32 \<Rightarrow> u32 \<Rightarrow> u32 \<Rightarrow> repeater \<Rightarrow> machine" where
  "main_start t1 t2 t3 t4 t5 r =
     \<lparr>globals = r, loopStart = 0, lastSleepOrActivity = t1, lastAnnounce = t2, lastFlash = 0,
      lastScan = t3, lastRssiUpdate = t4, rssi_update_in_progress = False,
      lastCleanup = t5 + five_minutes_in_us, last_activity = global_activity r, slept = False\<rparr>"

section \<open>Phases\<close>

definition try_globals :: "(repeater \<Rightarrow> repeater result) \<Rightarrow> machine \<Rightarrow> machine result" where
  "try_globals f m = bind_result (f (globals m)) (\<lambda>r. Inr (m\<lparr>globals := r\<rparr>))"

definition announce_phase :: "inputs \<Rightarrow> machine \<Rightarrow> machine result" where
  "announce_phase i m =
     (if loopStart m - lastAnnounce m > two_seconds_in_us
      then bind_result (try_globals (try_tracker (announceToConnections (local_address i) (announce_clock i))) m)
             (\<lambda>m. Inr (m\<lparr>lastAnnounce := time_us_32 i\<rparr>))
      else Inr m)"

definition may_connect :: "machine \<Rightarrow> bool" where
  "may_connect m \<longleftrightarrow>
     \<not> scanning (globals m) \<and> \<not> connection_in_progress (globals m) \<and>
     \<not> discover_primary_services (globals m) \<and> \<not> discover_characteristics_for_service (globals m) \<and>
     disconnection_started_at (globals m) < loopStart m - two_seconds_in_us"

definition drop_duplicate :: "u8 \<Rightarrow> u32 \<Rightarrow> repeater \<Rightarrow> repeater" where
  "drop_duplicate err time r =
     (case getAnyDuplicateHandle (connection_tracker r) of (duplicate, s) \<Rightarrow>
        let r = r\<lparr>connection_tracker := s\<rparr>
        in if duplicate = 0 then r
           else
             (let r = call (Disconnect duplicate) r
              in if err = 0 then r\<lparr>disconnection_started_at := time\<rparr> else r))"

definition connect_phase :: "inputs \<Rightarrow> machine \<Rightarrow> machine" where
  "connect_phase i m =
     (if may_connect m
      then (case connect_to_first_neighbour (gap_connect_error i) (globals m) of (connecting, r) \<Rightarrow>
              m\<lparr>globals := (if connecting then r
                            else drop_duplicate (gap_disconnect_error i) (time_us_32 i) r)\<rparr>)
      else m)"

definition flash_phase :: "inputs \<Rightarrow> machine \<Rightarrow> machine" where
  "flash_phase i m =
     (if loopStart m - lastFlash m > two_seconds_in_us
      then m\<lparr>globals := call (Set_led False) (call (Set_led True) (globals m)), lastFlash := time_us_32 i\<rparr>
      else m)"

definition next_rssi :: "bool \<Rightarrow> machine \<Rightarrow> machine result" where
  "next_rssi restart m =
     bind_result (requestNextRssi restart (connection_tracker (globals m))) (\<lambda>(more, s).
       Inr (m\<lparr>globals := (globals m)\<lparr>connection_tracker := s\<rparr>, rssi_update_in_progress := more\<rparr>))"

definition rssi_phase :: "inputs \<Rightarrow> machine \<Rightarrow> machine result" where
  "rssi_phase i m =
     (if loopStart m - lastRssiUpdate m > five_minutes_in_us
      then bind_result (next_rssi True m) (\<lambda>m. Inr (m\<lparr>lastRssiUpdate := time_us_32 i\<rparr>))
      else if rssi_update_in_progress m then next_rssi False m
      else Inr m)"

definition scan_phase :: "inputs \<Rightarrow> machine \<Rightarrow> machine" where
  "scan_phase i m =
     (if loopStart m - lastScan m > ten_minutes_in_us
      then m\<lparr>globals := start_scanning_for_local_nodes (globals m), lastScan := time_us_32 i\<rparr>
      else m)"

definition cleanup_phase :: "inputs \<Rightarrow> machine \<Rightarrow> machine result" where
  "cleanup_phase i m =
     (if loopStart m - lastCleanup m > ten_minutes_in_us
      then bind_result (try_globals (try_tracker (cleanupStaleItems (now_us (at_moment i)))) m)
             (\<lambda>m. Inr (m\<lparr>lastCleanup := time_us_32 i\<rparr>))
      else Inr m)"

definition may_sleep :: "machine \<Rightarrow> bool" where
  "may_sleep m \<longleftrightarrow>
     loopStart m - lastSleepOrActivity m > two_seconds_in_us \<and>
     last_activity m = global_activity (globals m)"

definition end_phase :: "inputs \<Rightarrow> machine \<Rightarrow> machine" where
  "end_phase i m =
     (if slept m \<or> last_activity m \<noteq> global_activity (globals m)
      then m\<lparr>lastSleepOrActivity := time_us_32 i, last_activity := global_activity (globals m)\<rparr>
      else m)"

datatype phase =
    Loop_test | Pins | Announcing | Connecting | Sending | Flashing | Rssi | Scanning | Cleaning
  | Sleeping | Loop_end | Exited

text \<open>
  Phases are ordered by how many of them are left until the loop is left, if it is not entered again.
\<close>

fun remaining :: "phase \<Rightarrow> nat" where
  "remaining Pins = 11"
| "remaining Announcing = 10"
| "remaining Connecting = 9"
| "remaining Sending = 8"
| "remaining Flashing = 7"
| "remaining Rssi = 6"
| "remaining Scanning = 5"
| "remaining Cleaning = 4"
| "remaining Sleeping = 3"
| "remaining Loop_end = 2"
| "remaining Loop_test = 1"
| "remaining Exited = 0"

lemma remaining_inject: "remaining p = remaining q \<longleftrightarrow> p = q"
  by (cases p; cases q; simp)

instantiation phase :: linorder
begin

definition less_eq_phase :: "phase \<Rightarrow> phase \<Rightarrow> bool" where
  "less_eq_phase p q \<longleftrightarrow> remaining p \<le> remaining q"

definition less_phase :: "phase \<Rightarrow> phase \<Rightarrow> bool" where
  "less_phase p q \<longleftrightarrow> remaining p < remaining q"

instance
  by standard (auto simp: less_eq_phase_def less_phase_def remaining_inject [symmetric])

end

text \<open>One phase, and the phase after it; \<open>Sleeping\<close> is one turn of the inner loop around \<open>__wfi\<close>.\<close>

fun run_phase :: "inputs \<Rightarrow> phase \<Rightarrow> machine \<Rightarrow> (phase \<times> machine) result" where
  "run_phase i Loop_test m =
     (if keep_running (globals m) then Inr (Pins, m\<lparr>loopStart := time_us_32 i\<rparr>) else Inr (Exited, m))"
| "run_phase i Pins m =
     bind_result (try_globals (handlePinActivity (local_address i) (at_moment i)) m) (\<lambda>m. Inr (Announcing, m))"
| "run_phase i Announcing m = bind_result (announce_phase i m) (\<lambda>m. Inr (Connecting, m))"
| "run_phase i Connecting m = Inr (Sending, connect_phase i m)"
| "run_phase i Sending m =
     bind_result (try_globals (try_tracker sendPackets) m) (\<lambda>m. Inr (Flashing, m))"
| "run_phase i Flashing m = Inr (Rssi, flash_phase i m)"
| "run_phase i Rssi m = bind_result (rssi_phase i m) (\<lambda>m. Inr (Scanning, m))"
| "run_phase i Scanning m = Inr (Cleaning, scan_phase i m)"
| "run_phase i Cleaning m =
     bind_result (cleanup_phase i m) (\<lambda>m. Inr (Sleeping, m\<lparr>slept := False\<rparr>))"
| "run_phase i Sleeping m =
     (if may_sleep m then Inr (Sleeping, m\<lparr>slept := True\<rparr>) else Inr (Loop_end, m))"
| "run_phase i Loop_end m = Inr (Loop_test, end_phase i m)"
| "run_phase i Exited m = Inr (Exited, m)"

section \<open>Callbacks\<close>

datatype event =
    Att_read u16 u16 bytes
  | Att_write u16 u16 transaction_mode u16 bytes
  | Hci bool hci_event
  | Att bool att_event
  | Security_manager
  | Gatt_client gatt_client_event
  | Value_update value_update_event
  | Stop_scan_timer
  | Gpio nat bool
  | Can_notify u8
  | Can_write u8

fun handle_event :: "platform \<Rightarrow> moment \<Rightarrow> event \<Rightarrow> repeater \<Rightarrow> repeater result" where
  "handle_event pf t (Att_read att_handle offset buffer) r =
     bind_result (att_read_callback pf att_handle offset buffer r) (\<lambda>(n, b, r). Inr r)"
| "handle_event pf t (Att_write h att_handle mode offset buffer) r =
     att_write_callback pf t h att_handle mode offset buffer r"
| "handle_event pf t (Hci is_hci_event e) r = hci_packet_handler pf t is_hci_event e r"
| "handle_event pf t (Att is_hci_event e) r = Inr (att_packet_handler t is_hci_event e r)"
| "handle_event pf t Security_manager r = Inr (sm_packet_handler r)"
| "handle_event pf t (Gatt_client e) r = Inr (handle_gatt_client_event e r)"
| "handle_event pf t (Value_update e) r = handle_gatt_client_value_update_event pf t e r"
| "handle_event pf t Stop_scan_timer r = Inr (stop_scan_handler r)"
| "handle_event pf t (Gpio gpio edge_fall) r = Inr (gpio_callback gpio edge_fall r)"
| "handle_event pf t (Can_notify ret) r = bitchat_can_send_notification_handler ret r"
| "handle_event pf t (Can_write ret) r = bitchat_can_write_without_response_handler ret r"

section \<open>The program\<close>

text \<open>
  A step is a phase of the loop or a callback between two phases; the allocator gives nodes an address
  at which nothing lives. A step that goes wrong is no step.
\<close>

abbreviation tracker_of :: "machine \<Rightarrow> tracker" where
  "tracker_of m \<equiv> connection_tracker (globals m)"

inductive step :: "platform \<Rightarrow> phase \<times> machine \<Rightarrow> phase \<times> machine \<Rightarrow> bool" for pf where
  run: "run_phase i ph m = Inr (ph', m') \<Longrightarrow> fresh (new_node (at_moment i)) (tracker_of m) \<Longrightarrow>
    step pf (ph, m) (ph', m')"
| callback: "handle_event pf t e (globals m) = Inr r \<Longrightarrow> fresh (new_node t) (tracker_of m) \<Longrightarrow>
    step pf (ph, m) (ph, m\<lparr>globals := r\<rparr>)"

inductive_cases stepE: "step pf (ph, m) (ph', m')"

text \<open>Callbacks run from when Bluetooth is turned on, before the loop is entered.\<close>

inductive booted :: "platform \<Rightarrow> addr \<Rightarrow> repeater \<Rightarrow> bool" for pf a where
  power_on: "booted pf a (initial_repeater a)"
| early_callback: "booted pf a r \<Longrightarrow> handle_event pf t e r = Inr r' \<Longrightarrow>
    fresh (new_node t) (connection_tracker r) \<Longrightarrow> booted pf a r'"

inductive reachable :: "platform \<Rightarrow> addr \<Rightarrow> phase \<times> machine \<Rightarrow> bool" for pf a where
  start: "booted pf a r \<Longrightarrow> reachable pf a (Loop_test, main_start t1 t2 t3 t4 t5 r)"
| further: "reachable pf a x \<Longrightarrow> step pf x y \<Longrightarrow> reachable pf a y"

end
