(* ===== verification/Startup.thy ===== *)
theory Startup
  imports MainLoop
begin

text \<open>
  What \<open>main\<close> of \<open>main.cpp\<close> does before its loop: it sets up the clock, the pins, the Bluetooth chip and
  the stack, registers the handlers and turns Bluetooth on. If the chip or Bluetooth does not start, it
  waits for interrupts as long as it is to keep running. The calls are a list; interrupts are given to the
  waiting loops as the pins and edges they report.
\<close>

section \<open>Calls\<close>

datatype setup_call =
    Set_sys_clock_khz u32 bool
  | Stdio_init_all
  | Gpio_init nat
  | Gpio_set_dir_in nat
  | Gpio_pull_up nat
  | Gpio_set_irq_edge_fall_with_callback nat
  | Sleep_ms nat
  | Cyw43_arch_init
  | L2cap_init
  | Gatt_client_init
  | Sm_init
  | Sm_set_io_capabilities_none
  | Att_server_init
  | Hci_add_event_handler
  | Sm_add_event_handler
  | Att_server_register_packet_handler
  | Set_stop_scan_handler
  | Hci_power_on

text \<open>\<open>KHZ\<close> is a constant of the SDK.\<close>

definition reduce_clock :: "u32 \<Rightarrow> u32 \<Rightarrow> setup_call" where
  "reduce_clock KHZ speed = Set_sys_clock_khz (speed * KHZ) False"

definition setup_gpio_callback :: "setup_call list" where
  "setup_gpio_callback =
     [Gpio_init EXIT_GPIO_PIN, Gpio_set_dir_in EXIT_GPIO_PIN, Gpio_pull_up EXIT_GPIO_PIN,
      Gpio_init LIFE_CHECK_PIN, Gpio_set_dir_in LIFE_CHECK_PIN, Gpio_pull_up LIFE_CHECK_PIN,
      Gpio_set_irq_edge_fall_with_callback EXIT_GPIO_PIN,
      Gpio_set_irq_edge_fall_with_callback LIFE_CHECK_PIN]"

section \<open>Waiting and starting\<close>

text \<open>
  \<open>while (keep_running) __wfi();\<close> with the interrupts that come: nothing if it still waits after them. The
  other interrupts are left for later.
\<close>

fun spin :: "(nat \<times> bool) list \<Rightarrow> repeater \<Rightarrow> repeater option" where
  "spin [] r = (if keep_running r then None else Some r)"
| "spin ((gpio, edge_fall) # interrupts) r =
     (if keep_running r then spin interrupts (gpio_callback gpio edge_fall r) else Some r)"

definition chip_calls :: "u32 option \<Rightarrow> setup_call list" where
  "chip_calls KHZ =
     (case KHZ of Some k \<Rightarrow> [reduce_clock k 63] | None \<Rightarrow> []) @ [Stdio_init_all] @
     setup_gpio_callback @ [Sleep_ms 1000, Cyw43_arch_init]"

definition stack_setup_calls :: "setup_call list" where
  "stack_setup_calls =
     [L2cap_init, Gatt_client_init, Sm_init, Sm_set_io_capabilities_none, Att_server_init,
      Hci_add_event_handler, Sm_add_event_handler, Att_server_register_packet_handler,
      Set_stop_scan_handler, Hci_power_on]"

text \<open>
  The clock is reduced on the RP2040 only, where \<open>KHZ\<close> is given. \<open>chip_error\<close> and \<open>power_error\<close> are what
  \<open>cyw43_arch_init\<close> and \<open>hci_power_control\<close> return. The result is the calls made so far and, unless it still
  waits, the state with which the loop is entered.
\<close>

definition main_setup ::
    "u32 option \<Rightarrow> int \<Rightarrow> int \<Rightarrow> (nat \<times> bool) list \<Rightarrow> (nat \<times> bool) list \<Rightarrow> repeater \<Rightarrow>
     setup_call list \<times> repeater option" where
  "main_setup KHZ chip_error power_error interrupts later_interrupts r =
     (let calls = chip_calls KHZ
      in case (if chip_error \<noteq> 0 then spin interrupts r else Some r) of
           None \<Rightarrow> (calls, None)
         | Some r \<Rightarrow>
             (let calls = calls @ stack_setup_calls
              in case (if power_error \<noteq> 0 then spin later_interrupts r else Some r) of
                   None \<Rightarrow> (calls, None)
                 | Some r \<Rightarrow> (calls, Some r)))"

section \<open>Waiting ends with the exit pin\<close>

definition exit_pin_falls :: "(nat \<times> bool) list \<Rightarrow> bool" where
  "exit_pin_falls interrupts \<longleftrightarrow> (EXIT_GPIO_PIN, True) \<in> set interrupts"

lemma gpio_keep_running:
  "keep_running (gpio_callback gpio edge_fall r) \<longleftrightarrow>
     keep_running r \<and> (gpio, edge_fall) \<noteq> (EXIT_GPIO_PIN, True)"
  by (auto simp: gpio_callback_def Let_def active_def)

lemma spin_stuck: "spin interrupts r = None \<longleftrightarrow> keep_running r \<and> \<not> exit_pin_falls interrupts"
  by (induction interrupts r rule: spin.induct) (auto simp: exit_pin_falls_def gpio_keep_running)

lemma spin_stops: "spin interrupts r = Some r' \<Longrightarrow> \<not> keep_running r'"
  by (induction interrupts r rule: spin.induct) (auto split: if_splits)

lemma spin_stopped [simp]: "\<not> keep_running r \<Longrightarrow> spin interrupts r = Some r"
  by (cases "(interrupts, r)" rule: spin.cases) auto

section \<open>Properties\<close>

text \<open>
  C16: when the chip or Bluetooth fails to start, the program waits until the exit pin falls, for ever if it
  never does; while it waits for the chip it has not touched the stack. When the pin falls it does not stop:
  it goes on with the same calls as on a good start, to a chip that may not be there, and leaves the main
  loop at its first test.
\<close>

theorem failed_start_waits_for_exit:
  "(snd (main_setup KHZ chip_err power_err ints later r) = None \<longleftrightarrow>
     keep_running r \<and> (if chip_err \<noteq> 0 then \<not> exit_pin_falls ints else power_err \<noteq> 0 \<and> \<not> exit_pin_falls later)) \<and>
   fst (main_setup KHZ chip_err power_err ints later r) = chip_calls KHZ @
     (if chip_err \<noteq> 0 \<and> keep_running r \<and> \<not> exit_pin_falls ints then [] else stack_setup_calls) \<and>
   (snd (main_setup KHZ chip_err power_err ints later r) = Some r' \<and> (chip_err \<noteq> 0 \<or> power_err \<noteq> 0) \<longrightarrow>
     run_phase i Loop_test (main_start t1 t2 t3 t4 t5 r') = Inr (Exited, main_start t1 t2 t3 t4 t5 r'))"
proof (intro conjI impI)
  show "snd (main_setup KHZ chip_err power_err ints later r) = None \<longleftrightarrow>
     keep_running r \<and> (if chip_err \<noteq> 0 then \<not> exit_pin_falls ints else power_err \<noteq> 0 \<and> \<not> exit_pin_falls later)"
    using spin_stuck [of ints r] spin_stops [of ints r] spin_stuck [of later r]
    by (auto simp: main_setup_def Let_def split: option.splits)
  show "fst (main_setup KHZ chip_err power_err ints later r) = chip_calls KHZ @
     (if chip_err \<noteq> 0 \<and> keep_running r \<and> \<not> exit_pin_falls ints then [] else stack_setup_calls)"
    using spin_stuck [of ints r] by (auto simp: main_setup_def Let_def split: option.splits)
  assume "snd (main_setup KHZ chip_err power_err ints later r) = Some r' \<and> (chip_err \<noteq> 0 \<or> power_err \<noteq> 0)"
  then have "\<not> keep_running r'"
    by (auto simp: main_setup_def Let_def split: option.splits if_splits dest: spin_stops)
  then show "run_phase i Loop_test (main_start t1 t2 t3 t4 t5 r') = Inr (Exited, main_start t1 t2 t3 t4 t5 r')"
    by (simp add: main_start_def)
qed

theorem failed_start_waits_for_exit_witness:
  "main_setup (Some 1000) 1 0 [(18, True)] [] (initial_repeater 1) = (chip_calls (Some 1000), None) \<and>
   run_phase \<lparr>time_us_32 = 7, at_moment = \<lparr>now_us = 7, new_node = 5, frame = 9\<rparr>, announce_clock = (\<lambda>_. 7),
       local_address = [], gap_connect_error = 0, gap_disconnect_error = 0\<rparr> Loop_test
     (main_start 1 2 3 4 5 (gpio_callback 28 True (initial_repeater 1))) =
     Inr (Exited, main_start 1 2 3 4 5 (gpio_callback 28 True (initial_repeater 1)))"
proof -
  let ?r = "gpio_callback 28 True (initial_repeater 1)"
  have "snd (main_setup (Some 1000) 1 0 [(28, True)] [] (initial_repeater 1)) = Some ?r"
    by (simp add: main_setup_def initial_repeater_def gpio_callback_def Let_def active_def EXIT_GPIO_PIN_def
        LIFE_CHECK_PIN_def)
  moreover have "keep_running (initial_repeater 1)" "\<not> exit_pin_falls [(18, True)]"
    by (simp_all add: initial_repeater_def exit_pin_falls_def EXIT_GPIO_PIN_def)
  ultimately show ?thesis
    using failed_start_waits_for_exit [of "Some 1000" 1 0 "[(18, True)]" "[]" "initial_repeater 1"]
      failed_start_waits_for_exit [of "Some 1000" 1 0 "[(28, True)]" "[]" "initial_repeater 1" ?r]
    by (auto simp: prod_eq_iff simp del: run_phase.simps)
qed

end
