(* ===== verification/Program.thy ===== *)
theory Program
  imports MainLoop
begin

text \<open>
  The whole program: what holds in every state it reaches, callbacks and phases of the loop in any
  order, and what the loop and its timers do.
\<close>

section \<open>Frames\<close>

lemma active_frames [simp]:
  "connection_tracker (active r) = connection_tracker r" "adv_data (active r) = adv_data r"
  "adv_data_len (active r) = adv_data_len r" "keep_running (active r) = keep_running r"
  by (simp_all add: active_def)

lemma on_tracker_frames [simp]:
  "connection_tracker (on_tracker f r) = f (connection_tracker r)" "adv_data (on_tracker f r) = adv_data r"
  "adv_data_len (on_tracker f r) = adv_data_len r" "keep_running (on_tracker f r) = keep_running r"
  by (simp_all add: on_tracker_def)

lemma call_frames [simp]:
  "connection_tracker (call c r) = call_stack c (connection_tracker r)" "adv_data (call c r) = adv_data r"
  "adv_data_len (call c r) = adv_data_len r" "keep_running (call c r) = keep_running r"
  by (simp_all add: call_def)

lemma try_tracker_Inr [simp]:
  "try_tracker f r = Inr r' \<longleftrightarrow>
     (\<exists>s. f (connection_tracker r) = Inr s \<and> r' = r\<lparr>connection_tracker := s\<rparr>)"
  by (auto simp: try_tracker_def)

lemma try_globals_Inr [simp]:
  "try_globals f m = Inr m' \<longleftrightarrow> (\<exists>r. f (globals m) = Inr r \<and> m' = m\<lparr>globals := r\<rparr>)"
  by (auto simp: try_globals_def)

section \<open>Invariants of the program\<close>

text \<open>
  What holds of the globals when power comes on and is kept by every callback and every phase holds
  whenever the program gets anywhere.
\<close>

locale global_invariant =
  fixes pf :: platform
    and holds :: "repeater \<Rightarrow> bool"
  assumes at_power_on: "holds (initial_repeater a)"
    and kept_by_callback: "holds r \<Longrightarrow> fresh (new_node t) (connection_tracker r) \<Longrightarrow>
      handle_event pf t e r = Inr r' \<Longrightarrow> holds r'"
    and kept_by_phase: "holds (globals m) \<Longrightarrow> fresh (new_node (at_moment i)) (tracker_of m) \<Longrightarrow>
      run_phase i ph m = Inr (ph', m') \<Longrightarrow> holds (globals m')"
begin

lemma booted_holds: "booted pf a r \<Longrightarrow> holds r"
  by (induction rule: booted.induct) (blast intro: at_power_on kept_by_callback)+

lemma step_holds: "step pf x y \<Longrightarrow> holds (globals (snd x)) \<Longrightarrow> holds (globals (snd y))"
  by (induction rule: step.induct) (auto intro: kept_by_callback kept_by_phase)

lemma reachable_holds: "reachable pf a x \<Longrightarrow> holds (globals (snd x))"
  by (induction rule: reachable.induct) (auto simp: main_start_def booted_holds dest: step_holds)

end

section \<open>The tracker\<close>

lemma live_connectionForConnHandle [simp]:
  "live_addresses (connectionForConnHandle h s) = live_addresses s"
  by (simp add: connectionForConnHandle_def update_connection_def)

lemma att_write_callback_keeps_ok:
  assumes "tracker_ok (connection_tracker r)" and "fresh (new_node t) (connection_tracker r)"
    and "att_write_callback pf t h att_handle mode offset buffer r = Inr r'"
  shows "tracker_ok (connection_tracker r')"
proof -
  have "tracker_ok (connectionForConnHandle h (connection_tracker r))"
    using assms(1) by (rule connectionForConnHandle_keeps_ok)
  moreover have "tracker_ok s'" if "configure_notifications pf h buffer s = Inr s'" "tracker_ok s" for s s'
    using that by (auto simp: configure_notifications_def Let_def connection_setters
        intro!: adjust_connection_keeps_ok split: if_splits)
  ultimately show ?thesis
    using assms(2,3)
    by (auto simp: att_write_callback_def Let_def intro: assms(1) processWrite_keeps_ok split: if_splits)
qed

lemma gatt_client_event_keeps_ok:
  "tracker_ok (connection_tracker r) \<Longrightarrow> tracker_ok (connection_tracker (gatt_client_event_handler e r))"
  by (cases e)
    (auto simp: Let_def setMtu_def storeHandlesIfServiceMatches_def storeHandlesIfCharacteristicMatches_def
      intro!: adjust_connection_keeps_ok connectionForConnHandle_keeps_ok split: option.split if_splits)

lemma adv_put_tracker: "adv_put b r = Inr r' \<Longrightarrow> connection_tracker r' = connection_tracker r"
  by (auto simp: adv_put_def split: if_splits)

lemma adv_copy_tracker: "adv_copy bs r = Inr r' \<Longrightarrow> connection_tracker r' = connection_tracker r"
  by (auto simp: adv_copy_def Let_def split: if_splits)

lemma populate_advertising_data_tracker:
  "populate_advertising_data pf r = Inr r' \<Longrightarrow> connection_tracker r' = connection_tracker r"
  by (auto simp: populate_advertising_data_def put_name_def Let_def dest!: adv_put_tracker adv_copy_tracker)

lemma hci_event_keeps_ok:
  assumes "tracker_ok (connection_tracker r)" and "hci_event_handler pf t e r = Inr r'"
  shows "tracker_ok (connection_tracker r')"
  using assms
  by (cases e)
    (auto simp: setup_advertisements_def setup_scanning_def start_scanning_for_local_nodes_def Let_def
      addAvailablePeer_keeps_ok reportConnectionWithRole_keeps_ok reportDisconnection_keeps_ok
      connectionForConnHandle_keeps_ok dest!: populate_advertising_data_tracker split: if_splits)

lemma value_update_keeps_ok:
  assumes "tracker_ok (connection_tracker r)" and "fresh (new_node t) (connection_tracker r)"
    and "handle_gatt_client_value_update_event pf t e r = Inr r'"
  shows "tracker_ok (connection_tracker r')"
proof (cases e)
  case (GATT_EVENT_NOTIFICATION h data)
  let ?s = "connectionForConnHandle h (connection_tracker r)"
  have "tracker_ok ?s" "fresh (new_node t) ?s"
    using assms(1,2) by (simp_all add: connectionForConnHandle_keeps_ok)
  then show ?thesis
    using assms(3) GATT_EVENT_NOTIFICATION processWrite_keeps_ok
    by (auto simp: handle_gatt_client_value_update_event_def Let_def)
qed (use assms in \<open>auto simp: handle_gatt_client_value_update_event_def Let_def\<close>)

lemma att_packet_handler_keeps_ok:
  "tracker_ok (connection_tracker r) \<Longrightarrow> tracker_ok (connection_tracker (att_packet_handler t b e r))"
  by (simp add: att_packet_handler_def Let_def reportConnection_keeps_ok reportDisconnection_keeps_ok
      split: att_event.split)

lemma callbacks_keep_ok:
  assumes "tracker_ok (connection_tracker r)" and "fresh (new_node t) (connection_tracker r)"
    and "handle_event pf t e r = Inr r'"
  shows "tracker_ok (connection_tracker r')"
proof (cases e)
  case (Att_read att_handle offset buffer)
  then show ?thesis using assms by (auto simp: att_read_callback_def Let_def split: if_splits)
next
  case (Att_write h att_handle mode offset buffer)
  then show ?thesis using assms att_write_callback_keeps_ok by auto
next
  case (Hci b ev)
  then show ?thesis
    using assms hci_event_keeps_ok [of "active r"] by (auto simp: hci_packet_handler_def split: if_splits)
next
  case (Value_update ev)
  then show ?thesis using assms value_update_keeps_ok by auto
next
  case (Gatt_client ev)
  then show ?thesis
    using assms gatt_client_event_keeps_ok [of "active r"] by (auto simp: handle_gatt_client_event_def)
qed (use assms in \<open>auto simp: att_packet_handler_keeps_ok sm_packet_handler_def stop_scan_handler_def
  gpio_callback_def Let_def bitchat_can_send_notification_handler_def
  bitchat_can_write_without_response_handler_def intro: notifyRawPacket_keeps_ok writeRawPacket_keeps_ok\<close>)

lemma handlePinActivity_keeps_ok:
  assumes "tracker_ok (connection_tracker r)" and "fresh (new_node t) (connection_tracker r)"
    and "handlePinActivity local_addr t r = Inr r'"
  shows "tracker_ok (connection_tracker r')"
proof -
  define m where "m = alive_message local_addr (getTimeMs (now_us t) (connection_tracker r))"
  have type: "packet_type m = type_value type_message" and peer: "\<forall>i \<in> set_option (sender_peer m). peer_known s i" for s
    by (simp_all add: m_def alive_message_def Let_def message_setters new_packet_defs)
  obtain q s where store: "storeMessageAndReturnIfNew (new_node t) m (connection_tracker r) = (q, s)"
    by fastforce
  have "tracker_ok s"
    using storeMessage_keeps_ok [OF assms(1,2) type peer store] by simp
  then show ?thesis
    using assms(1,3) store enqueueBroadcastPacket_keeps_ok
    by (auto simp: handlePinActivity_def Let_def m_def [symmetric] split: if_splits option.splits)
qed

lemma connect_phase_keeps_ok:
  assumes "tracker_ok (tracker_of m)"
  shows "tracker_ok (tracker_of (connect_phase i m))"
proof -
  have "tracker_ok (connection_tracker (snd (connect_to_first_neighbour err r)))"
    if "tracker_ok (connection_tracker r)" for err r
    using that by (simp add: connect_to_first_neighbour_def Let_def setConnectionStarted_keeps_ok
        split: list.split)
  moreover have "tracker_ok (connection_tracker (drop_duplicate err time r))"
    if "tracker_ok (connection_tracker r)" for err time r
    using getAnyDuplicateHandle_keeps_ok [OF that] by (simp add: drop_duplicate_def Let_def case_prod_beta)
  ultimately show ?thesis
    using assms by (simp add: connect_phase_def case_prod_beta)
qed

lemma phases_keep_ok:
  assumes "tracker_ok (tracker_of m)" and "fresh (new_node (at_moment i)) (tracker_of m)"
    and "run_phase i ph m = Inr (ph', m')"
  shows "tracker_ok (tracker_of m')"
proof (cases ph)
  case Pins
  then show ?thesis using assms handlePinActivity_keeps_ok by auto
next
  case Connecting
  then show ?thesis using assms connect_phase_keeps_ok by auto
next
  case Rssi
  then show ?thesis
    using assms requestNextRssi_keeps_ok by (auto simp: rssi_phase_def next_rssi_def split: if_splits)
qed (use assms in \<open>auto simp: announce_phase_def cleanup_phase_def flash_phase_def scan_phase_def end_phase_def
  start_scanning_for_local_nodes_def
  intro: announceToConnections_keeps_ok cleanupStaleItems_keeps_ok sendPackets_keeps_ok split: if_splits\<close>)

interpretation tracker_invariant: global_invariant pf "\<lambda>r. tracker_ok (connection_tracker r)" for pf
  by unfold_locales
    (simp add: initial_repeater_def new_tracker_ok, rule callbacks_keep_ok, assumption+,
     rule phases_keep_ok, assumption+)

section \<open>Advertising\<close>

text \<open>What the repeater advertises: its flags, the bitchat service and its name, 31 bytes.\<close>

definition own_advertisement :: "platform \<Rightarrow> bytes" where
  "own_advertisement pf =
     [2, DATA_TYPE_FLAGS pf, BLE_FLAGS_LE_ONLY_GENERAL_DISC_MODE, 17, DATA_TYPE_INCOMPLETE_UUIDS pf] @
     bitchat_service_uuid_reversed @ [9, DATA_TYPE_COMPLETE_NAME pf] @ bitchat_service_name"

definition adv_ok :: "platform \<Rightarrow> repeater \<Rightarrow> bool" where
  "adv_ok pf r \<longleftrightarrow>
     adv_data_len r = 0 \<and> length (adv_data r) = BLE_ADVERTISING_MAX_LENGTH \<or>
     adv_data_len r = of_nat BLE_ADVERTISING_MAX_LENGTH \<and> adv_data r = own_advertisement pf"

lemmas adv_defs = populate_advertising_data_def put_name_def adv_put_def adv_copy_def
  BLE_ADVERTISING_MAX_LENGTH_def bitchat_service_name_def bitchat_service_uuid_reversed_def

lemma length_own_advertisement: "length (own_advertisement pf) = BLE_ADVERTISING_MAX_LENGTH"
  by (simp add: own_advertisement_def adv_defs)

lemma populate_first:
  assumes "adv_data_len r = 0" and "length (adv_data r) = BLE_ADVERTISING_MAX_LENGTH"
  shows "populate_advertising_data pf r =
    Inr (r\<lparr>adv_data := own_advertisement pf, adv_data_len := of_nat BLE_ADVERTISING_MAX_LENGTH\<rparr>)"
proof -
  obtain start rest where "adv_data r = start @ rest" "length start = 5" "length rest = 26"
    using assms(2) by (intro that [of "take 5 (adv_data r)" "drop 5 (adv_data r)"])
      (simp_all add: BLE_ADVERTISING_MAX_LENGTH_def)
  moreover obtain a b c d e where "start = [a, b, c, d, e]"
    using \<open>length start = 5\<close> by (auto simp: eval_nat_numeral length_Suc_conv)
  moreover obtain uuid tail where "rest = uuid @ tail" "length uuid = 16" "length tail = 10"
    using \<open>length rest = 26\<close> by (intro that [of "take 16 rest" "drop 16 rest"]) simp_all
  moreover obtain f g name where "tail = f # g # name" "length name = 8"
    using \<open>length tail = 10\<close> by (auto simp: eval_nat_numeral length_Suc_conv)
  ultimately show ?thesis
    using assms(1) by (simp add: adv_defs own_advertisement_def Let_def min_def list_update_append)
qed

lemma populate_again:
  assumes "adv_data_len r = of_nat BLE_ADVERTISING_MAX_LENGTH" and "adv_data r = own_advertisement pf"
  shows "populate_advertising_data pf r = Inl OutOfBounds"
  using assms length_own_advertisement [of pf]
  by (simp add: populate_advertising_data_def adv_put_def BLE_ADVERTISING_MAX_LENGTH_def)

lemma adv_ok_cong:
  "adv_data r' = adv_data r \<Longrightarrow> adv_data_len r' = adv_data_len r \<Longrightarrow> adv_ok pf r' = adv_ok pf r"
  by (simp add: adv_ok_def)

lemma adv_ok_frames [simp]:
  "adv_ok pf (active r) = adv_ok pf r" "adv_ok pf (on_tracker f r) = adv_ok pf r"
  "adv_ok pf (call c r) = adv_ok pf r" "adv_ok pf (r\<lparr>connection_tracker := x\<rparr>) = adv_ok pf r"
  "adv_ok pf (r\<lparr>scanning := b\<rparr>) = adv_ok pf r" "adv_ok pf (r\<lparr>life_check := b\<rparr>) = adv_ok pf r"
  "adv_ok pf (r\<lparr>keep_running := b\<rparr>) = adv_ok pf r"
  "adv_ok pf (r\<lparr>connection_in_progress := b\<rparr>) = adv_ok pf r"
  "adv_ok pf (r\<lparr>discover_primary_services := b\<rparr>) = adv_ok pf r"
  "adv_ok pf (r\<lparr>discover_characteristics_for_service := b\<rparr>) = adv_ok pf r"
  "adv_ok pf (r\<lparr>disconnection_started_at := t\<rparr>) = adv_ok pf r"
  by (rule adv_ok_cong; simp)+

lemma populate_keeps_adv_ok:
  assumes "adv_ok pf r" and "populate_advertising_data pf r = Inr r'"
  shows "adv_ok pf r'"
  using assms populate_first [of r pf] populate_again [of r pf]
  by (auto simp: adv_ok_def)

lemma hci_event_keeps_adv_ok:
  assumes "adv_ok pf r" and "hci_event_handler pf t e r = Inr r'"
  shows "adv_ok pf r'"
  using assms populate_keeps_adv_ok [of pf "call (Set_max_peripheral_connections 4) r"]
  by (cases e)
    (auto simp: setup_advertisements_def setup_scanning_def start_scanning_for_local_nodes_def Let_def
      split: if_splits)

lemma callbacks_keep_adv_ok:
  assumes "adv_ok pf r" and "handle_event pf t e r = Inr r'"
  shows "adv_ok pf r'"
proof (cases e)
  case (Hci b ev)
  then show ?thesis
    using assms hci_event_keeps_adv_ok [of pf "active r"] by (auto simp: hci_packet_handler_def split: if_splits)
next
  case (Gatt_client ev)
  then show ?thesis
    using assms by (cases ev) (auto simp: handle_gatt_client_event_def Let_def split: option.splits)
next
  case (Value_update ev)
  then show ?thesis
    using assms by (cases ev) (auto simp: handle_gatt_client_value_update_event_def Let_def)
next
  case (Att b ev)
  then show ?thesis
    using assms by (cases ev) (auto simp: att_packet_handler_def Let_def split: if_splits)
qed (use assms in \<open>auto simp: att_read_callback_def att_write_callback_def sm_packet_handler_def
  stop_scan_handler_def gpio_callback_def Let_def bitchat_can_send_notification_handler_def
  bitchat_can_write_without_response_handler_def split: if_splits\<close>)

lemma phases_keep_adv_ok:
  assumes "adv_ok pf (globals m)" and "run_phase i ph m = Inr (ph', m')"
  shows "adv_ok pf (globals m')"
  using assms
  by (cases ph)
    (auto simp: announce_phase_def cleanup_phase_def flash_phase_def scan_phase_def end_phase_def rssi_phase_def
      next_rssi_def start_scanning_for_local_nodes_def handlePinActivity_def connect_phase_def
      connect_to_first_neighbour_def drop_duplicate_def Let_def split: if_splits list.splits prod.splits option.splits)

interpretation adv_invariant: global_invariant pf "adv_ok pf" for pf
  by unfold_locales
    (simp add: adv_ok_def initial_repeater_def, rule callbacks_keep_adv_ok, assumption+,
     rule phases_keep_adv_ok, assumption+)

section \<open>Properties\<close>

text \<open>
  In every state the program reaches, with callbacks between the phases of the loop in any order,
  the tracker is consistent: keys match what is stored, no two objects share an address, pointers to
  peers are to peers that are there, what waits to be broadcast is there and may still travel, only
  announcements are targeted, connections that are up stand under their handles and all containers are
  sorted. And the advertisement is empty or complete.
\<close>

lemma program_invariant:
  assumes "reachable pf a (ph, m)"
  shows "tracker_ok (tracker_of m) \<and> adv_ok pf (globals m)"
  using tracker_invariant.reachable_holds [OF assms] adv_invariant.reachable_holds [OF assms] by simp

text \<open>The elements of an advertisement: a length, a type and the data.\<close>

fun ad_elements :: "bytes \<Rightarrow> (u8 \<times> bytes) list" where
  "ad_elements (len # data_type # data) =
     (if len = 0 \<or> unat len > length data + 1 then []
      else (data_type, data) # ad_elements (drop (unat len - 1) data))"
| "ad_elements _ = []"

definition distinct_data_types :: "platform \<Rightarrow> bool" where
  "distinct_data_types pf \<longleftrightarrow>
     distinct [DATA_TYPE_FLAGS pf, DATA_TYPE_INCOMPLETE_UUIDS pf, DATA_TYPE_COMPLETE_UUIDS pf,
       DATA_TYPE_SOLICITATION_UUIDS pf, DATA_TYPE_SHORTENED_NAME pf, DATA_TYPE_COMPLETE_NAME pf]"

definition sample_platform :: platform where
  "sample_platform =
     \<lparr>CLIENT_CONFIGURATION_HANDLE = 10, VALUE_HANDLE = 9, USER_DESCRIPTION_HANDLE = 11,
      CONFIGURATION_NOTIFICATION = 1, DATA_TYPE_FLAGS = 1, DATA_TYPE_INCOMPLETE_UUIDS = 6,
      DATA_TYPE_COMPLETE_UUIDS = 7, DATA_TYPE_SOLICITATION_UUIDS = 0x15, DATA_TYPE_SHORTENED_NAME = 8,
      DATA_TYPE_COMPLETE_NAME = 9,
      little_endian_read_16 = (\<lambda>b i. if i + 1 < length b
        then Inr (push_bit 8 (ucast (b ! (i + 1))) OR ucast (b ! i)) else Inl OutOfBounds),
      ad_iterator = ad_elements, libdeflate = no_zlib, hash_function = sample_hash\<rparr>"

text \<open>
  C17: repeaters recognise each other. When the stack is working, a repeater that has just started sets
  an advertisement of 31 bytes; a repeater that receives it files the sender as a neighbour that is a
  repeater, which it will connect to even before it knows the time, unless the address is random. The
  stack's iterator is assumed to run over the elements of the advertisement, and the type codes to
  differ.
\<close>

theorem repeaters_recognise_each_other:
  assumes "distinct_data_types pf" and "\<forall>d. ad_iterator pf d = ad_elements d"
    and "address_type \<noteq> BD_ADDR_TYPE_LE_RANDOM" and "length address = 6"
  shows "\<exists>r data r'. hci_packet_handler pf t True (BTSTACK_EVENT_STATE True) (initial_repeater a) = Inr r \<and>
    Set_advertisement_data 31 data \<in> set (stack_calls (connection_tracker r)) \<and>
    hci_packet_handler pf t' True (GAP_EVENT_ADVERTISING_REPORT address address_type rssi_value data) (initial_repeater b) = Inr r' \<and>
    address \<in> fst ` set (getConnectableNeighbours (connection_tracker r'))"
proof -
  let ?adv = "own_advertisement pf"
  have start: "adv_data_len (call c (active (initial_repeater a))) = 0"
    "length (adv_data (call c (active (initial_repeater a)))) = BLE_ADVERTISING_MAX_LENGTH" for c
    by (simp_all add: initial_repeater_def)
  have "DATA_TYPE_COMPLETE_NAME pf \<notin> {DATA_TYPE_INCOMPLETE_UUIDS pf, DATA_TYPE_COMPLETE_UUIDS pf,
      DATA_TYPE_SOLICITATION_UUIDS pf}"
    using assms(1) by (auto simp: distinct_data_types_def)
  then have "check_elements pf (ad_elements ?adv) False False = Inr (True, True)"
    using assms(1)
    by (simp add: own_advertisement_def distinct_data_types_def same_memory_def
        bitchat_service_uuid_reversed_def bitchat_service_name_def del: bind_result_eq_Inr)
  then have "check_for_uuid pf ?adv = Inr ServiceUUIDAndNameFound"
    using assms(2) by (simp add: check_for_uuid_def)
  then obtain r' where r': "hci_packet_handler pf t' True
      (GAP_EVENT_ADVERTISING_REPORT address address_type rssi_value ?adv) (initial_repeater b) = Inr r'"
    and conn: "connection_tracker r' = addAvailablePeer (now_us t') address address_type
      ServiceUUIDAndNameFound rssi_value (new_tracker b)"
    by (simp add: hci_packet_handler_def) (simp add: initial_repeater_def)
  have "address \<in> fst ` set (getConnectableNeighbours (connection_tracker r'))"
    using assms(3,4) by (simp add: conn getConnectableNeighbours_def addAvailablePeer_def update_neighbour_def
        new_tracker_def Let_def connection_setters new_BleConnection_def isRepeater_def isRandom_def)
  moreover have "\<exists>r. hci_packet_handler pf t True (BTSTACK_EVENT_STATE True) (initial_repeater a) = Inr r \<and>
      Set_advertisement_data 31 ?adv \<in> set (stack_calls (connection_tracker r))"
    by (simp add: hci_packet_handler_def setup_advertisements_def populate_first [OF start] setup_scanning_def
        start_scanning_for_local_nodes_def call_stack_def BLE_ADVERTISING_MAX_LENGTH_def)
  ultimately show ?thesis using r' by blast
qed

theorem repeaters_recognise_each_other_witness:
  "\<exists>r data r'. hci_packet_handler sample_platform \<lparr>now_us = 0, new_node = 5, frame = 6\<rparr> True
      (BTSTACK_EVENT_STATE True) (initial_repeater 1) = Inr r \<and>
    Set_advertisement_data 31 data \<in> set (stack_calls (connection_tracker r)) \<and>
    hci_packet_handler sample_platform \<lparr>now_us = 7, new_node = 5, frame = 6\<rparr> True
      (GAP_EVENT_ADVERTISING_REPORT [1, 2, 3, 4, 5, 6] 0 (- 60) data) (initial_repeater 1) = Inr r' \<and>
    [1, 2, 3, 4, 5, 6] \<in> fst ` set (getConnectableNeighbours (connection_tracker r'))"
  by (rule repeaters_recognise_each_other)
    (simp_all add: distinct_data_types_def sample_platform_def BD_ADDR_TYPE_LE_RANDOM_def)


subsection \<open>Leaving the loop\<close>

fun run_phases :: "inputs list \<Rightarrow> phase \<times> machine \<Rightarrow> (phase \<times> machine) result" where
  "run_phases [] x = Inr x"
| "run_phases (i # is) x = bind_result (run_phase i (fst x) (snd x)) (run_phases is)"

definition unseen :: "machine \<Rightarrow> u16" where
  "unseen m = global_activity (globals m) - last_activity m"

text \<open>The loop is about to be left: there is activity it has not seen, so that it will not sleep.\<close>

definition leaving :: "phase \<times> machine \<Rightarrow> bool" where
  "leaving x \<longleftrightarrow> \<not> keep_running (globals (snd x)) \<and>
     (fst x \<in> {Loop_end, Loop_test, Exited} \<or>
      unseen (snd x) \<noteq> 0 \<and> (fst x = Pins \<longrightarrow> unseen (snd x) + 1 \<noteq> 0))"

lemma tracker_phase_frames:
  "keep_running (r\<lparr>connection_tracker := s\<rparr>) = keep_running r"
  "global_activity (r\<lparr>connection_tracker := s\<rparr>) = global_activity r"
  "global_activity (on_tracker f r) = global_activity r" "global_activity (call c r) = global_activity r"
  by (simp_all add: on_tracker_def call_def)

lemma leaving_phase:
  assumes "leaving (ph, m)" and "run_phase i ph m = Inr (ph', m')"
  shows "leaving (ph', m') \<and> (ph' < ph \<or> ph' = Exited)"
proof (cases ph)
  case Pins
  then obtain r where r: "handlePinActivity (local_address i) (at_moment i) (globals m) = Inr r"
    and m': "ph' = Announcing" "m' = m\<lparr>globals := r\<rparr>"
    using assms(2) by auto
  have "keep_running r = keep_running (globals m) \<and>
      (global_activity r = global_activity (globals m) \<or> global_activity r = global_activity (globals m) + 1)"
    using r by (auto simp: handlePinActivity_def Let_def active_def split: if_splits prod.splits option.splits)
  then show ?thesis
    using assms(1) Pins m' by (auto simp: leaving_def unseen_def algebra_simps less_phase_def)
next
  case Connecting
  then show ?thesis
    using assms by (auto simp: leaving_def unseen_def connect_phase_def connect_to_first_neighbour_def
        drop_duplicate_def tracker_phase_frames Let_def less_phase_def split: list.splits prod.splits if_splits)
qed (use assms in \<open>auto simp: leaving_def unseen_def announce_phase_def flash_phase_def rssi_phase_def next_rssi_def
  scan_phase_def cleanup_phase_def end_phase_def may_sleep_def start_scanning_for_local_nodes_def
  tracker_phase_frames less_phase_def split: if_splits prod.splits\<close>)

lemma leaving_runs:
  assumes "leaving x" and "run_phases is x = Inr y" and "remaining (fst x) \<le> length is"
  shows "fst y = Exited"
  using assms
proof (induction "is" arbitrary: x)
  case Nil
  then show ?case by (cases "fst x") auto
next
  case (Cons i "is")
  then obtain z where z: "run_phase i (fst x) (snd x) = Inr z" "run_phases is z = Inr y"
    by auto
  have "leaving z \<and> (fst z < fst x \<or> fst z = Exited)"
    using leaving_phase [of "fst x" "snd x" i "fst z" "snd z"] Cons.prems(1) z(1) by simp
  then show ?case
    using Cons.prems(3) by (intro Cons.IH [OF _ z(2)]) (auto simp: less_phase_def)
qed

text \<open>
  C15: pulling the exit pin ends the program. Wherever the loop is, asleep too, it is left within eleven
  phases (unless one of them goes wrong): the callback counts as activity, which keeps the loop
  from sleeping, as long as fewer than $2^{16} - 2$ other events have happened since the loop last looked.
\<close>

theorem exit_pin_ends_loop:
  assumes "run_phases is (ph, m\<lparr>globals := gpio_callback EXIT_GPIO_PIN True (globals m)\<rparr>) = Inr (ph', m')"
    and "length is \<ge> 11" and "unat (global_activity (globals m) - last_activity m) < 65534"
  shows "ph' = Exited"
proof -
  let ?m = "m\<lparr>globals := gpio_callback EXIT_GPIO_PIN True (globals m)\<rparr>"
  have "\<not> keep_running (globals ?m)" "unseen ?m = unseen m + 1"
    by (simp_all add: gpio_callback_def unseen_def active_def EXIT_GPIO_PIN_def LIFE_CHECK_PIN_def)
  moreover have "unat (unseen m) < 65534"
    using assms(3) by (simp add: unseen_def)
  then have "unseen m + 1 \<noteq> 0" "unseen m + 1 + 1 \<noteq> 0"
    by (auto simp: word_unat_eq_iff unat_word_ariths)
  ultimately have "leaving (ph, ?m)"
    by (simp add: leaving_def)
  moreover have "remaining (fst (ph, ?m)) \<le> length is"
    using assms(2) by (cases ph) auto
  ultimately show ?thesis
    using leaving_runs [OF _ assms(1)] by simp
qed


definition sample_inputs :: inputs where
  "sample_inputs =
     \<lparr>time_us_32 = 5, at_moment = \<lparr>now_us = 5, new_node = 7, frame = 8\<rparr>, announce_clock = (\<lambda>_. 5),
      local_address = [1, 2, 3, 4, 5, 6], gap_connect_error = 0, gap_disconnect_error = 0\<rparr>"

definition sample_machine :: machine where
  "sample_machine = main_start 0 0 0 0 0 (initial_repeater 1)"

theorem exit_pin_ends_loop_witness:
  "\<exists>m'. run_phases (replicate 11 sample_inputs) (Pins,
      sample_machine\<lparr>globals := gpio_callback EXIT_GPIO_PIN True (globals sample_machine)\<rparr>) = Inr (Exited, m')"
proof -
  have "map_sum id (\<lambda>x. ()) (run_phases (replicate 11 sample_inputs) (Pins,
      sample_machine\<lparr>globals := gpio_callback EXIT_GPIO_PIN True (globals sample_machine)\<rparr>)) = Inr ()"
    by code_simp
  then obtain ph' m' where r: "run_phases (replicate 11 sample_inputs) (Pins,
      sample_machine\<lparr>globals := gpio_callback EXIT_GPIO_PIN True (globals sample_machine)\<rparr>) = Inr (ph', m')"
    by (metis map_sum_Inr_D surj_pair)
  have "unat (global_activity (globals sample_machine) - last_activity sample_machine) < 65534"
    by (simp add: sample_machine_def main_start_def)
  from exit_pin_ends_loop [OF r _ this] r show ?thesis by simp
qed

subsection \<open>Connecting\<close>

lemma duplicate_loop_calls: "stack_calls (snd (duplicate_loop hs f s)) = stack_calls s"
  by (induction hs f s rule: duplicate_loop.induct) (simp_all add: Let_def update_connection_def fun_upd_def)

lemma drop_duplicate_calls:
  "\<exists>cs. stack_calls (connection_tracker (drop_duplicate err time r)) = stack_calls (connection_tracker r) @ cs \<and>
     (\<forall>addr ty. Connect addr ty \<notin> set cs)"
  using duplicate_loop_calls [of "handle_peer_map (connection_tracker r)" "\<lambda>_. 0" "connection_tracker r"]
  by (auto simp: drop_duplicate_def getAnyDuplicateHandle_def Let_def call_stack_def split: prod.splits)

lemma connect_to_first_neighbour_calls:
  "\<exists>cs. stack_calls (connection_tracker (snd (connect_to_first_neighbour err r))) =
       stack_calls (connection_tracker r) @ cs \<and>
     (\<forall>addr ty. Connect addr ty \<in> set cs \<longrightarrow>
        (\<exists>key c. (key, c) \<in> set (getConnectableNeighbours (connection_tracker r)) \<and> bt_address c = addr \<and>
          bt_address_type c = ty \<and> getConnectionForAddress addr (connection_tracker r) = None))"
proof (cases "getConnectableNeighbours (connection_tracker r)")
  case (Cons kc rest)
  obtain key c where kc: "kc = (key, c)" by (cases kc)
  show ?thesis
    by (cases "getConnectionForAddress (bt_address c) (connection_tracker r)")
      (auto simp: connect_to_first_neighbour_def Cons kc Let_def setConnectionStarted_def call_stack_def)
qed (simp add: connect_to_first_neighbour_def)

text \<open>
  C18: the repeater asks for a connection only when it neither scans nor connects nor discovers, more
  than two seconds of its clock after the last disconnection it asked for, and only to a scanned
  neighbour that it is not connected to, has no random address and, while the time is not known, is a
  repeater.
\<close>

theorem connects_only_when_idle:
  assumes "Connect addr ty \<in> set (drop (length (stack_calls (tracker_of m)))
      (stack_calls (tracker_of (connect_phase i m))))"
  shows "\<not> scanning (globals m) \<and> \<not> connection_in_progress (globals m) \<and>
    \<not> discover_primary_services (globals m) \<and> \<not> discover_characteristics_for_service (globals m) \<and>
    disconnection_started_at (globals m) < loopStart m - two_seconds_in_us \<and>
    getConnectionForAddress addr (tracker_of m) = None \<and>
    (\<exists>key c. (key, c) \<in> set (available_neighbours (tracker_of m)) \<and> bt_address c = addr \<and>
      bt_address_type c = ty \<and> \<not> isRandom c \<and>
      (isRepeater c \<or> timestamp_offset_ms (tracker_of m) \<ge> build_time_ms))"
proof -
  let ?r = "snd (connect_to_first_neighbour (gap_connect_error i) (globals m))"
  have may: "may_connect m"
    using assms by (auto simp: connect_phase_def split: if_splits)
  obtain cs where "stack_calls (tracker_of (connect_phase i m)) = stack_calls (connection_tracker ?r) @ cs"
    and cs: "\<forall>addr ty. Connect addr ty \<notin> set cs"
  proof (cases "fst (connect_to_first_neighbour (gap_connect_error i) (globals m))")
    case True
    then show thesis using that [of "[]"] may by (simp add: connect_phase_def case_prod_beta)
  next
    case False
    then show thesis
      using that may drop_duplicate_calls [of "gap_disconnect_error i" "time_us_32 i" ?r]
      by (auto simp: connect_phase_def case_prod_beta)
  qed
  moreover obtain ds where "stack_calls (connection_tracker ?r) = stack_calls (tracker_of m) @ ds"
    and ds: "\<forall>addr ty. Connect addr ty \<in> set ds \<longrightarrow>
      (\<exists>key c. (key, c) \<in> set (getConnectableNeighbours (tracker_of m)) \<and> bt_address c = addr \<and>
        bt_address_type c = ty \<and> getConnectionForAddress addr (tracker_of m) = None)"
    using connect_to_first_neighbour_calls by blast
  ultimately have "Connect addr ty \<in> set ds"
    using assms cs by auto
  then obtain key c where "(key, c) \<in> set (getConnectableNeighbours (tracker_of m))"
    and "getConnectionForAddress addr (tracker_of m) = None" "bt_address c = addr" "bt_address_type c = ty"
    using ds by blast
  then show ?thesis
    using may by (auto simp: may_connect_def getConnectableNeighbours_def)
qed

definition sample_neighbour :: ble_connection where
  "sample_neighbour =
     setServices ServiceUUIDAndNameFound (setBleAddress [1, 2, 3, 4, 5, 6] 0 new_BleConnection)"

definition neighbour_machine :: machine where
  "neighbour_machine = sample_machine\<lparr>loopStart := 9000000, globals := (initial_repeater 1)\<lparr>connection_tracker :=
     (new_tracker 1)\<lparr>available_neighbours := [([1, 2, 3, 4, 5, 6], sample_neighbour)]\<rparr>\<rparr>\<rparr>"

theorem connects_only_when_idle_witness:
  "Connect [1, 2, 3, 4, 5, 6] 0 \<in> set (stack_calls (tracker_of (connect_phase sample_inputs neighbour_machine))) \<and>
   getConnectionForAddress [1, 2, 3, 4, 5, 6] (tracker_of neighbour_machine) = None \<and>
   \<not> scanning (globals neighbour_machine)"
proof -
  have "Connect [1, 2, 3, 4, 5, 6] 0 \<in> set (drop (length (stack_calls (tracker_of neighbour_machine)))
      (stack_calls (tracker_of (connect_phase sample_inputs neighbour_machine))))"
    by code_simp
  from connects_only_when_idle [OF this] in_set_dropD [OF this] show ?thesis by simp
qed

text \<open>Only the connecting phase touches the time of the last disconnection.\<close>

lemma disconnection_frames [simp]:
  "disconnection_started_at (active r) = disconnection_started_at r"
  "disconnection_started_at (on_tracker f r) = disconnection_started_at r"
  "disconnection_started_at (call c r) = disconnection_started_at r"
  by (simp_all add: active_def on_tracker_def call_def)

lemma callbacks_keep_disconnection:
  assumes "handle_event pf t e r = Inr r'"
  shows "disconnection_started_at r' = disconnection_started_at r"
proof -
  have adv: "populate_advertising_data pf x = Inr y \<Longrightarrow> disconnection_started_at y = disconnection_started_at x" for x y
    by (auto simp: populate_advertising_data_def put_name_def adv_put_def adv_copy_def Let_def split: if_splits)
  show ?thesis
  proof (cases e)
    case (Hci b ev)
    then show ?thesis
      using assms adv by (cases ev) (auto simp: hci_packet_handler_def setup_advertisements_def
          setup_scanning_def start_scanning_for_local_nodes_def Let_def split: if_splits)
  next
    case (Gatt_client ev)
    then show ?thesis
      using assms by (cases ev) (auto simp: handle_gatt_client_event_def Let_def split: option.splits)
  next
    case (Value_update ev)
    then show ?thesis
      using assms by (cases ev) (auto simp: handle_gatt_client_value_update_event_def Let_def)
  next
    case (Att b ev)
    then show ?thesis
      using assms by (cases ev) (auto simp: att_packet_handler_def Let_def split: if_splits)
  qed (use assms in \<open>auto simp: att_read_callback_def att_write_callback_def sm_packet_handler_def
    stop_scan_handler_def gpio_callback_def Let_def bitchat_can_send_notification_handler_def
    bitchat_can_write_without_response_handler_def split: if_splits\<close>)
qed

lemma phases_keep_disconnection:
  assumes "run_phase i ph m = Inr (ph', m')" and "\<not> may_connect m"
  shows "disconnection_started_at (globals m') = disconnection_started_at (globals m)"
  using assms
  by (cases ph)
    (auto simp: announce_phase_def cleanup_phase_def flash_phase_def scan_phase_def end_phase_def rssi_phase_def
      next_rssi_def start_scanning_for_local_nodes_def handlePinActivity_def connect_phase_def Let_def
      split: if_splits prod.splits option.splits)

lemma max_u32: "(x :: u32) \<le> 0xFFFFFFFF"
proof -
  have "unat x < 2 ^ LENGTH(32)" by (rule unsigned_less)
  then show ?thesis by (simp add: word_le_nat_alt)
qed

text \<open>
  C37: the comparison with the time of the last disconnection is not safe against the clock's
  wrap-around: after a disconnection in the last microsecond of the 32 bit clock the repeater never
  connects again, whatever else happens.
\<close>

theorem disconnection_at_wrap_blocks_connecting:
  assumes "(step pf)\<^sup>*\<^sup>* (ph, m) (ph', m')" and "disconnection_started_at (globals m) = 0xFFFFFFFF"
  shows "\<not> may_connect m' \<and> connect_phase i m' = m'"
proof -
  have blocked: "disconnection_started_at (globals x) = 0xFFFFFFFF \<Longrightarrow> \<not> may_connect x" for x
    using max_u32 [of "loopStart x - two_seconds_in_us"] by (simp add: may_connect_def not_less)
  have "disconnection_started_at (globals (snd (ph', m'))) = 0xFFFFFFFF"
    using assms(1)
  proof (induction rule: rtranclp_induct)
    case base
    then show ?case using assms(2) by simp
  next
    case (step y z)
    from step(2) show ?case
      using step.IH blocked
      by (cases rule: step.cases) (auto dest: phases_keep_disconnection callbacks_keep_disconnection)
  qed
  then show ?thesis
    using blocked by (simp add: connect_phase_def)
qed

theorem disconnection_at_wrap_blocks_connecting_witness:
  "connect_phase sample_inputs (neighbour_machine\<lparr>globals := (globals neighbour_machine)
     \<lparr>disconnection_started_at := 0xFFFFFFFF\<rparr>\<rparr>) = neighbour_machine\<lparr>globals := (globals neighbour_machine)
     \<lparr>disconnection_started_at := 0xFFFFFFFF\<rparr>\<rparr>"
  using disconnection_at_wrap_blocks_connecting [OF rtranclp.rtrancl_refl [of _ "(Connecting, _)"], of
      "neighbour_machine\<lparr>globals := (globals neighbour_machine)\<lparr>disconnection_started_at := 0xFFFFFFFF\<rparr>\<rparr>"]
  by simp

subsection \<open>Timers\<close>

text \<open>
  The first clean-up comes with the first pass of the loop, not after fifteen minutes: the time of
  the last clean-up starts five minutes in the future, and the unsigned difference to it is huge.
\<close>

lemma first_cleanup_is_immediate:
  assumes "lastCleanup m = t5 + five_minutes_in_us" and "loopStart m - t5 < five_minutes_in_us"
  shows "run_phase i Cleaning m =
    bind_result (try_globals (try_tracker (cleanupStaleItems (now_us (at_moment i)))) m)
      (\<lambda>m. Inr (Sleeping, m\<lparr>lastCleanup := time_us_32 i, slept := False\<rparr>))"
proof -
  have "unat (loopStart m - t5) < 300000000"
    using assms(2) by (simp add: five_minutes_in_us_def word_less_nat_alt)
  then have "unat (loopStart m - t5 - five_minutes_in_us) > 600000000"
    using unat_sub_if' [of "loopStart m - t5" five_minutes_in_us] by (simp add: five_minutes_in_us_def)
  moreover have "loopStart m - lastCleanup m = loopStart m - t5 - five_minutes_in_us"
    by (simp add: assms(1))
  ultimately have "unat (loopStart m - lastCleanup m) > 600000000"
    by (simp only:)
  then have "loopStart m - lastCleanup m > ten_minutes_in_us"
    by (simp add: ten_minutes_in_us_def word_less_nat_alt)
  then show ?thesis
    by (simp add: cleanup_phase_def try_globals_def bind_result_def split: sum.split)
qed

text \<open>
  A repeater without connections reads past the end of its connections when the RSSI update is due,
  five minutes after it started or later.
\<close>

lemma rssi_update_without_connections_fails:
  assumes "connections (tracker_of m) = []" and "loopStart m - lastRssiUpdate m > five_minutes_in_us"
  shows "run_phase i Rssi m = Inl DanglingPointer"
  using assms by (simp add: rssi_phase_def next_rssi_def requestNextRssi_def Let_def)

end
