(* ===== verification/Delivery.thy ===== *)
theory Delivery
  imports Program
begin

text \<open>
  What becomes of packets between the queues and the stack: announcements, raw packets handed over when
  the stack is ready, and the places where the tracker loses or confuses packets.
\<close>

section \<open>Raw packets\<close>

text \<open>What waits for a connection in a multimap of raw packets, in the order of the multimap.\<close>

definition own :: "(u16 \<times> bytes) list \<Rightarrow> u16 \<Rightarrow> bytes list" where
  "own q h = map snd (multi_range h q)"

lemma own_emplace: "multi_ok q \<Longrightarrow> own (multi_emplace h d q) = (own q)(h := own q h @ [d])"
  by (rule ext) (simp add: own_def multi_range_emplace)

lemma multi_ok_erase_first:
  assumes "multi_ok q"
  shows "multi_ok (erase_first h q)"
proof -
  let ?below = "takeWhile (\<lambda>(h', v). h' < h) q"
  have q: "q = ?below @ multi_lower h q" by (simp add: multi_lower_def)
  have "sorted (map fst (?below @ multi_lower h q))" using assms q by (simp add: multi_ok_def)
  then show ?thesis
    unfolding erase_first_def multi_ok_def map_append
    by (cases "multi_lower h q") (auto simp: sorted_append)
qed

lemma own_erase_first:
  assumes "multi_ok q" and "own q h = d # ds"
  shows "\<exists>rest. multi_lower h q = (h, d) # rest" and "own (erase_first h q) = (own q)(h := ds)"
proof -
  let ?below = "takeWhile (\<lambda>(h', v). h' < h) q"
  have q: "q = ?below @ multi_lower h q" by (simp add: multi_lower_def)
  have below: "multi_range h ?below = []"
    by (auto simp: multi_range_def filter_empty_conv dest: set_takeWhileD)
  have range: "multi_range k q = multi_range k ?below @ multi_range k (multi_lower h q)" for k
    by (subst q) (simp add: multi_range_def)
  have "multi_range h (multi_lower h q) \<noteq> []"
    using assms(2) range [of h] below by (auto simp: own_def)
  then obtain h' d' rest where l: "multi_lower h q = (h', d') # rest"
    by (cases "multi_lower h q") (auto simp: multi_range_def)
  have "\<not> h' < h"
    using l by (metis (mono_tags, lifting) case_prod_conv hd_dropWhile list.sel(1) list.simps(3) multi_lower_def)
  moreover have "sorted (map fst (multi_lower h q))"
    using assms(1) unfolding multi_ok_def multi_lower_def by (metis dropWhile_eq_drop drop_map sorted_wrt_drop)
  moreover obtain d'' where "(h, d'') \<in> set (multi_lower h q)"
    using \<open>multi_range h (multi_lower h q) \<noteq> []\<close> by (auto simp: multi_range_def filter_empty_conv)
  ultimately have "h' = h"
    using l by auto
  then show "\<exists>rest. multi_lower h q = (h, d) # rest"
    using assms(2) range [of h] below l by (simp add: own_def multi_range_def)
  have "own (erase_first h q) k = ((own q)(h := ds)) k" for k
    using assms(2) range [of k] below l \<open>h' = h\<close>
    by (auto simp: own_def erase_first_def multi_range_def)
  then show "own (erase_first h q) = (own q)(h := ds)" by (rule ext)
qed

text \<open>
  What happens to the raw packets: one is queued for a connection, or the stack is ready for a connection and
  answers with a status when it is handed a packet.
\<close>

datatype raw_event = Queued u16 bytes | Ready u8 u16

fun raw_events ::
    "(u16 \<Rightarrow> bytes \<Rightarrow> tracker \<Rightarrow> tracker) \<Rightarrow> (u8 \<Rightarrow> u16 \<Rightarrow> tracker \<Rightarrow> tracker result) \<Rightarrow> raw_event list \<Rightarrow>
     tracker \<Rightarrow> tracker result" where
  "raw_events put send [] s = Inr s"
| "raw_events put send (Queued h d # es) s = raw_events put send es (put h d s)"
| "raw_events put send (Ready ret h # es) s = bind_result (send ret h s) (raw_events put send es)"

text \<open>
  The specification: a queue for each connection. A ready connection is handed the first packet of its queue,
  which then leaves it unless the stack wants it again; a connection without packets is not ready.
\<close>

fun fifo_events ::
    "raw_event list \<Rightarrow> (u16 \<Rightarrow> bytes list) \<Rightarrow> ((u16 \<times> bytes) list \<times> (u16 \<Rightarrow> bytes list)) option" where
  "fifo_events [] q = Some ([], q)"
| "fifo_events (Queued h d # es) q = fifo_events es (q(h := q h @ [d]))"
| "fifo_events (Ready ret h # es) q =
     (case q h of
        [] \<Rightarrow> None
      | d # ds \<Rightarrow> map_option (\<lambda>(handed, q'). ((h, d) # handed, q'))
          (fifo_events es (if ret = 0 \<or> ret = 2 then q(h := ds) else q)))"

definition ready_handles :: "raw_event list \<Rightarrow> u16 set" where
  "ready_handles es = {h. \<exists>ret. Ready ret h \<in> set es}"

text \<open>
  Notifications and writes are sent the same way. A connection that is ready takes the first packet
  from its place in the multimap on.
\<close>

locale raw_sender =
  fixes queue :: "tracker \<Rightarrow> (u16 \<times> bytes) list"
    and put :: "u16 \<Rightarrow> bytes \<Rightarrow> tracker \<Rightarrow> tracker"
    and send :: "u8 \<Rightarrow> u16 \<Rightarrow> tracker \<Rightarrow> tracker result"
    and hand :: "u16 \<Rightarrow> u16 \<Rightarrow> bytes \<Rightarrow> stack_call"
    and request :: "u16 \<Rightarrow> stack_call"
  assumes takes_first: "multi_lower h (queue s) = (h', data) # rest \<Longrightarrow>
      has_data_to_send (connection_or_new s h) \<Longrightarrow>
      \<exists>s'. send ret h s = Inr s' \<and>
        queue s' = (if ret = 0 \<or> ret = 2 then erase_first h (queue s) else queue s) \<and>
        connection_or_new s' = connection_or_new s \<and>
        stack_calls s' = stack_calls s @
          hand h (bitchat_characteristic_value_handle (connection_or_new s h)) data #
          (if multi_lower h (queue s') = [] then [] else [request h])"
    and put_queues: "queue (put h data s) = multi_emplace h data (queue s)"
      "connection_or_new (put h data s) = connection_or_new s"
      "stack_calls (put h data s) = stack_calls s @ [request h]"
    and request_not_hand: "request h \<noteq> hand h' v data"
begin

lemma refines_fifo:
  assumes "fifo_events es (own (queue s)) = Some (handed, q)" and "multi_ok (queue s)"
    and "\<forall>h \<in> ready_handles es. has_data_to_send (connection_or_new s h)"
  shows "\<exists>s' calls. raw_events put send es s = Inr s' \<and> own (queue s') = q \<and>
    stack_calls s' = stack_calls s @ calls \<and>
    filter (\<lambda>c. c \<notin> range request) calls =
      map (\<lambda>(h, d). hand h (bitchat_characteristic_value_handle (connection_or_new s h)) d) handed"
  using assms
proof (induction es arbitrary: s handed)
  case (Cons e es)
  have data: "\<forall>h \<in> ready_handles es. has_data_to_send (connection_or_new s h)"
    using Cons.prems(3) by (auto simp: ready_handles_def)
  show ?case
  proof (cases e)
    case (Queued h d)
    let ?s = "put h d s"
    have "fifo_events es (own (queue ?s)) = Some (handed, q)" "multi_ok (queue ?s)"
      using Cons.prems(1,2) Queued by (simp_all add: put_queues own_emplace)
    from Cons.IH [OF this] data obtain s' calls where
      "raw_events put send es ?s = Inr s'" "own (queue s') = q" "stack_calls s' = stack_calls ?s @ calls"
      "filter (\<lambda>c. c \<notin> range request) calls =
        map (\<lambda>(h, d). hand h (bitchat_characteristic_value_handle (connection_or_new ?s h)) d) handed"
      by (auto simp: put_queues)
    then show ?thesis
      using Queued by (intro exI [of _ s'] exI [of _ "request h # calls"]) (simp add: put_queues)
  next
    case (Ready ret h)
    let ?v = "\<lambda>h. bitchat_characteristic_value_handle (connection_or_new s h)"
    obtain d ds more where o: "own (queue s) h = d # ds" "handed = (h, d) # more"
      "fifo_events es (if ret = 0 \<or> ret = 2 then (own (queue s))(h := ds) else own (queue s)) = Some (more, q)"
      using Cons.prems(1) Ready by (auto split: list.splits)
    note first = own_erase_first [OF Cons.prems(2) o(1)]
    have "has_data_to_send (connection_or_new s h)"
      using Cons.prems(3) Ready by (auto simp: ready_handles_def)
    with takes_first first(1) obtain s1 where s1: "send ret h s = Inr s1"
      "queue s1 = (if ret = 0 \<or> ret = 2 then erase_first h (queue s) else queue s)"
      "connection_or_new s1 = connection_or_new s"
      "stack_calls s1 = stack_calls s @ hand h (?v h) d # (if multi_lower h (queue s1) = [] then [] else [request h])"
      by blast
    have "fifo_events es (own (queue s1)) = Some (more, q)" "multi_ok (queue s1)"
      using o(3) s1(2) first(2) multi_ok_erase_first [OF Cons.prems(2)] Cons.prems(2) by auto
    from Cons.IH [OF this] data s1(3) obtain s' calls where s':
      "raw_events put send es s1 = Inr s'" "own (queue s') = q" "stack_calls s' = stack_calls s1 @ calls"
      "filter (\<lambda>c. c \<notin> range request) calls = map (\<lambda>(h, d). hand h (?v h) d) more"
      by auto
    let ?calls = "hand h (?v h) d # (if multi_lower h (queue s1) = [] then [] else [request h]) @ calls"
    have "hand h (?v h) d \<notin> range request" using request_not_hand by (metis imageE)
    then have "filter (\<lambda>c. c \<notin> range request) ?calls = map (\<lambda>(h, d). hand h (?v h) d) handed"
      using s'(4) by (simp add: o(2))
    then show ?thesis
      using Ready s1(1,4) s'(1,2,3) by (intro exI [of _ s'] exI [of _ ?calls]) simp
  qed
qed simp

end

lemma same_connections_same_reads:
  "connections s' = connections s \<Longrightarrow> connection_or_new s' = connection_or_new s"
  by (rule ext) (simp add: connection_or_new_def)

lemma connection_or_new_frames [simp]:
  "connection_or_new (s\<lparr>raw_packet_to_notify := x\<rparr>) = connection_or_new s"
  "connection_or_new (s\<lparr>raw_packet_to_write := x\<rparr>) = connection_or_new s"
  "connection_or_new (s\<lparr>notify_context := k\<rparr>) = connection_or_new s"
  "connection_or_new (s\<lparr>write_context := k\<rparr>) = connection_or_new s"
  by (rule same_connections_same_reads; simp)+

interpretation notifications: raw_sender raw_packet_to_notify queue_notification notifyRawPacket Notify
    Request_notification
  by unfold_locales (simp_all add: notifyRawPacket_def Let_def, auto simp: call_stack_def update_connection_def)

interpretation writes: raw_sender raw_packet_to_write queue_write writeRawPacket Write_value Request_write
  by unfold_locales (simp_all add: writeRawPacket_def Let_def, auto simp: call_stack_def update_connection_def)

text \<open>
  C20: the multimaps of raw packets work as one queue for each connection. Whatever is queued and whichever
  connections become ready, in any order and with any answers of the stack, each connection is handed its own
  packets in the order in which they were queued, and a packet stays until the stack has taken it; as long as
  only connections become ready that have a packet waiting and are marked as having data. For notifications
  and for writes.
\<close>

theorem raw_packets_are_queues:
  assumes "multi_ok (raw_packet_to_notify s)" and "multi_ok (raw_packet_to_write s)"
    and "\<forall>h \<in> ready_handles es. has_data_to_send (connection_or_new s h)"
  shows "(fifo_events es (own (raw_packet_to_notify s)) = Some (handed, q) \<longrightarrow>
      (\<exists>s' calls. raw_events queue_notification notifyRawPacket es s = Inr s' \<and>
        own (raw_packet_to_notify s') = q \<and> stack_calls s' = stack_calls s @ calls \<and>
        filter (\<lambda>c. c \<notin> range Request_notification) calls =
          map (\<lambda>(h, d). Notify h (bitchat_characteristic_value_handle (connection_or_new s h)) d) handed)) \<and>
    (fifo_events es (own (raw_packet_to_write s)) = Some (handed, q) \<longrightarrow>
      (\<exists>s' calls. raw_events queue_write writeRawPacket es s = Inr s' \<and>
        own (raw_packet_to_write s') = q \<and> stack_calls s' = stack_calls s @ calls \<and>
        filter (\<lambda>c. c \<notin> range Request_write) calls =
          map (\<lambda>(h, d). Write_value h (bitchat_characteristic_value_handle (connection_or_new s h)) d) handed))"
  using notifications.refines_fifo [OF _ assms(1,3)] writes.refines_fifo [OF _ assms(2,3)] by blast

text \<open>
  C36: a connection that is ready without a packet of its own takes the next packet of another one with
  a higher handle: it is sent to the wrong connection and lost for the right one.
\<close>

theorem ready_connection_takes_others_packet:
  assumes "has_data_to_send (connection_or_new s h)"
    and "multi_lower h (raw_packet_to_notify s) = (h', data) # rest" and "h' \<noteq> h"
  shows "\<exists>s'. notifyRawPacket 0 h s = Inr s' \<and>
    Notify h (bitchat_characteristic_value_handle (connection_or_new s h)) data \<in> set (stack_calls s') \<and>
    raw_packet_to_notify s' = takeWhile (\<lambda>(h', v). h' < h) (raw_packet_to_notify s) @ rest"
  using notifications.takes_first [OF assms(2,1), of 0] assms(2) by (auto simp: erase_first_def)

text \<open>Two packets wait for connection 65, one for 64.\<close>

definition waiting_tracker :: tracker where
  "waiting_tracker = sample_tracker
     \<lparr>connections := [(64, setHasData True (sample_connection 64 HCI_ROLE_SLAVE)),
        (65, setHasData True (sample_connection 65 HCI_ROLE_SLAVE))],
      raw_packet_to_notify := [(64, [1]), (65, [2]), (65, [3])]\<rparr>"

lemma waiting_tracker_facts:
  "has_data_to_send (connection_or_new waiting_tracker 65)" "has_data_to_send (connection_or_new waiting_tracker 64)"
  "bitchat_characteristic_value_handle (connection_or_new waiting_tracker 65) = 9"
  "bitchat_characteristic_value_handle (connection_or_new waiting_tracker 64) = 9"
  "raw_packet_to_notify waiting_tracker = [(64, [1]), (65, [2]), (65, [3])]"
  "raw_packet_to_write waiting_tracker = []" "stack_calls waiting_tracker = []"
  by (simp_all add: waiting_tracker_def connection_or_new_def sample_connection_def connection_setters
      sample_tracker_def new_tracker_def)

text \<open>65 is ready, its packet is refused; one more is queued for 64; 64 and 65 are ready in turn.\<close>

theorem raw_packets_are_queues_witness:
  "\<exists>s' calls. raw_events queue_notification notifyRawPacket
       [Ready 5 65, Queued 64 [4], Ready 0 64, Ready 0 65, Ready 0 64] waiting_tracker = Inr s' \<and>
     own (raw_packet_to_notify s') 65 = [[3]] \<and> own (raw_packet_to_notify s') 64 = [] \<and>
     stack_calls s' = calls \<and> filter (\<lambda>c. c \<notin> range Request_notification) calls =
       [Notify 65 9 [2], Notify 64 9 [1], Notify 65 9 [2], Notify 64 9 [4]]"
proof -
  let ?es = "[Ready 5 65, Queued 64 [4], Ready 0 64, Ready 0 65, Ready 0 64] :: raw_event list"
  have "fifo_events ?es (own (raw_packet_to_notify waiting_tracker)) =
      Some ([(65, [2]), (64, [1]), (65, [2]), (64, [4])],
        (own (raw_packet_to_notify waiting_tracker))(64 := [], 65 := [[3]]))"
    by (simp add: waiting_tracker_facts own_def multi_range_def fun_eq_iff)
  moreover have "\<forall>h \<in> ready_handles ?es. has_data_to_send (connection_or_new waiting_tracker h)"
    "multi_ok (raw_packet_to_notify waiting_tracker)" "multi_ok (raw_packet_to_write waiting_tracker)"
    using waiting_tracker_facts(1,2) by (auto simp: ready_handles_def waiting_tracker_facts multi_ok_def)
  ultimately show ?thesis
    using conjunct1 [OF raw_packets_are_queues [of waiting_tracker ?es]]
    by (fastforce simp: waiting_tracker_facts simp del: raw_events.simps fifo_events.simps)
qed

theorem ready_connection_takes_others_packet_witness:
  "\<exists>s'. notifyRawPacket 0 64 (waiting_tracker\<lparr>raw_packet_to_notify := [(65, [2])]\<rparr>) = Inr s' \<and>
     Notify 64 9 [2] \<in> set (stack_calls s') \<and> raw_packet_to_notify s' = []"
  using ready_connection_takes_others_packet [of "waiting_tracker\<lparr>raw_packet_to_notify := [(65, [2])]\<rparr>" 64 65
      "[2]" "[]"]
  by (simp add: waiting_tracker_facts multi_lower_def)

section \<open>Announcing\<close>

text \<open>Whether the announcement is noted for a handle.\<close>

definition announced :: "tracker \<Rightarrow> u16 \<Rightarrow> bool" where
  "announced s h \<longleftrightarrow> h \<in> set (sent_handles s (announcement_addr s))"

lemma find_if_total: "\<forall>x \<in> set xs. \<exists>b. P x = Inr b \<Longrightarrow> find_if P xs = Inr (\<exists>x \<in> set xs. P x = Inr True)"
proof (induction xs)
  case (Cons x xs)
  then obtain b where "P x = Inr b" by auto
  then show ?case using Cons by (cases b) auto
qed simp

lemma announced_to_total:
  assumes "pointers_ok s"
  shows "announced_to s h = Inr (announced s h)"
proof -
  have "\<forall>x \<in> set (multi_range (announcement_addr s) (packets_connections_sent_list s)).
      \<exists>b. handle_matches s h x = Inr b"
    using assms by (auto simp: pointers_ok_def handle_matches_iff)
  from find_if_total [OF this] show ?thesis
    by (auto simp: announced_to_def announced_def set_sent_handles handle_matches_iff)
qed

text \<open>The handles, of a list of connections, that are ready and wait for the announcement.\<close>

definition to_announce :: "tracker \<Rightarrow> (u16 \<times> ble_connection) list \<Rightarrow> u16 set" where
  "to_announce s cs = {k. \<exists>c. (k, c) \<in> set cs \<and> available c \<and> \<not> announced s k}"

lemma to_announce_simps:
  "to_announce s [] = {}"
  "to_announce s ((k, c) # cs) = (if available c \<and> \<not> announced s k then insert k (to_announce s cs) else to_announce s cs)"
  by (auto simp: to_announce_def)

text \<open>What the loop over the connections leaves alone.\<close>

definition announcing :: "tracker \<Rightarrow> tracker \<Rightarrow> bool" where
  "announcing s t \<longleftrightarrow>
     connections t = connections s \<and> packets_connections_sent_list t = packets_connections_sent_list s \<and>
     announcement_addr t = announcement_addr s \<and> packet_ttl (announcement t) = packet_ttl (announcement s) \<and>
     timestamp_offset_ms t = timestamp_offset_ms s"

lemma announcing_facts:
  assumes "announcing s t"
  shows "pointers_ok t = pointers_ok s" and "announced t = announced s"
proof -
  have p: "ptr_handle t = ptr_handle s"
    using assms by (intro ptr_handle_cong) (simp add: announcing_def)
  show "pointers_ok t = pointers_ok s"
    using assms by (simp add: pointers_ok_def p announcing_def)
  show "announced t = announced s"
    using assms by (intro ext) (simp add: announced_def sent_handles_def p announcing_def)
qed

lemma count_multi_emplace:
  "count_list (multi_emplace k v m) e = count_list m e + (if e = (k, v) then 1 else 0)"
  by (induction k v m rule: multi_emplace.induct) auto

lemma announce_loop_targets:
  assumes "timestamp_offset_ms s \<ge> build_time_ms" and "pointers_ok s" and "packet_ttl (announcement s) > 0"
    and "\<forall>(k, c) \<in> set cs. (k, c) \<in> set (connections s) \<and> (available c \<longrightarrow> connection_handle c = k)"
    and "map_ok (connections s)" and "announcing s t" and "distinct (map fst cs)"
  shows "\<exists>t'. announce_loop clock cs i t = Inr t' \<and> announcing s t' \<and>
    (\<forall>e. count_list (targeted_packets_to_send_list t') e = count_list (targeted_packets_to_send_list t) e +
      (if e \<in> (\<lambda>k. (announcement_addr s, ConnectionNode k)) ` to_announce s cs then 1 else 0))"
  using assms(4,6,7)
proof (induction cs arbitrary: i t)
  case (Cons kc cs)
  obtain k c where kc: "kc = (k, c)" by (cases kc)
  have rest: "\<forall>(k, c) \<in> set cs. (k, c) \<in> set (connections s) \<and> (available c \<longrightarrow> connection_handle c = k)"
    and dist: "distinct (map fst cs)" and new: "k \<notin> to_announce s cs"
    using Cons.prems(1,3) kc by (auto simp: to_announce_def image_iff)
  have time: "timestamp_offset_ms t \<ge> build_time_ms"
    using assms(1) Cons.prems(2) by (simp add: announcing_def)
  note facts = announcing_facts [OF Cons.prems(2)]
  show ?case
  proof (cases "available c \<and> \<not> announced s k")
    case False
    then have "announce_loop clock (kc # cs) i t = announce_loop clock cs i t"
      using Cons.prems(1) facts assms(2) announced_to_total [of t] kc by auto
    moreover have "to_announce s (kc # cs) = to_announce s cs"
      using False by (auto simp: kc to_announce_simps)
    ultimately show ?thesis
      using Cons.IH [OF rest Cons.prems(2) dist, of i] by simp
  next
    case True
    then have ck: "connection_handle c = k" "map_of (connections t) k \<noteq> None"
      using Cons.prems kc assms(5) map_of_iff_set [of "connections s" k c] by (auto simp: announcing_def)
    define u where "u = t\<lparr>announcement := setPacketTimestamp (getTimeMs (clock i) t) (announcement t)\<rparr>"
    define v where "v = u\<lparr>targeted_packets_to_send_list :=
        multi_emplace (announcement_addr u) (ConnectionNode k) (targeted_packets_to_send_list u)\<rparr>"
    have "deref_packet u (announcement_addr u) = Inr (AnnouncePacket (announcement u))"
      by (simp add: deref_packet_def)
    then have "enqueueTargetedPacket (announcement_addr u) k u = Inr v"
      using assms(3) Cons.prems(2) ck(2)
      by (simp add: enqueueTargetedPacket_def connectionForConnHandle_def v_def u_def announcing_def
          setPacketTimestamp_def)
    then have "announce_loop clock (kc # cs) i t = announce_loop clock cs (i + 1) v"
      using True time ck(1) facts assms(2) announced_to_total [of t] by (simp add: kc u_def Let_def)
    moreover have "announcing s v"
      using Cons.prems(2) by (simp add: announcing_def v_def u_def setPacketTimestamp_def)
    moreover have "count_list (targeted_packets_to_send_list v) e = count_list (targeted_packets_to_send_list t) e +
        (if e = (announcement_addr s, ConnectionNode k) then 1 else 0)" for e
      using Cons.prems(2) by (simp add: v_def u_def announcing_def count_multi_emplace)
    ultimately show ?thesis
      using Cons.IH [OF rest _ dist, of v "i + 1"] True new
      by (auto simp: kc to_announce_simps simp del: announce_loop.simps)
  qed
qed (simp add: to_announce_simps)

text \<open>
  C19: announcing. As long as no announcement has told the time, nothing is queued. Once the time is known,
  exactly one announcement more is queued for each connection that is ready and for which none is noted as
  sent, and nothing for others. One that is queued and not yet sent is not noted, so a second announcing
  before the next sending queues another one for the same connection.
\<close>

theorem announces_once_time_is_known:
  assumes "tracker_ok s" and "pointers_ok s"
  shows "\<exists>s'. announceToConnections local_addr clock s = Inr s' \<and>
    connections s' = connections s \<and>
    (\<forall>e. count_list (targeted_packets_to_send_list s') e = count_list (targeted_packets_to_send_list s) e +
      (if timestamp_offset_ms s \<ge> build_time_ms \<and>
          e \<in> (\<lambda>k. (announcement_addr s, ConnectionNode k)) ` to_announce s (connections s) then 1 else 0))"
proof -
  define u where "u = setupAnnounceIfNeeded local_addr s"
  have u: "connections u = connections s" "targeted_packets_to_send_list u = targeted_packets_to_send_list s"
    "timestamp_offset_ms u = timestamp_offset_ms s" "announcement_addr u = announcement_addr s"
    "packets_connections_sent_list u = packets_connections_sent_list s"
    by (simp_all add: u_def setupAnnounceIfNeeded_def)
  have ttl: "packet_ttl (announcement u) > 0"
    by (auto simp: u_def setupAnnounceIfNeeded_def announce_ttl_def packet_setters setName_def)
  have p: "ptr_handle u = ptr_handle s"
    by (rule ptr_handle_cong) (simp add: u(1))
  have ann: "announced u = announced s" "pointers_ok u"
    using assms(2) by (auto simp: fun_eq_iff announced_def sent_handles_def pointers_ok_def p u(4,5))
  show ?thesis
  proof (cases "timestamp_offset_ms s < build_time_ms")
    case True
    have "announce_loop clock cs i u = Inr u" for cs i
      by (induction cs) (use True u(3) in auto)
    then show ?thesis using True u by (simp add: announceToConnections_def u_def [symmetric])
  next
    case False
    have "connection_handle c = k" if "(k, c) \<in> set (connections u)" "available c" for k c
      using that assms(1) u(1) by (auto simp: tracker_ok_def connections_ok_def available_def)
    moreover have "map_ok (connections u)" using assms(1) u(1) by (simp add: tracker_ok_defs)
    ultimately have "\<exists>t'. announce_loop clock (connections u) 0 u = Inr t' \<and> announcing u t' \<and>
        (\<forall>e. count_list (targeted_packets_to_send_list t') e = count_list (targeted_packets_to_send_list u) e +
          (if e \<in> (\<lambda>k. (announcement_addr u, ConnectionNode k)) ` to_announce u (connections u) then 1 else 0))"
      using False u(3) ann(2) ttl map_ok_distinct [of "connections u"]
      by (intro announce_loop_targets) (auto simp: announcing_def)
    moreover have "to_announce u = to_announce s"
      by (simp add: fun_eq_iff to_announce_def ann(1))
    ultimately show ?thesis
      using False u by (auto simp: announceToConnections_def u_def [symmetric] announcing_def)
  qed
qed


definition announce_tracker :: tracker where
  "announce_tracker = sample_tracker\<lparr>timestamp_offset_ms := 1755685600000\<rparr>"

lemma announce_tracker_facts:
  "tracker_ok announce_tracker" "pointers_ok announce_tracker"
  "to_announce announce_tracker (connections announce_tracker) = {64, 65}"
proof -
  show "tracker_ok announce_tracker"
    using sample_tracker_ok by (simp add: announce_tracker_def tracker_ok_def)
  show "pointers_ok announce_tracker"
    by (simp add: pointers_ok_def ptr_handle_def deref_connection_def announce_tracker_def sample_tracker_def)
  have "\<not> announced announce_tracker h" for h
    by (simp add: announced_def sent_handles_def multi_range_def announce_tracker_def sample_tracker_def new_tracker_def)
  then show "to_announce announce_tracker (connections announce_tracker) = {64, 65}"
    by (auto simp: to_announce_def announce_tracker_def sample_tracker_def sample_connection_def available_def
        connection_setters)
qed

theorem announces_once_time_is_known_witness:
  "\<exists>s'. announceToConnections [1, 2, 3, 4, 5, 6] (\<lambda>_. 0) announce_tracker = Inr s' \<and>
     count_list (targeted_packets_to_send_list s') (1, ConnectionNode 64) = 1 \<and>
     count_list (targeted_packets_to_send_list s') (1, ConnectionNode 66) = 0"
proof -
  have "timestamp_offset_ms announce_tracker \<ge> build_time_ms" "announcement_addr announce_tracker = 1"
    "targeted_packets_to_send_list announce_tracker = []"
    by (simp_all add: announce_tracker_def build_time_ms_def sample_tracker_def new_tracker_def)
  then show ?thesis
    using announces_once_time_is_known [OF announce_tracker_facts(1,2), of "[1, 2, 3, 4, 5, 6]" "\<lambda>_. 0"]
    by (auto simp: announce_tracker_facts(3))
qed

section \<open>Where packets get lost\<close>

text \<open>A connection that the notes of a packet at a higher address name is not sendable for the packet.\<close>

lemma later_note_blocks:
  assumes "multi_ok (packets_connections_sent_list s)" and "p \<in> fst ` set (packets_connections_sent_list s)"
    and "(q, cp) \<in> set (packets_connections_sent_list s)" and "p \<le> q"
    and "ptr_handle s cp = Some (connection_handle c)"
  shows "sendable s p c \<noteq> Inr True"
proof
  assume "sendable s p c = Inr True"
  then have "\<forall>y \<in> set (multi_from p (packets_connections_sent_list s)).
      handle_matches s (connection_handle c) y = Inr False"
    by (intro any_of_False) (auto simp: sendable_def)
  moreover have "(q, cp) \<in> set (multi_from p (packets_connections_sent_list s))"
    using assms(1-4) by (simp add: set_multi_from)
  ultimately have "handle_matches s (connection_handle c) (q, cp) = Inr False" by blast
  then show False using assms(5) by (simp add: handle_matches_iff)
qed

text \<open>The notes gain nothing for the pair, while the packet is sent to others.\<close>

definition spared :: "tracker \<Rightarrow> addr \<Rightarrow> u16 \<Rightarrow> tracker \<Rightarrow> bool" where
  "spared s p k t \<longleftrightarrow> same_but_sent s t \<and> tracker_ok t \<and>
     set (packets_connections_sent_list s) \<subseteq> set (packets_connections_sent_list t) \<and>
     ((p, ConnectionNode k) \<in> set (packets_connections_sent_list t) \<longrightarrow>
       (p, ConnectionNode k) \<in> set (packets_connections_sent_list s))"

lemma spared_other:
  assumes "spared s p k t" and "SendPacketToConnection p (ConnectionNode k') t = Inr t1" and "k' \<noteq> k"
  shows "spared s p k (note_sent p (ConnectionNode k') t1)"
proof -
  have t: "same_but_sent s t" "tracker_ok t" "map_ok (connections t)"
    using assms(1) by (auto simp: spared_def tracker_ok_defs)
  note same = SendPacketToConnection_same [OF assms(2) t(3)]
  have "same_but_sent s (note_sent p (ConnectionNode k') t1)"
    using same_but_sent_trans [OF same_but_sent_trans [OF t(1) conjunct1 [OF same]] note_sent_same] .
  moreover have "tracker_ok (note_sent p (ConnectionNode k') t1)"
    using note_sent_keeps_ok SendPacketToConnection_keeps_ok [OF assms(2) t(2)] .
  ultimately show ?thesis
    using assms(1,3) same by (auto simp: spared_def note_sent_def)
qed

lemma broadcast_to_spares:
  assumes "spared s p k t" and "(k', c') \<in> set (connections s)" and "broadcast_to p (k', c') t = Inr t'"
    and "tracker_ok s" and "p \<in> fst ` set (packets_connections_sent_list s)"
    and "(q, ConnectionNode k) \<in> set (packets_connections_sent_list s)" and "p < q"
    and "map_of (connections s) k = Some c" and "connection_handle c = k"
  shows "spared s p k t'"
proof (cases "sendable t p c' = Inr True")
  case False
  then show ?thesis using assms(1,3) by (auto simp: broadcast_to_def split: if_splits)
next
  case True
  have t: "same_but_sent s t" "multi_ok (packets_connections_sent_list t)"
    "set (packets_connections_sent_list s) \<subseteq> set (packets_connections_sent_list t)"
    using assms(1) by (auto simp: spared_def tracker_ok_defs)
  have "ptr_handle t (ConnectionNode k) = Some k"
    using ptr_handle_same [OF t(1)] assms(8,9) by (simp add: ptr_handle_def deref_connection_def)
  moreover have "c' = c" if "k' = k"
    using that assms(2,4,8) map_of_iff_set [of "connections s" k c'] by (simp add: tracker_ok_def connections_ok_def)
  moreover have "p \<in> fst ` set (packets_connections_sent_list t)"
    "(q, ConnectionNode k) \<in> set (packets_connections_sent_list t)"
    using assms(5,6) t(3) by auto
  ultimately have "k' \<noteq> k"
    using later_note_blocks [OF t(2) _ _ less_imp_le [OF assms(7)], of "ConnectionNode k" c'] assms(9) True by auto
  then show ?thesis
    using assms(1,3) True spared_other by (auto simp: broadcast_to_def)
qed

text \<open>
  C35: the broadcast of a packet that is already noted skips every connection that any packet at a higher address was sent to: the
  search for earlier transmissions runs to the end of all notes instead of to the end of the packet's.
\<close>

theorem broadcast_skips_connections_of_later_packets:
  assumes "tracker_ok s" and "p \<in> fst ` set (packets_connections_sent_list s)"
    and "(q, ConnectionNode k) \<in> set (packets_connections_sent_list s)" and "p < q"
    and "map_of (connections s) k = Some c" and "connection_handle c = k"
    and "broadcast_packet p s = Inr s'"
  shows "(p, ConnectionNode k) \<in> set (packets_connections_sent_list s') \<longleftrightarrow>
    (p, ConnectionNode k) \<in> set (packets_connections_sent_list s)"
proof -
  have "spared s p k s"
    using assms(1) by (simp add: spared_def)
  with assms(7) [unfolded broadcast_packet_def] have "spared s p k s'"
    by (rule fold_result_invariant) (use broadcast_to_spares [OF _ _ _ assms(1-6)] in fastforce)
  then show ?thesis by (auto simp: spared_def)
qed

text \<open>A second packet at a higher address came in over connection 65.\<close>

definition two_packets_tracker :: tracker where
  "two_packets_tracker = sample_tracker
     \<lparr>packets := [(7, 5, setPayload [10] (PacketPassAlong_full 5 3 0 0 42 0 [])),
        (8, 6, setPayload [11] (PacketPassAlong_full 5 3 0 0 42 0 []))],
      packets_connections_sent_list := [(5, ConnectionNode 64), (6, ConnectionNode 65)],
      broadcast_packets_to_send_list := []\<rparr>"

lemma two_packets_tracker_ok: "tracker_ok two_packets_tracker"
proof -
  have "peers_ok two_packets_tracker" "messages_ok two_packets_tracker" "packets_ok two_packets_tracker"
    "connections_ok two_packets_tracker"
    by (simp_all add: peers_ok_def messages_ok_def packets_ok_def connections_ok_def live_addresses_def
        two_packets_tracker_def sample_tracker_defs)
  moreover have "queues_ok two_packets_tracker"
    by (simp add: queues_ok_def multi_ok_def set_live_addresses peer_known_def two_packets_tracker_def
        sample_tracker_def sample_peers_def new_tracker_def)
  ultimately show ?thesis by (simp add: tracker_ok_def)
qed

theorem broadcast_skips_connections_of_later_packets_witness:
  "\<exists>s'. broadcast_packet 5 two_packets_tracker = Inr s' \<and>
     (5, ConnectionNode 65) \<notin> set (packets_connections_sent_list s')"
proof -
  have "map_sum id (\<lambda>x. ()) (broadcast_packet 5 two_packets_tracker) = Inr ()"
    by code_simp
  then obtain s' where s': "broadcast_packet 5 two_packets_tracker = Inr s'"
    by (blast dest: map_sum_Inr_D)
  have "5 \<in> fst ` set (packets_connections_sent_list two_packets_tracker)"
    "(6, ConnectionNode 65) \<in> set (packets_connections_sent_list two_packets_tracker)" "(5 :: addr) < 6"
    "map_of (connections two_packets_tracker) 65 = Some (sample_connection 65 HCI_ROLE_MASTER)"
    "connection_handle (sample_connection 65 HCI_ROLE_MASTER) = 65"
    by (simp_all add: two_packets_tracker_def sample_tracker_def sample_connection_def connection_setters)
  from broadcast_skips_connections_of_later_packets [OF two_packets_tracker_ok this s'] s'
  show ?thesis by (simp add: two_packets_tracker_def)
qed

subsection \<open>Pointers to what is gone\<close>

text \<open>Searches that come across a dangling pointer fail, if nothing else can go wrong in them.\<close>

definition only_dangles :: "('a \<Rightarrow> bool result) \<Rightarrow> bool" where
  "only_dangles P \<longleftrightarrow> (\<forall>x e. P x = Inl e \<longrightarrow> e = DanglingPointer)"

lemma any_of_dangling:
  assumes "only_dangles P" and "x \<in> set xs" and "P x = Inl DanglingPointer"
  shows "any_of P xs = Inl DanglingPointer"
  using assms(2)
proof (induction xs)
  case (Cons y ys)
  show ?case
  proof (cases "P y")
    case (Inl e)
    then show ?thesis using assms(1) by (simp add: only_dangles_def)
  next
    case (Inr b)
    then show ?thesis using Cons assms(3) by auto
  qed
qed simp

lemma erase_if_dangling:
  assumes "only_dangles P" and "x \<in> set xs" and "P x = Inl DanglingPointer"
  shows "erase_if P xs = Inl DanglingPointer"
  using assms(2)
proof (induction xs)
  case (Cons y ys)
  show ?case
  proof (cases "P y")
    case (Inl e)
    then show ?thesis using assms(1) by (simp add: only_dangles_def)
  next
    case (Inr b)
    then show ?thesis using Cons assms(3) by auto
  qed
qed simp

lemma deref_failures:
  "deref_packet s p = Inl e \<Longrightarrow> e = DanglingPointer" "deref_connection s cp = Inl e \<Longrightarrow> e = DanglingPointer"
  by (auto simp: deref_packet_def deref_connection_def split: if_splits option.splits connection_ptr.splits)

lemma searches_only_dangle:
  "only_dangles (handle_matches s h)" "only_dangles (packet_connection_stale s now)"
  by (auto simp: only_dangles_def handle_matches_def packet_connection_stale_def bind_result_eq_Inl
      dest: deref_failures split: if_splits)

lemma copied_source_breaks_sending:
  assumes "broadcast_packets_to_send_list s = p # rest" and "targeted_packets_to_send_list s = []"
    and "(p, LocalCopy f) \<in> set (packets_connections_sent_list s)"
    and "multi_ok (packets_connections_sent_list s)" and "(k, c) \<in> set (connections s)" and "available c"
  shows "sendPackets s = Inl DanglingPointer"
proof -
  have "p \<in> fst ` set (packets_connections_sent_list s)"
    using assms(3) by force
  then have noted: "(p, LocalCopy f) \<in> set (multi_from p (packets_connections_sent_list s))"
    using assms(3,4) by (simp add: set_multi_from)
  have "sendable s p x = Inl DanglingPointer" for x
    using any_of_dangling [OF searches_only_dangle(1) noted]
    by (simp add: sendable_def handle_matches_def deref_connection_def)
  moreover obtain y ys where "filter (\<lambda>(k, c). available c) (connections s) = y # ys"
    using assms(5,6) by (cases "filter (\<lambda>(k, c). available c) (connections s)") (auto simp: filter_empty_conv)
  ultimately have "broadcast_packet p s = Inl DanglingPointer"
    by (simp add: broadcast_packet_def broadcast_to_def)
  moreover have "s\<lparr>targeted_packets_to_send_list := []\<rparr> = s"
    using assms(2) by (simp add: assms(2) [symmetric])
  ultimately show ?thesis
    using assms(1,2) by (simp add: sendPackets_def)
qed

text \<open>
  C33: a packet that arrives by notification breaks the next sending: its source is noted as the address
  of a copy of the connection in the callback's frame, which is gone when \<open>sendPackets\<close> follows it.
\<close>

theorem notified_packet_breaks_sending:
  assumes "tracker_ok (connection_tracker r)" and "fresh (new_node t) (connection_tracker r)"
    and "parse_packet (libdeflate pf) 0 data = Inr (Some p)" and "parsed_ttl p \<ge> 1"
    and "type_of_value (parsed_type p) = Some ty" and "ty \<in> set relayed_types" and "ty \<noteq> type_announce"
    and "getPacketHash (hash_function pf) (parsed_pass_along p) \<notin> fst ` set (packets (connection_tracker r))"
    and "broadcast_packets_to_send_list (connection_tracker r) = []"
    and "targeted_packets_to_send_list (connection_tracker r) = []"
    and "(k, c) \<in> set (connections (connection_tracker r))" and "available c"
    and "handle_gatt_client_value_update_event pf t (GATT_EVENT_NOTIFICATION h data) r = Inr r'"
  shows "sendPackets (connection_tracker r') = Inl DanglingPointer"
proof -
  let ?s = "connectionForConnHandle h (connection_tracker r)"
  have s: "broadcast_packets_to_send_list ?s = []" "targeted_packets_to_send_list ?s = []"
    "packets ?s = packets (connection_tracker r)"
    "packets_connections_sent_list ?s = packets_connections_sent_list (connection_tracker r)"
    using assms(9,10) by (simp_all add: connectionForConnHandle_def update_connection_def)
  have conn: "(k, c) \<in> set (connections ?s)"
    using assms(11) by (simp add: connectionForConnHandle_def update_connection_def set_map_put_new)
  have "ty \<noteq> noiseIdentityAnnounce" "ty \<noteq> type_message" "\<not> parsed_ttl p < 1"
    using assms(4,6) by (auto simp: relayed_types_def not_less)
  then have pass: "pass_packet_along (hash_function pf) (new_node t) (LocalCopy (frame t)) p ?s =
      Inr (connection_tracker r')"
    using assms(3,5-7,13)
    by (auto simp: handle_gatt_client_value_update_event_def processWrite_def dispatch_packet_def Let_def)
  have "map_of (packets ?s) (getPacketHash (hash_function pf) (parsed_pass_along p)) = None"
    using assms(8) s(3) by (simp add: map_of_eq_None_iff)
  moreover have "fresh (new_node t) ?s" using assms(2) by simp
  ultimately have "broadcast_packets_to_send_list (connection_tracker r') = [new_node t]"
    "targeted_packets_to_send_list (connection_tracker r') = []" "(k, c) \<in> set (connections (connection_tracker r'))"
    and sent: "packets_connections_sent_list (connection_tracker r') =
      multi_emplace (new_node t) (LocalCopy (frame t)) (packets_connections_sent_list (connection_tracker r))"
    using pass_packet_along_enqueues [OF pass] \<open>\<not> parsed_ttl p < 1\<close> s conn by simp_all
  moreover have "multi_ok (packets_connections_sent_list (connection_tracker r'))"
    using assms(1) by (simp add: sent tracker_ok_def queues_ok_def)
  ultimately show ?thesis
    using assms(12) by (intro copied_source_breaks_sending [of _ "new_node t" "[]" "frame t" k c]) simp_all
qed

subsection \<open>Clean-up\<close>

lemma recent_looks_stale:
  assumes "601000 \<le> packet_timestamp p" and "packet_timestamp p \<le> now"
  shows "message_stale now p"
proof -
  have "unat (packet_timestamp p) \<ge> 601000"
    using assms(1) by (simp add: word_le_nat_alt)
  then have "unat (packet_timestamp p) div 1000 + 600000 < unat (packet_timestamp p)" by linarith
  moreover have "unat (packet_timestamp p) < 2 ^ LENGTH(64)"
    by (rule unsigned_less)
  ultimately have "unat (packet_timestamp p div 1000 + 600000) < unat (packet_timestamp p)"
    by (simp add: unat_word_ariths unat_div)
  moreover have "unat (packet_timestamp p) \<le> unat now"
    using assms(2) by (simp add: word_le_nat_alt)
  ultimately show ?thesis
    by (simp add: message_stale_def getPacketTimestampMs_def ten_minutes_in_ms_def word_less_nat_alt)
qed

lemma recent_not_expired:
  assumes "packet_timestamp p \<le> now" and "now - packet_timestamp p \<le> ten_minutes_in_ms" and "now < 2 ^ 63"
  shows "\<not> packet_timestamp p + ten_minutes_in_ms < now"
proof -
  have "unat (packet_timestamp p) \<le> unat now" "unat now < 2 ^ 63"
    using assms(1,3) by (simp_all add: word_le_nat_alt word_less_nat_alt)
  moreover have "unat now - unat (packet_timestamp p) \<le> 600000"
    using assms(1,2) unat_sub [OF assms(1)] by (simp add: word_le_nat_alt ten_minutes_in_ms_def)
  ultimately have "unat now \<le> unat (packet_timestamp p + 600000)"
    by (simp add: unat_word_ariths)
  then show ?thesis
    by (simp add: ten_minutes_in_ms_def word_less_nat_alt)
qed

lemma packet_node_unique:
  assumes "tracker_ok s" and "(key, a, p) \<in> set (packets s)"
  shows "\<forall>x \<in> set (packets s). fst x = key \<or> fst (snd x) = a \<longrightarrow> x = (key, a, p)"
    and "a \<noteq> announcement_addr s" and "a \<notin> fst ` snd ` set (messages s)"
proof -
  have ok: "map_ok (packets s)" "distinct (live_addresses s)"
    using assms(1) by (simp_all add: tracker_ok_def packets_ok_def)
  have "y = (a, p)" if "(key, y) \<in> set (packets s)" for y
    using map_of_iff_set [OF ok(1)] assms(2) that by (metis option.inject)
  moreover have "x = (key, a, p)" if "x \<in> set (packets s)" "fst (snd x) = a" for x
    using that ok(2) assms(2) by (auto simp: live_addresses_def distinct_map inj_on_def)
  ultimately show "\<forall>x \<in> set (packets s). fst x = key \<or> fst (snd x) = a \<longrightarrow> x = (key, a, p)"
    by (metis prod.collapse)
  have "a \<in> fst ` snd ` set (packets s)"
    using assms(2) by (metis fst_conv image_eqI snd_conv)
  then show "a \<noteq> announcement_addr s" "a \<notin> fst ` snd ` set (messages s)"
    using ok(2) by (simp_all add: live_addresses_def image_image, blast+)
qed

lemma deref_packet_node:
  assumes "tracker_ok s" and "(key, a, p) \<in> set (packets s)"
  shows "deref_packet s a = Inr (PassAlongPacket p)"
proof -
  note unique = packet_node_unique [OF assms]
  have "message_at s a = None"
    using unique(3) by (simp add: message_at_def node_at_None)
  moreover have "pass_along_at s a = Some p"
  proof (cases "node_at (packets s) a")
    case None
    then show ?thesis
      using assms(2) by (auto simp: node_at_None image_iff)
  next
    case (Some q)
    then show ?thesis
      using node_at_Some [OF Some] unique(1) by (auto simp: pass_along_at_def)
  qed
  ultimately show ?thesis
    using unique(2) by (simp add: deref_packet_def)
qed

lemma cleanup_frees:
  assumes "tracker_ok s" and "(key, a, p) \<in> set (packets s)" and "message_stale (getTimeMs us s) p"
    and "cleanupStaleItems us s = Inr s'"
  shows "key \<notin> fst ` set (packets s')" and "deref_packet s' a = Inl DanglingPointer"
proof -
  let ?now = "getTimeMs us s"
  note unique = packet_node_unique [OF assms(1,2)]
  have s': "packets s' = map_erase_if (\<lambda>k (a, p). message_stale ?now p) (packets s)"
    "messages s' = map_erase_if (\<lambda>k (a, m). message_stale ?now m) (messages s)"
    "announcement_addr s' = announcement_addr s"
    using assms(4) by (auto simp: cleanupStaleItems_def Let_def)
  show "key \<notin> fst ` set (packets s')"
    using unique(1) assms(3) by (auto simp: s'(1))
  have "a \<notin> set (live_addresses s')"
    using unique assms(3) by (auto simp: set_live_addresses s')
  then show "deref_packet s' a = Inl DanglingPointer"
    using deref_live [of s' a] deref_failures(1) [of s' a] by (cases "deref_packet s' a") auto
qed

text \<open>
  C34: clean-up forgets every packet with a real time stamp, however recent, because the accessor divides
  milliseconds by 1000; so a copy that comes round again is taken for new. The notes of such a packet,
  which are judged by the undivided time, stay behind and point to the freed node: any later clean-up
  follows them.
\<close>

theorem cleanup_leaves_dangling_notes:
  assumes "tracker_ok s" and "(key, a, p) \<in> set (packets s)"
    and "601000 \<le> packet_timestamp p" and "packet_timestamp p \<le> getTimeMs us s"
    and "getTimeMs us s - packet_timestamp p \<le> ten_minutes_in_ms" and "getTimeMs us s < 2 ^ 63"
    and "(a, cp) \<in> set (packets_connections_sent_list s)" and "deref_connection s cp = Inr c" and "connected c"
    and "cleanupStaleItems us s = Inr s'"
  shows "key \<notin> fst ` set (packets s') \<and> (a, cp) \<in> set (packets_connections_sent_list s') \<and>
    cleanupStaleItems later s' = Inl DanglingPointer"
proof -
  let ?now = "getTimeMs us s"
  note freed = cleanup_frees [OF assms(1,2) recent_looks_stale [OF assms(3,4)] assms(10)]
  obtain sent where sent: "erase_if (packet_connection_stale s ?now) (packets_connections_sent_list s) = Inr sent"
    and s': "packets_connections_sent_list s' = sent"
    using assms(10) by (auto simp: cleanupStaleItems_def Let_def)
  have "packet_connection_stale s ?now (a, cp) = Inr False"
    using deref_packet_node [OF assms(1,2)] recent_not_expired [OF assms(4-6)] assms(8,9)
    by (simp add: packet_connection_stale_def connection_stale_def)
  then have kept: "(a, cp) \<in> set (packets_connections_sent_list s')"
    using erase_if_Inr [OF sent] assms(7) by (simp add: s')
  have "packet_connection_stale s' now (a, cp) = Inl DanglingPointer" for now
    by (simp add: packet_connection_stale_def freed(2))
  then have "cleanupStaleItems later s' = Inl DanglingPointer"
    using erase_if_dangling [OF searches_only_dangle(2) kept] by (simp add: cleanupStaleItems_def Let_def)
  then show ?thesis using freed(1) kept by blast
qed

text \<open>The sample packet with a time stamp of 2025, a minute ago.\<close>

definition dated_tracker :: tracker where
  "dated_tracker = sample_tracker
     \<lparr>packets := [(7, 5, setPayload [10] (PacketPassAlong_full 5 3 1755685600000 0 42 0 []))],
      timestamp_offset_ms := 1755685660000\<rparr>"

lemma dated_tracker_ok: "tracker_ok dated_tracker"
proof -
  have "relayable dated_tracker 5"
    by (simp add: relayable_def dated_tracker_def sample_tracker_defs deref_packet_def message_at_def
        pass_along_at_def node_at_def)
  then have "queues_ok dated_tracker"
    by (simp add: queues_ok_def multi_ok_def set_live_addresses peer_known_def dated_tracker_def
        sample_tracker_def sample_peers_def new_tracker_def)
  moreover have "peers_ok dated_tracker" "messages_ok dated_tracker" "packets_ok dated_tracker"
    "connections_ok dated_tracker"
    by (simp_all add: peers_ok_def messages_ok_def packets_ok_def connections_ok_def live_addresses_def
        dated_tracker_def sample_tracker_defs)
  ultimately show ?thesis by (simp add: tracker_ok_def)
qed

theorem cleanup_leaves_dangling_notes_witness:
  "\<exists>s'. cleanupStaleItems 0 dated_tracker = Inr s' \<and> 7 \<notin> fst ` set (packets s') \<and>
     cleanupStaleItems 1 s' = Inl DanglingPointer"
proof -
  have "map_sum id (\<lambda>x. ()) (cleanupStaleItems 0 dated_tracker) = Inr ()"
    by code_simp
  then obtain s' where s': "cleanupStaleItems 0 dated_tracker = Inr s'"
    by (blast dest: map_sum_Inr_D)
  let ?p = "setPayload [10] (PacketPassAlong_full 5 3 1755685600000 0 42 0 [])"
  have "(7, 5, ?p) \<in> set (packets dated_tracker)"
    "(5, ConnectionNode 64) \<in> set (packets_connections_sent_list dated_tracker)"
    "deref_connection dated_tracker (ConnectionNode 64) = Inr (sample_connection 64 HCI_ROLE_SLAVE)"
    "connected (sample_connection 64 HCI_ROLE_SLAVE)" "packet_timestamp ?p = 1755685600000"
    "getTimeMs 0 dated_tracker = 1755685660000"
    by (simp_all add: dated_tracker_def sample_tracker_def new_packet_defs packet_setters getTimeMs_def
        deref_connection_def sample_connection_def connection_setters)
  then show ?thesis
    using cleanup_leaves_dangling_notes [OF dated_tracker_ok _ _ _ _ _ _ _ _ s', of 7 5 ?p "ConnectionNode 64"
        "sample_connection 64 HCI_ROLE_SLAVE" 1] s' by (simp add: ten_minutes_in_ms_def)
qed

theorem notified_packet_breaks_sending_witness:
  "\<exists>r'. handle_gatt_client_value_update_event sample_platform \<lparr>now_us = 0, new_node = 8, frame = 9\<rparr>
      (GATT_EVENT_NOTIFICATION 65 (sample_buffer 5 3)) ((initial_repeater 1)
        \<lparr>connection_tracker := sample_tracker\<lparr>broadcast_packets_to_send_list := []\<rparr>\<rparr>) = Inr r' \<and>
    sendPackets (connection_tracker r') = Inl DanglingPointer"
proof -
  let ?s = "sample_tracker\<lparr>broadcast_packets_to_send_list := []\<rparr>"
  let ?r = "(initial_repeater 1)\<lparr>connection_tracker := ?s\<rparr>"
  let ?t = "\<lparr>now_us = 0, new_node = 8, frame = 9\<rparr>"
  have "map_sum id (\<lambda>x. ()) (handle_gatt_client_value_update_event sample_platform ?t
      (GATT_EVENT_NOTIFICATION 65 (sample_buffer 5 3)) ?r) = Inr ()"
    by code_simp
  then obtain r' where r': "handle_gatt_client_value_update_event sample_platform ?t
      (GATT_EVENT_NOTIFICATION 65 (sample_buffer 5 3)) ?r = Inr r'"
    by (blast dest: map_sum_Inr_D)
  have "tracker_ok ?s"
    using shorter_queues_keep_ok sample_tracker_ok by (simp add: tracker_ok_def queues_ok_def frame_defs)
  moreover have "fresh 8 ?s" "parse_packet (libdeflate sample_platform) 0 (sample_buffer 5 3) = Inr (Some sample_packet)"
    "type_of_value (parsed_type sample_packet) = Some type_fragment_start" "parsed_ttl sample_packet \<ge> 1"
    "type_fragment_start \<in> set relayed_types"
    "getPacketHash (hash_function sample_platform) (parsed_pass_along sample_packet) \<notin> fst ` set (packets ?s)"
    by code_simp+
  moreover have "(64, sample_connection 64 HCI_ROLE_SLAVE) \<in> set (connections ?s)"
    "available (sample_connection 64 HCI_ROLE_SLAVE)"
    "targeted_packets_to_send_list ?s = []"
    by (simp_all add: sample_tracker_def new_tracker_def sample_connection_def available_def connection_setters)
  ultimately show ?thesis
    using notified_packet_breaks_sending [of ?r ?t sample_platform "sample_buffer 5 3" sample_packet
        type_fragment_start 64 "sample_connection 64 HCI_ROLE_SLAVE" 65 r'] r' by auto
qed

section \<open>The life check\<close>

text \<open>
  C21: a pulled life check pin makes the repeater broadcast one message of its own: it is stored under
  its id with seven hops to live, sent in the repeater's name with the current time, queued for
  everybody, and the request is cleared. If a message with the same id (the same millisecond of the
  32 bit clock) is still known, nothing is queued.
\<close>

theorem life_check_broadcasts_message:
  assumes "life_check r" and "fresh (new_node t) (connection_tracker r)"
  shows "\<exists>r'. handlePinActivity local_addr t r = Inr r' \<and> \<not> life_check r' \<and>
    (let s = connection_tracker r; s' = connection_tracker r';
         m = alive_message local_addr (getTimeMs (now_us t) s)
     in if message_id m \<in> fst ` set (messages s) then s' = s
        else messageWithId (message_id m) s' = Some m \<and>
          deref_packet s' (new_node t) = Inr (MessagePacket m) \<and> packet_ttl m = 7 \<and>
          packet_sender_id m = address_as_sender local_addr \<and>
          sender_nickname m = repeater_name local_addr \<and>
          broadcast_packets_to_send_list s' = broadcast_packets_to_send_list s @ [new_node t])"
proof -
  define m where "m = alive_message local_addr (getTimeMs (now_us t) (connection_tracker r))"
  have m: "packet_ttl m = 7" "packet_sender_id m = address_as_sender local_addr"
    "sender_nickname m = repeater_name local_addr"
    by (simp_all add: m_def alive_message_def Let_def message_setters new_packet_defs)
  show ?thesis
  proof (cases "map_of (messages (connection_tracker r)) (message_id m)")
    case (Some x)
    then have "message_id m \<in> fst ` set (messages (connection_tracker r))"
      by (force dest: map_of_SomeD)
    then show ?thesis
      using assms(1) Some
      by (simp add: handlePinActivity_def m_def [symmetric] storeMessageAndReturnIfNew_def)
  next
    case None
    let ?s = "(connection_tracker r)\<lparr>messages := map_put (message_id m) (new_node t, m) (messages (connection_tracker r))\<rparr>"
    have "deref_packet ?s (new_node t) = Inr (MessagePacket m)"
      using deref_stored_message [OF None assms(2), of m] by simp
    moreover have "message_id m \<notin> fst ` set (messages (connection_tracker r))"
      using None by (simp add: map_of_eq_None_iff)
    ultimately show ?thesis
      using assms(1) None m
      by (simp add: handlePinActivity_def m_def [symmetric] storeMessageAndReturnIfNew_def try_tracker_def
          enqueueBroadcastPacket_def messageWithId_def active_def)
  qed
qed

theorem life_check_broadcasts_message_witness:
  "\<exists>r'. handlePinActivity [1, 2, 3, 4, 5, 6] \<lparr>now_us = 0, new_node = 8, frame = 9\<rparr>
      (gpio_callback LIFE_CHECK_PIN True (initial_repeater 1)) = Inr r' \<and>
    broadcast_packets_to_send_list (connection_tracker r') = [8]"
proof -
  let ?r = "gpio_callback LIFE_CHECK_PIN True (initial_repeater 1)"
  have "life_check ?r" "connection_tracker ?r = new_tracker 1"
    by (simp_all add: gpio_callback_def Let_def LIFE_CHECK_PIN_def EXIT_GPIO_PIN_def)
      (simp add: initial_repeater_def active_def)
  then show ?thesis
    using life_check_broadcasts_message [of ?r "\<lparr>now_us = 0, new_node = 8, frame = 9\<rparr>" "[1, 2, 3, 4, 5, 6]"]
    by (auto simp: live_addresses_def new_tracker_def Let_def)
qed

end
