(* ===== verification/Writing.thy ===== *)
theory Writing
  imports Receive
begin

text \<open>
  Which packets a repeater can write. Two things can go wrong: a message says that it has a sender peer and
  has none, and an announcement that is passed along is kept as a \<open>PacketPassAlong\<close> and cast to an \<open>Announce\<close>.
  The parser lets both in, and the next sending then fails. All other casts of \<open>ProtocolWriter.cpp\<close> meet the
  class they name, and no pointer to a peer dangles.
\<close>

section \<open>The failures of writing\<close>


lemma deref_packet_class:
  assumes "tracker_ok s" and "deref_packet s p = Inr pk"
  shows "(\<exists>m. pk = MessagePacket m \<and> packet_type m = type_value type_message \<and>
      (\<forall>k \<in> set_option (sender_peer m). peer_known s k)) \<or>
    (\<exists>a. pk = AnnouncePacket a \<and> packet_type a = type_value type_announce) \<or>
    (\<exists>q. pk = PassAlongPacket q \<and> packet_type q \<noteq> type_value type_message)"
proof -
  consider "pk = AnnouncePacket (announcement s)"
    | m where "message_at s p = Some m" "pk = MessagePacket m"
    | q where "pass_along_at s p = Some q" "pk = PassAlongPacket q"
    using assms(2) by (auto simp: deref_packet_def split: if_splits option.splits)
  then show ?thesis
  proof cases
    case 1
    then show ?thesis using assms(1) by (simp add: tracker_ok_defs)
  next
    case 2
    then show ?thesis
      using assms(1) node_at_Some [of "messages s" p m] by (fastforce simp: tracker_ok_defs message_at_def)
  next
    case 3
    then show ?thesis
      using assms(1) node_at_Some [of "packets s" p q] by (fastforce simp: tracker_ok_defs pass_along_at_def)
  qed
qed

lemma writeMessagePayload_failure:
  "writeMessagePayload ps m v = Inl e \<longleftrightarrow> hasSenderPeerID m \<and> sender_peer_id ps m = Inl e"
  by (auto simp: writeMessagePayload_def Let_def bind_result_eq_Inl)

lemma sender_peer_id_failure:
  assumes "\<forall>k \<in> set_option (sender_peer m). map_of ps k \<noteq> None"
  shows "sender_peer_id ps m = Inl e \<longleftrightarrow> e = NullDereference \<and> sender_peer m = None"
  using assms by (auto simp: sender_peer_id_def split: option.splits)

lemma writePacket_failure: "writePacket ps pk v = Inl e \<longleftrightarrow> packet_payload ps pk = Inl e"
  by (simp add: writePacket_bytes bind_result_eq_Inl)

section \<open>Packets that cannot be written\<close>

lemma fold_result_fails:
  assumes "\<forall>x \<in> set xs. f x s = Inr s \<or> f x s = Inl e" and "\<exists>x \<in> set xs. f x s = Inl e"
  shows "fold_result f xs s = Inl e"
  using assms by (induction xs) fastforce+

lemma broadcast_unwritable:
  assumes "tracker_ok s" and "pointers_ok s" and "deref_packet s p = Inr pk"
    and "writePacket (peers s) pk [] = Inl e" and "(k, c) \<in> recipients s p"
  shows "broadcast_packet p s = Inl e"
  unfolding broadcast_packet_def
proof (rule fold_result_fails)
  have sent: "multi_ok (packets_connections_sent_list s)" using assms(1) by (simp add: tracker_ok_defs)
  have send: "SendPacketToConnection p cp s = Inl e" for cp
    using assms(3,4) by (simp add: SendPacketToConnection_def)
  then show "\<forall>kc \<in> set (filter (\<lambda>(k, c). available c) (connections s)).
      broadcast_to p kc s = Inr s \<or> broadcast_to p kc s = Inl e"
    using sendable_total [OF assms(2) sent] by (auto simp: broadcast_to_def)
  have c: "(k, c) \<in> set (connections s)" "available c" "Some k \<notin> scanned s p"
    using assms(5) by (simp_all add: recipients_def)
  then have "sendable s p c = Inr True"
    using sendable_total [OF assms(2) sent, of p c] up_handle(1) [OF assms(1) c(1,2)] by simp
  then have "broadcast_to p (k, c) s = Inl e" using send by (simp add: broadcast_to_def)
  then show "\<exists>kc \<in> set (filter (\<lambda>(k, c). available c) (connections s)). broadcast_to p kc s = Inl e"
    using c by force
qed

text \<open>
  The only queued packet cannot be written: the next sending fails if there is a connection that is ready,
  is not where the packet came from, and was sent nothing that is noted at a higher address.
\<close>

lemma unwritable_breaks_sending:
  assumes "tracker_ok s1" and "pointers_ok s" and "connections s1 = connections s"
    and "broadcast_packets_to_send_list s1 = [a]" and "targeted_packets_to_send_list s1 = []"
    and "packets_connections_sent_list s1 = multi_emplace a cp (packets_connections_sent_list s)"
    and "deref_packet s1 a = Inr pk" and "writePacket (peers s1) pk [] = Inl e"
    and "ptr_handle s cp = Some h" and "(k, c) \<in> set (connections s)" and "available c" and "k \<noteq> h"
    and "\<forall>(q, cp') \<in> set (packets_connections_sent_list s). ptr_handle s cp' = Some k \<longrightarrow> q < a"
  shows "sendPackets s1 = Inl e"
proof -
  have ptr: "ptr_handle s1 = ptr_handle s" by (rule ptr_handle_cong [OF assms(3)])
  have pointers: "pointers_ok s1" using assms(2,9) by (auto simp: pointers_ok_def ptr assms(6))
  have "Some k \<notin> scanned s1 a"
    using assms(1,9,12,13) by (fastforce simp: scanned_def ptr assms(6) set_multi_from tracker_ok_defs dest: leD)
  then have "(k, c) \<in> recipients s1 a"
    using assms(3,10,11) by (simp add: recipients_def)
  then have "broadcast_packet a s1 = Inl e"
    using broadcast_unwritable [OF assms(1) pointers assms(7,8)] by blast
  moreover have "s1\<lparr>targeted_packets_to_send_list := []\<rparr> = s1" using assms(5) by (cases s1) simp
  ultimately show ?thesis using assms(4,5) by (auto simp: sendPackets_def)
qed

section \<open>A message without its sender peer\<close>

lemma receive_new_message:
  assumes "fresh a s" and "broadcast_packets_to_send_list s = []"
    and "parse_packet zlib offset buffer = Inr (Some p)" and "parsed_type p = type_value type_message"
    and "0 < parsed_ttl p"
    and "processMessage (parsed_message p) (parsed_payload p) (checkSenderInPeers (parsed_sender p) s) = (True, m, s2)"
    and "message_id m \<notin> fst ` set (messages s)"
  shows "\<exists>s1. processWrite zlib std_hash now a cp h offset buffer s = Inr s1 \<and>
    deref_packet s1 a = Inr (MessagePacket m) \<and> broadcast_packets_to_send_list s1 = [a] \<and>
    targeted_packets_to_send_list s1 = targeted_packets_to_send_list s \<and> connections s1 = connections s \<and>
    packets_connections_sent_list s1 = multi_emplace a cp (packets_connections_sent_list s)"
proof -
  have s2: "s2 = (checkSenderInPeers (parsed_sender p) s)\<lparr>peers := peers s2\<rparr>"
    and base: "packet_base.truncate m = packet_base.truncate (parsed_message p)"
    using processMessage_frame [OF assms(6)] by simp_all
  have frames: "messages s2 = messages s" "live_addresses s2 = live_addresses s"
    "broadcast_packets_to_send_list s2 = []" "connections s2 = connections s"
    "targeted_packets_to_send_list s2 = targeted_packets_to_send_list s"
    "packets_connections_sent_list s2 = packets_connections_sent_list s"
    by (subst s2, simp add: assms(2) checkSenderInPeers_def)+
  let ?s3 = "s2\<lparr>messages := map_put (message_id m) (a, m) (messages s2)\<rparr>"
  have new: "map_of (messages s2) (message_id m) = None"
    using assms(7) frames(1) by (simp add: map_of_eq_None_iff)
  have type: "type_of_value (parsed_type p) = Some type_message"
    unfolding assms(4) by (rule type_of_type_value)
  have "processWrite zlib std_hash now a cp h offset buffer s =
      enqueueBroadcastPacketFrom a cp (parsed_sender p) ?s3"
    using assms(3,6) new type
    by (simp add: processWrite_def dispatch_packet_def receive_message_def storeMessageAndReturnIfNew_def)
  moreover have "deref_packet ?s3 = (deref_packet s2)(a := Inr (MessagePacket m))"
    using deref_stored_message [OF new, of a] assms(1) frames(2) by simp
  moreover have "packet_ttl m = parsed_ttl p"
    using base by (simp add: packet_base.defs parsed_message_def new_packet_defs)
  ultimately show ?thesis
    using assms(5) frames by (simp add: enqueueBroadcastPacketFrom_def enqueueBroadcastPacket_def)
qed

text \<open>A sender peer id of another length than 16 is skipped.\<close>

lemma parses_odd_peer:
  assumes "length d \<le> 255" and "length d \<noteq> 16"
  shows "parses parse_sender_peer (short_string d) m s m s"
proof (rule parsesI)
  fix r bs assume "reads_from r (short_string d @ bs)"
  then have b: "reads_from r ([of_nat (length d)] @ d @ bs)"
    using assms(1) by (simp add: short_string_def)
  have n: "unat (of_nat (length d) :: u8) = length d"
    using assms(1) by (simp add: unat_of_nat)
  have "of_nat (length d) \<noteq> (16 :: u8)"
  proof
    assume "of_nat (length d) = (16 :: u8)"
    then have "unat (of_nat (length d) :: u8) = 16" by simp
    with n assms(2) show False by simp
  qed
  then show "parse_sender_peer \<lparr>mp_reader = r, mp_message = m, mp_tracker = s\<rparr> =
      (True, \<lparr>mp_reader = advance (length (short_string d)) r, mp_message = m, mp_tracker = s\<rparr>)"
    using reads_from_uint8 [of r] b assms(1) reads_from_read_data [OF reads_from_advance [OF b] refl]
    by (simp add: parse_sender_peer_def n advance_advance short_string_def Let_def)
qed

text \<open>The fields of one message under the header of another.\<close>

definition with_header :: "packet_base \<Rightarrow> message \<Rightarrow> message" where
  "with_header b m = packet_base.extend b (packet_base.more m)"

lemma with_header_simps [simp]:
  "packet_base.truncate (with_header b m) = packet_base.truncate b" "fields_wf (with_header b m) = fields_wf m"
  "message_fields (with_header b m) = message_fields m" "message_tail (with_header b m) = message_tail m"
  "hasSenderPeerID (with_header b m) = hasSenderPeerID m" "message_id (with_header b m) = message_id m"
  by (cases b; cases m; simp add: with_header_def packet_base.defs fields_wf_def message_fields_def
      message_tail_def message_flag_defs)+

lemma odd_peer_id_accepted:
  assumes "fields_wf m" and "hasSenderPeerID m" and "length d \<le> 255" and "length d \<noteq> 16"
    and "parsed_payload p = message_fields m @ short_string d @ message_tail m"
  shows "\<exists>m'. processMessage (parsed_message p) (parsed_payload p) s = (True, m', s) \<and>
    hasSenderPeerID m' \<and> sender_peer m' = None \<and> message_id m' = message_id m"
proof -
  let ?m = "with_header (packet_base.truncate (parsed_message p)) m"
  have base: "parsed_message p = message_over (packet_base.truncate ?m)"
    by (simp add: parsed_message_def new_packet_defs with_header_def)
  have "parses (parse_when hasSenderPeerID parse_sender_peer) (short_string d) x s (x\<lparr>sender_peer := None\<rparr>) s"
    if "hasSenderPeerID x" "sender_peer x = None" for x
  proof -
    have "x\<lparr>sender_peer := None\<rparr> = x" using that(2) by (cases x) simp
    then show ?thesis
      using that(1) parses_odd_peer [OF assms(3,4), of x s] by (simp add: parses_def parse_when_def)
  qed
  then have "parses message_parser (message_fields ?m @ short_string d @ message_tail ?m)
      (message_over (packet_base.truncate ?m)) s (reread ?m None) s"
    using assms(1,2) by (intro message_parser_reads) auto
  moreover have "13 \<le> length (parsed_payload p)"
    by (simp add: assms(5) message_fields_def short_string_def long_string_def)
  ultimately have "processMessage (parsed_message p) (parsed_payload p) s = (True, reread ?m None, s)"
    using assms(5) by (subst base, intro processMessage_parses) simp_all
  moreover have "hasSenderPeerID (reread ?m None)" "sender_peer (reread ?m None) = None"
      "message_id (reread ?m None) = message_id m"
    using assms(2) with_header_simps(5,6) by (simp_all add: reread_def hasSenderPeerID_def)
  ultimately show ?thesis by blast
qed

section \<open>An announcement that is passed along\<close>

lemma receive_announce_queues:
  assumes "receive_announce now h p s = Inr s'"
  shows "announcement_addr s' = announcement_addr s \<and> connections s' = connections s \<and>
    targeted_packets_to_send_list s' = targeted_packets_to_send_list s \<and>
    packets_connections_sent_list s' = packets_connections_sent_list s"
  using assms
  by (auto simp: receive_announce_def possiblyUpdateTimeOffset_def updateOrStorePeerName_def Let_def
      setConnectionHandleForPeer_def checkSenderInPeers_def update_peer_def split: if_splits option.splits)

lemma receive_new_announcement:
  assumes "fresh a s" and "broadcast_packets_to_send_list s = []"
    and "parse_packet zlib offset buffer = Inr (Some p)" and "parsed_type p = type_value type_announce"
    and "0 < parsed_ttl p" and "\<bar>sint (parsed_timestamp p) - sint (getTimeMs now s)\<bar> < 2 ^ 63"
    and "getPacketHash std_hash (parsed_pass_along p) \<notin> fst ` set (packets s)"
  shows "\<exists>s1. processWrite zlib std_hash now a cp h offset buffer s = Inr s1 \<and>
    deref_packet s1 a = Inr (PassAlongPacket (parsed_pass_along p)) \<and> broadcast_packets_to_send_list s1 = [a] \<and>
    targeted_packets_to_send_list s1 = targeted_packets_to_send_list s \<and> connections s1 = connections s \<and>
    packets_connections_sent_list s1 = multi_emplace a cp (packets_connections_sent_list s)"
proof -
  obtain t where t: "receive_announce now h p s = Inr t"
    using assms(6) receive_announce_failure [of now h p s] by (cases "receive_announce now h p s") auto
  obtain s1 where pass: "pass_packet_along std_hash a cp p t = Inr s1"
    using pass_packet_along_total by (cases "pass_packet_along std_hash a cp p t") auto
  have "processWrite zlib std_hash now a cp h offset buffer s = Inr s1"
    using assms(3,4) t pass type_of_type_value [of type_announce] by (simp add: processWrite_def dispatch_packet_def)
  moreover have "\<not> parsed_ttl p < 1" "map_of (packets t) (getPacketHash std_hash (parsed_pass_along p)) = None"
    "fresh a t"
    using assms(1,5,7) receive_announce_frames [OF t] receive_announce_queues [OF t]
    by (auto simp: map_of_eq_None_iff word_less_1 live_addresses_def)
  ultimately show ?thesis
    using pass_packet_along_enqueues [OF pass] receive_announce_frames [OF t] receive_announce_queues [OF t] assms(2)
    by auto
qed

section \<open>Properties\<close>

text \<open>
  C11: in a consistent tracker writing a packet goes wrong in exactly two ways: it follows the null sender peer
  of a message whose flags say that there is one, or it casts a passed along announcement to the class
  \<open>Announce\<close>, which it does not have. All other packets are of the class that the writer casts them to.
\<close>

theorem writing_type_errors:
  assumes "tracker_ok s" and "deref_packet s p = Inr pk"
  shows "writePacket (peers s) pk [] = Inl e \<longleftrightarrow>
    e = NullDereference \<and> (\<exists>m. pk = MessagePacket m \<and> hasSenderPeerID m \<and> sender_peer m = None) \<or>
    e = BadCast \<and> (\<exists>q. pk = PassAlongPacket q \<and> packet_type q = type_value type_announce)"
  using deref_packet_class [OF assms]
proof (elim disjE exE conjE)
  fix m assume m: "pk = MessagePacket m" "packet_type m = type_value type_message"
    "\<forall>k \<in> set_option (sender_peer m). peer_known s k"
  then have "\<forall>k \<in> set_option (sender_peer m). map_of (peers s) k \<noteq> None" by (simp add: peer_known_def)
  from sender_peer_id_failure [OF this] m show ?thesis
    by (auto simp: writePacket_failure packet_payload_def writeMessagePayload_failure)
qed (auto simp: writePacket_failure packet_payload_def)

text \<open>
  C29: a new announcement with hops left, received while nothing else is queued, is passed along as an object
  of the class \<open>PacketPassAlong\<close> with the type of an announcement; the next sending to a ready connection,
  other than the one it came from and with no notes at higher addresses, uses it as an \<open>Announce\<close>.
\<close>

theorem relayed_announcement_breaks_sending:
  assumes "tracker_ok s" and "pointers_ok s" and "fresh a s"
    and "broadcast_packets_to_send_list s = []" and "targeted_packets_to_send_list s = []"
    and "parse_packet zlib offset buffer = Inr (Some p)" and "parsed_type p = type_value type_announce"
    and "0 < parsed_ttl p" and "\<bar>sint (parsed_timestamp p) - sint (getTimeMs now s)\<bar> < 2 ^ 63"
    and "getPacketHash std_hash (parsed_pass_along p) \<notin> fst ` set (packets s)"
    and "ptr_handle s cp = Some h" and "(k, c) \<in> set (connections s)" and "available c" and "k \<noteq> h"
    and "\<forall>(q, cp') \<in> set (packets_connections_sent_list s). ptr_handle s cp' = Some k \<longrightarrow> q < a"
  shows "\<exists>s1. processWrite zlib std_hash now a cp h offset buffer s = Inr s1 \<and> sendPackets s1 = Inl BadCast"
proof -
  obtain s1 where s1: "processWrite zlib std_hash now a cp h offset buffer s = Inr s1"
    "deref_packet s1 a = Inr (PassAlongPacket (parsed_pass_along p))" "broadcast_packets_to_send_list s1 = [a]"
    "targeted_packets_to_send_list s1 = []" "connections s1 = connections s"
    "packets_connections_sent_list s1 = multi_emplace a cp (packets_connections_sent_list s)"
    using receive_new_announcement [OF assms(3,4,6-10)] assms(5) by metis
  have ok: "tracker_ok s1" by (rule processWrite_keeps_ok [OF assms(1,3) s1(1)])
  have "writePacket (peers s1) (PassAlongPacket (parsed_pass_along p)) [] = Inl BadCast"
    using assms(7) by (simp add: writePacket_failure packet_payload_def parsed_pass_along_def new_packet_defs
        packet_setters)
  with unwritable_breaks_sending [OF ok assms(2) s1(5,3,4,6,2) _ assms(11-15)] s1(1) show ?thesis by blast
qed

text \<open>
  C30: a message whose flags announce a sender peer id and whose id field has another length than 16 is
  accepted and queued without a sender peer, and the next sending follows the null pointer. As above, nothing
  else is queued, and there is a ready connection other than the one the message came from, with no notes at
  higher addresses.
\<close>

theorem short_peer_id_breaks_sending:
  assumes "tracker_ok s" and "pointers_ok s" and "fresh a s"
    and "broadcast_packets_to_send_list s = []" and "targeted_packets_to_send_list s = []"
    and "parse_packet zlib offset buffer = Inr (Some p)" and "parsed_type p = type_value type_message"
    and "0 < parsed_ttl p"
    and "parsed_payload p = message_fields m @ short_string d @ message_tail m" and "fields_wf m"
    and "hasSenderPeerID m" and "length d \<le> 255" and "length d \<noteq> 16"
    and "message_id m \<notin> fst ` set (messages s)"
    and "ptr_handle s cp = Some h" and "(k, c) \<in> set (connections s)" and "available c" and "k \<noteq> h"
    and "\<forall>(q, cp') \<in> set (packets_connections_sent_list s). ptr_handle s cp' = Some k \<longrightarrow> q < a"
  shows "\<exists>s1. processWrite zlib std_hash now a cp h offset buffer s = Inr s1 \<and> sendPackets s1 = Inl NullDereference"
proof -
  obtain m' where m': "processMessage (parsed_message p) (parsed_payload p) (checkSenderInPeers (parsed_sender p) s) =
      (True, m', checkSenderInPeers (parsed_sender p) s)"
    "hasSenderPeerID m'" "sender_peer m' = None" "message_id m' \<notin> fst ` set (messages s)"
    using odd_peer_id_accepted [OF assms(10-13,9)] assms(14) by metis
  obtain s1 where s1: "processWrite zlib std_hash now a cp h offset buffer s = Inr s1"
    "deref_packet s1 a = Inr (MessagePacket m')" "broadcast_packets_to_send_list s1 = [a]"
    "targeted_packets_to_send_list s1 = []" "connections s1 = connections s"
    "packets_connections_sent_list s1 = multi_emplace a cp (packets_connections_sent_list s)"
    using receive_new_message [OF assms(3,4,6-8) m'(1,4)] assms(5) by metis
  have ok: "tracker_ok s1" by (rule processWrite_keeps_ok [OF assms(1,3) s1(1)])
  have "packet_type m' = type_value type_message"
    using deref_packet_class [OF ok s1(2)] by auto
  then have "writePacket (peers s1) (MessagePacket m') [] = Inl NullDereference"
    using m'(2,3)
    by (simp add: writePacket_failure packet_payload_def writeMessagePayload_failure sender_peer_id_def)
  with unwritable_breaks_sending [OF ok assms(2) s1(5,3,4,6,2) _ assms(15-19)] s1(1) show ?thesis by blast
qed

text \<open>A message as above with the sender peer flag and a sender peer id of one byte.\<close>

definition short_peer_id_payload :: bytes where
  "short_peer_id_payload = [0x10, 0, 0, 0, 0, 0, 0, 0, 5, 1, 9, 1, 8, 0, 1, 7, 1, 0x41]"

definition short_peer_id_buffer :: bytes where
  "short_peer_id_buffer =
     [1, 4, 3, 0, 0, 0, 0, 0, 0, 0, 9, 0, 0, 18, 0, 0, 0, 0, 0, 0, 0, 42] @ short_peer_id_payload @ [0]"

definition short_peer_id_packet :: parsed_packet where
  "short_peer_id_packet =
     \<lparr>parsed_type = 4, parsed_ttl = 3, parsed_timestamp = 9, parsed_flags = 0, parsed_sender = 42,
      parsed_recipient = 0, parsed_payload = short_peer_id_payload, parsed_signature = []\<rparr>"

lemma short_peer_id_parses:
  "parse_packet no_zlib 0 short_peer_id_buffer = Inr (Some short_peer_id_packet)"
  by code_simp

text \<open>Its fields: the id \<open>[9]\<close>, the nickname \<open>[8]\<close>, the content \<open>[7]\<close> and a sender peer id \<open>[0x41]\<close>.\<close>

definition short_peer_id_fields :: message where
  "short_peer_id_fields =
     setMessageFlags 0x10 (setMessageTimestamp 5 (setMessageId [9] (setSenderNickname [8] (setContent [7]
       new_Message))))"

definition quiet_tracker :: tracker where
  "quiet_tracker = (new_tracker 1)\<lparr>connections :=
     [(64, sample_connection 64 HCI_ROLE_SLAVE), (65, sample_connection 65 HCI_ROLE_MASTER)]\<rparr>"

lemma quiet_tracker_simps:
  "tracker_ok quiet_tracker" "pointers_ok quiet_tracker" "fresh 5 quiet_tracker"
  "broadcast_packets_to_send_list quiet_tracker = []" "targeted_packets_to_send_list quiet_tracker = []"
  "packets_connections_sent_list quiet_tracker = []" "messages quiet_tracker = []"
  "(65, sample_connection 65 HCI_ROLE_MASTER) \<in> set (connections quiet_tracker)"
  "available (sample_connection 65 HCI_ROLE_MASTER)" "ptr_handle quiet_tracker (ConnectionNode 64) = Some 64"
  by (simp_all add: tracker_ok_defs quiet_tracker_def new_tracker_def live_addresses_def new_packet_defs
      multi_ok_def sample_connection_def connection_setters pointers_ok_def available_def ptr_handle_def
      deref_connection_def)

theorem short_peer_id_breaks_sending_witness:
  "\<exists>s1. processWrite no_zlib sample_hash 0 5 (ConnectionNode 64) 64 0 short_peer_id_buffer quiet_tracker = Inr s1 \<and>
     sendPackets s1 = Inl NullDereference"
proof -
  have payload: "parsed_payload short_peer_id_packet =
      message_fields short_peer_id_fields @ short_string [0x41] @ message_tail short_peer_id_fields"
    and flags: "hasSenderPeerID short_peer_id_fields"
    and type: "parsed_type short_peer_id_packet = type_value type_message"
    by (simp_all add: short_peer_id_packet_def short_peer_id_payload_def short_peer_id_fields_def message_fields_def
        message_tail_def message_setters new_packet_defs message_flag_defs has_flag_def short_string_def
        long_string_def be64_def be16_def)
  have wf: "fields_wf short_peer_id_fields"
    by (simp add: fields_wf_def short_peer_id_fields_def message_setters new_packet_defs message_flag_defs
        has_flag_def field_if_def)
  have ttl: "0 < parsed_ttl short_peer_id_packet"
    and id: "message_id short_peer_id_fields \<notin> fst ` set (messages quiet_tracker)"
    by (simp_all add: short_peer_id_packet_def quiet_tracker_simps)
  show ?thesis
    by (rule short_peer_id_breaks_sending [OF quiet_tracker_simps(1-5) short_peer_id_parses type ttl payload wf
        flags _ _ id quiet_tracker_simps(10,8,9)]) (simp_all add: quiet_tracker_simps(6))
qed

text \<open>The announcement of peer 42 with the name \<open>[10]\<close>.\<close>

lemma announcement_parses:
  "parse_packet no_zlib 0 (sample_buffer 1 3) = Inr (Some (sample_packet\<lparr>parsed_type := 1\<rparr>))"
  by code_simp

theorem relayed_announcement_breaks_sending_witness:
  "\<exists>s1. processWrite no_zlib sample_hash 0 5 (ConnectionNode 64) 64 0 (sample_buffer 1 3) quiet_tracker = Inr s1 \<and>
     sendPackets s1 = Inl BadCast"
proof -
  have "packets quiet_tracker = []" "getTimeMs 0 quiet_tracker = 0"
    by (simp_all add: quiet_tracker_def new_tracker_def getTimeMs_def)
  then show ?thesis
    using relayed_announcement_breaks_sending [OF quiet_tracker_simps(1-5) announcement_parses _ _ _ _
        quiet_tracker_simps(10,8,9), of 0 sample_hash]
    by (simp add: quiet_tracker_simps(6) sample_packet_def)
qed

theorem writing_type_errors_witness:
  "writePacket (peers sample_tracker) (PassAlongPacket (setPayload [10] (PacketPassAlong_full 5 3 0 0 42 0 []))) [] \<noteq> Inl BadCast"
  using writing_type_errors [OF conjunct1 [OF sample_tracker_ok] sample_tracker_deref, of BadCast]
  by (simp add: packet_setters new_packet_defs)

end
