(* ===== verification/Reach.thy ===== *)
theory Reach
  imports Delivery Writing
begin

text \<open>
  How far a packet gets: it is written to one repeater after another, each of which receives it, queues
  it and sends it on over its connection to the next. Along a chain of repeaters that do not know it yet
  it goes exactly as far as its time to live allows.
\<close>

section \<open>A hop\<close>

text \<open>A repeater on the way: its state, the moment the packet arrives, and its handles of the two connections.\<close>

record hop =
  hop_repeater :: repeater
  hop_moment :: moment
  hop_in :: u16
  hop_out :: u16

definition waiting :: "u16 \<Rightarrow> tracker \<Rightarrow> bytes list" where
  "waiting h s = map snd (filter (\<lambda>(h', data). h' = h) (raw_packet_to_notify s @ raw_packet_to_write s))"

text \<open>What then waits for the next repeater, and the state after sending.\<close>

definition forward :: "platform \<Rightarrow> hop \<Rightarrow> bytes \<Rightarrow> (bytes list \<times> repeater) result" where
  "forward pf n data =
     bind_result (handle_event pf (hop_moment n)
         (Att_write (hop_in n) (VALUE_HANDLE pf) TRANSACTION_NONE 0 data) (hop_repeater n)) (\<lambda>r.
     bind_result (try_tracker sendPackets r) (\<lambda>r.
       Inr (waiting (hop_out n) (connection_tracker r), r)))"

fun travel :: "platform \<Rightarrow> hop list \<Rightarrow> bytes \<Rightarrow> repeater list result" where
  "travel pf [] data = Inr []"
| "travel pf (n # ns) data =
     bind_result (forward pf n data) (\<lambda>(out, r).
       case out of
         [] \<Rightarrow> Inr [r]
       | d # _ \<Rightarrow> bind_result (travel pf ns d) (\<lambda>rs. Inr (r # rs)))"

section \<open>Repeaters that can pass a packet on\<close>

text \<open>The bytes of a packet; the peers matter for messages only.\<close>

definition encoded :: "pass_along \<Rightarrow> bytes" where
  "encoded p = (case writePacket [] (PassAlongPacket p) [] of Inr bytes \<Rightarrow> bytes | Inl e \<Rightarrow> [])"

text \<open>A plain packet of a type that is passed along and is not an announcement.\<close>

definition passes :: "pass_along \<Rightarrow> bool" where
  "passes p \<longleftrightarrow> plain_packet p \<and>
     (case type_of_value (packet_type p) of
        None \<Rightarrow> False | Some t \<Rightarrow> t \<in> set relayed_types \<and> t \<noteq> type_announce)"

text \<open>
  A consistent repeater with empty queues that has not seen the packet, connected both ways, with
  connections that take packets of this size; the new node stands behind the packets noted so far.
\<close>

definition idle :: "platform \<Rightarrow> pass_along \<Rightarrow> hop \<Rightarrow> bool" where
  "idle pf p n \<longleftrightarrow>
     (let s = connection_tracker (hop_repeater n); a = new_node (hop_moment n)
      in tracker_ok s \<and> pointers_ok s \<and> broadcast_packets_to_send_list s = [] \<and>
         targeted_packets_to_send_list s = [] \<and> waiting (hop_out n) s = [] \<and> fresh a s \<and>
         (\<forall>q \<in> fst ` set (packets_connections_sent_list s). q < a) \<and>
         getPacketHash (hash_function pf) p \<notin> fst ` set (packets s) \<and>
         hop_in n \<noteq> hop_out n \<and>
         (\<exists>c. map_of (connections s) (hop_in n) = Some c \<and> connection_handle c = hop_in n) \<and>
         (\<exists>c. map_of (connections s) (hop_out n) = Some c \<and> available c) \<and>
         (\<forall>(k, c) \<in> set (connections s). available c \<longrightarrow> length (encoded p) \<le> unat (bt_mtu c)))"

lemma plain_packet_bytes:
  assumes "plain_packet p"
  shows "writePacket ps (PassAlongPacket p) [] =
    Inr (header_bytes (base (PassAlongPacket p)) (length (payload p)) @ payload p @ [0])"
proof -
  have "packet_payload ps (PassAlongPacket p) = Inr (payload p)" for ps
    using assms by (intro packet_payload_pass_along) (auto simp: plain_packet_def)
  then show ?thesis
    using assms by (simp add: writePacket_bytes trailer_bytes_def plain_packet_def hasPacketSignature_def)
qed

lemma encoded_writePacket: "plain_packet p \<Longrightarrow> writePacket ps (PassAlongPacket p) [] = Inr (encoded p)"
  by (simp add: encoded_def plain_packet_bytes)

lemma plain_packet_ttl [simp]: "plain_packet (p\<lparr>packet_ttl := t\<rparr>) = plain_packet p"
  by (simp add: plain_packet_def hasPacketSignature_def hasPacketRecipient_def)

lemma passes_ttl [simp]: "passes (p\<lparr>packet_ttl := t\<rparr>) = passes p"
  by (simp add: passes_def)

lemma length_encoded_ttl [simp]:
  "plain_packet p \<Longrightarrow> length (encoded (p\<lparr>packet_ttl := t\<rparr>)) = length (encoded p)"
  by (simp add: encoded_def plain_packet_bytes length_header_bytes hasPacketRecipient_def)

lemma idle_ttl [simp]: "plain_packet p \<Longrightarrow> idle pf (p\<lparr>packet_ttl := t\<rparr>) n = idle pf p n"
  by (simp add: idle_def Let_def)

lemma encoded_parses:
  assumes "plain_packet p"
  shows "parse_packet zlib 0 (encoded p) = Inr (Some (parsed_of (base (PassAlongPacket p)) (payload p) []))"
    and "parsed_pass_along (parsed_of (base (PassAlongPacket p)) (payload p) []) =
      p\<lparr>packet_ttl := packet_ttl p - 1\<rparr>"
  using plain_packet_parses [OF assms, of "[]" zlib] encoded_writePacket [OF assms] by auto

section \<open>One hop\<close>

lemma passes_dispatch:
  assumes "passes p" and "parsed_type q = packet_type p"
  shows "dispatch_packet std_hash now a cp h q s = pass_packet_along std_hash a cp q s"
proof -
  obtain t where t: "type_of_value (parsed_type q) = Some t" "t \<in> set relayed_types" "t \<noteq> type_announce"
    using assms by (auto simp: passes_def split: option.splits)
  then have "t \<noteq> noiseIdentityAnnounce" "t \<noteq> type_message" by (auto simp: relayed_types_def)
  with t show ?thesis by (simp add: dispatch_packet_def)
qed

text \<open>Receiving a new packet: with hops left it is stored and queued, without it is ignored.\<close>

lemma receive_expired:
  assumes "passes p" and "packet_ttl p = 1"
  shows "processWrite zlib std_hash now a cp h 0 (encoded p) s = Inr s"
proof -
  have plain: "plain_packet p" using assms(1) by (simp add: passes_def)
  have "parsed_ttl (parsed_of (base (PassAlongPacket p)) (payload p) []) = 0"
    using assms(2) by (simp add: parsed_of_def)
  then show ?thesis
    using encoded_parses(1) [OF plain] passes_dispatch [OF assms(1)]
    by (simp add: processWrite_def pass_packet_along_def parsed_of_def)
qed

lemma receive_new:
  assumes "passes p" and "1 < packet_ttl p" and "fresh a s" and "broadcast_packets_to_send_list s = []"
    and "getPacketHash std_hash p \<notin> fst ` set (packets s)"
  shows "\<exists>s1. processWrite zlib std_hash now a cp h 0 (encoded p) s = Inr s1 \<and>
    deref_packet s1 a = Inr (PassAlongPacket (p\<lparr>packet_ttl := packet_ttl p - 1\<rparr>)) \<and>
    broadcast_packets_to_send_list s1 = [a] \<and>
    targeted_packets_to_send_list s1 = targeted_packets_to_send_list s \<and>
    connections s1 = connections s \<and>
    packets_connections_sent_list s1 = multi_emplace a cp (packets_connections_sent_list s) \<and>
    raw_packet_to_notify s1 = raw_packet_to_notify s \<and> raw_packet_to_write s1 = raw_packet_to_write s"
proof -
  have plain: "plain_packet p" using assms(1) by (simp add: passes_def)
  let ?q = "parsed_of (base (PassAlongPacket p)) (payload p) []"
  let ?p = "p\<lparr>packet_ttl := packet_ttl p - 1\<rparr>"
  let ?s = "checkSenderInPeers (parsed_sender ?q) s"
  let ?s1 = "?s\<lparr>packets := map_put (getPacketHash std_hash p) (a, ?p) (packets ?s)\<rparr>"
  have q: "parsed_pass_along ?q = ?p" by (rule encoded_parses(2) [OF plain])
  have ttl: "packet_ttl ?p > 0" using assms(2) by (auto simp: word_gt_0)
  have new: "map_of (packets ?s) (getPacketHash std_hash p) = None"
    using assms(5) by (simp add: map_of_eq_None_iff)
  have deref: "deref_packet ?s1 = (deref_packet ?s)(a := Inr (PassAlongPacket ?p))"
    using deref_stored_packet [OF new, of a] assms(3) by simp
  have "processWrite zlib std_hash now a cp h 0 (encoded p) s =
      enqueueBroadcastPacketFrom a cp (parsed_sender ?q) ?s1"
    using encoded_parses(1) [OF plain] passes_dispatch [OF assms(1), of ?q] ttl new q
    by (simp add: processWrite_def pass_packet_along_def parsed_of_def storePacketAndReturnIfNew_def Let_def
        word_gt_0)
  then show ?thesis
    using deref ttl assms(4)
    by (simp add: enqueueBroadcastPacketFrom_def enqueueBroadcastPacket_def checkSenderInPeers_def)
qed

lemma set_waiting:
  "data \<in> set (waiting h s) \<longleftrightarrow>
     (h, data) \<in> set (raw_packet_to_notify s) \<or> (h, data) \<in> set (raw_packet_to_write s)"
  by (force simp: waiting_def)

text \<open>Sending the only queued packet: it then waits for every other connection.\<close>

lemma send_new:
  assumes "tracker_ok s" and "pointers_ok s" and "plain_packet p"
    and "deref_packet s a = Inr (PassAlongPacket p)" and "broadcast_packets_to_send_list s = [a]"
    and "targeted_packets_to_send_list s = []"
    and "\<forall>(q, cp) \<in> set (packets_connections_sent_list s). a \<le> q \<longrightarrow> ptr_handle s cp = Some h"
    and "(a, cp) \<in> set (packets_connections_sent_list s)"
    and "\<forall>(k, c) \<in> set (connections s). available c \<longrightarrow> length (encoded p) \<le> unat (bt_mtu c)"
    and "map_of (connections s) k = Some c" and "available c" and "k \<noteq> h" and "waiting k s = []"
  shows "\<exists>s'. sendPackets s = Inr s' \<and> set (waiting k s') = {encoded p} \<and> deref_packet s' = deref_packet s \<and>
    packets s' = packets s"
proof -
  have a: "a \<in> fst ` set (packets_connections_sent_list s)" using assms(8) by force
  from broadcast_packet_delivers [OF assms(1,2) a assms(4) encoded_writePacket [OF assms(3)] assms(9)]
  obtain s1 where s1: "broadcast_packet a s = Inr s1" "delivered s a (encoded p) (recipients s a) s1" by blast
  have same: "same_but_sent s s1" using s1(2) by (simp add: delivered_def)
  let ?s' = "s1\<lparr>broadcast_packets_to_send_list := []\<rparr>"
  have "s\<lparr>targeted_packets_to_send_list := []\<rparr> = s" using assms(6) by (cases s) simp
  then have "sendPackets s = Inr ?s'"
    using s1(1) same assms(5,6) by (simp add: sendPackets_def same_but_sent_def)
  moreover have "set (waiting k ?s') = {encoded p}"
  proof -
    have "multi_ok (packets_connections_sent_list s)" using assms(1) by (simp add: tracker_ok_defs)
    then have "scanned s a = {Some h}"
      using assms(7,8) a by (force simp: scanned_def set_multi_from)
    moreover have "(k, c) \<in> set (connections s)" using assms(10) by (rule map_of_SomeD)
    ultimately have "(k, c) \<in> recipients s a" using assms(11,12) by (simp add: recipients_def)
    moreover have "data \<in> set (waiting k ?s') \<longleftrightarrow> data \<in> set (waiting k s) \<or>
        data = encoded p \<and> k \<in> fst ` recipients s a" for data
      using s1(2) unfolding delivered_def set_waiting by (auto intro: rev_image_eqI)
    ultimately show ?thesis using assms(13) by force
  qed
  moreover have "packets ?s' = packets s" using same by (simp add: same_but_sent_def)
  ultimately show ?thesis using same_but_sent_deref [OF same] by auto
qed

lemma pointers_ok_emplace:
  assumes "pointers_ok s" and "connections s1 = connections s" and "ptr_handle s cp \<noteq> None"
    and "packets_connections_sent_list s1 = multi_emplace a cp (packets_connections_sent_list s)"
  shows "pointers_ok s1"
  using assms by (auto simp: pointers_ok_def ptr_handle_cong [OF assms(2)])

lemma write_event:
  assumes "VALUE_HANDLE pf \<noteq> CLIENT_CONFIGURATION_HANDLE pf" and "map_of (connections (connection_tracker r)) h = Some c"
    and "processWrite (libdeflate pf) (hash_function pf) (now_us t) (new_node t) (ConnectionNode h)
      (connection_handle c) 0 data (connection_tracker r) = Inr s'"
  shows "\<exists>r'. handle_event pf t (Att_write h (VALUE_HANDLE pf) TRANSACTION_NONE 0 data) r = Inr r' \<and>
    connection_tracker r' = s'"
  using assms
  by (auto simp: att_write_callback_def Let_def connectionForConnHandle_def connection_or_new_def)

lemma forward_expired:
  assumes "VALUE_HANDLE pf \<noteq> CLIENT_CONFIGURATION_HANDLE pf" and "passes p" and "packet_ttl p = 1" and "idle pf p n"
  shows "\<exists>r. forward pf n (encoded p) = Inr ([], r) \<and>
    connection_tracker r = connection_tracker (hop_repeater n)"
proof -
  let ?s = "connection_tracker (hop_repeater n)"
  obtain c where c: "map_of (connections ?s) (hop_in n) = Some c"
    and s: "broadcast_packets_to_send_list ?s = []" "targeted_packets_to_send_list ?s = []" "waiting (hop_out n) ?s = []"
    using assms(4) by (auto simp: idle_def Let_def)
  obtain r where "handle_event pf (hop_moment n)
      (Att_write (hop_in n) (VALUE_HANDLE pf) TRANSACTION_NONE 0 (encoded p)) (hop_repeater n) = Inr r"
    "connection_tracker r = ?s"
    using write_event [OF assms(1) c receive_expired [OF assms(2,3)]] by blast
  moreover have "sendPackets ?s = Inr ?s" using s by (simp add: sendPackets_def)
  ultimately show ?thesis
    using s(3) unfolding forward_def by (auto simp: try_tracker_def)
qed

lemma forward_new:
  assumes "VALUE_HANDLE pf \<noteq> CLIENT_CONFIGURATION_HANDLE pf" and "passes p" and "1 < packet_ttl p" and "idle pf p n"
  shows "\<exists>out r. forward pf n (encoded p) = Inr (out, r) \<and>
    set out = {encoded (p\<lparr>packet_ttl := packet_ttl p - 1\<rparr>)} \<and>
    deref_packet (connection_tracker r) (new_node (hop_moment n)) =
      Inr (PassAlongPacket (p\<lparr>packet_ttl := packet_ttl p - 1\<rparr>))"
proof -
  let ?s = "connection_tracker (hop_repeater n)" and ?a = "new_node (hop_moment n)"
  let ?p = "p\<lparr>packet_ttl := packet_ttl p - 1\<rparr>" and ?cp = "ConnectionNode (hop_in n)"
  have plain: "plain_packet p" using assms(2) by (simp add: passes_def)
  have s: "tracker_ok ?s" "pointers_ok ?s" "broadcast_packets_to_send_list ?s = []"
    "targeted_packets_to_send_list ?s = []" "waiting (hop_out n) ?s = []" "fresh ?a ?s"
    "\<forall>q \<in> fst ` set (packets_connections_sent_list ?s). q < ?a"
    "getPacketHash (hash_function pf) p \<notin> fst ` set (packets ?s)" "hop_in n \<noteq> hop_out n"
    "\<forall>(k, c) \<in> set (connections ?s). available c \<longrightarrow> length (encoded p) \<le> unat (bt_mtu c)"
    using assms(4) by (simp_all add: idle_def Let_def)
  obtain c where c: "map_of (connections ?s) (hop_in n) = Some c" "connection_handle c = hop_in n"
    using assms(4) by (auto simp: idle_def Let_def)
  obtain d where d: "map_of (connections ?s) (hop_out n) = Some d" "available d"
    using assms(4) by (auto simp: idle_def Let_def)
  have h: "ptr_handle ?s ?cp = Some (hop_in n)"
    using c by (simp add: ptr_handle_def deref_connection_def)
  from receive_new [OF assms(2,3) s(6,3,8)] obtain s1 where s1:
    "processWrite (libdeflate pf) (hash_function pf) (now_us (hop_moment n)) ?a ?cp (connection_handle c) 0 (encoded p) ?s = Inr s1"
    "deref_packet s1 ?a = Inr (PassAlongPacket ?p)" "broadcast_packets_to_send_list s1 = [?a]"
    "targeted_packets_to_send_list s1 = []" "connections s1 = connections ?s"
    "packets_connections_sent_list s1 = multi_emplace ?a ?cp (packets_connections_sent_list ?s)"
    "raw_packet_to_notify s1 = raw_packet_to_notify ?s" "raw_packet_to_write s1 = raw_packet_to_write ?s"
    using s(4) by metis
  have "tracker_ok s1" by (rule processWrite_keeps_ok [OF s(1,6) s1(1)])
  moreover have "pointers_ok s1" using pointers_ok_emplace [OF s(2) s1(5) _ s1(6)] h by simp
  moreover have "\<forall>(q, cp) \<in> set (packets_connections_sent_list s1). ?a \<le> q \<longrightarrow> ptr_handle s1 cp = Some (hop_in n)"
    using s(7) h ptr_handle_cong [OF s1(5)] by (fastforce simp: s1(6))
  moreover have "(?a, ?cp) \<in> set (packets_connections_sent_list s1)" by (simp add: s1(6))
  moreover have "waiting (hop_out n) s1 = []" using s(5) s1(7,8) by (simp add: waiting_def)
  ultimately obtain s2 where s2: "sendPackets s1 = Inr s2" "set (waiting (hop_out n) s2) = {encoded ?p}"
    "deref_packet s2 = deref_packet s1"
    using send_new [of s1 ?p ?a "hop_in n" ?cp "hop_out n" d] s1 s(9,10) d plain by (auto simp: eq_commute)
  obtain r where r: "handle_event pf (hop_moment n)
      (Att_write (hop_in n) (VALUE_HANDLE pf) TRANSACTION_NONE 0 (encoded p)) (hop_repeater n) = Inr r"
    "connection_tracker r = s1"
    using write_event [OF assms(1) c(1) s1(1)] by blast
  then show ?thesis
    using s2 s1(2) unfolding forward_def by (auto simp: try_tracker_def)
qed

lemma ttl_more:
  fixes x :: u8
  assumes "0 < x" and "x \<noteq> 1"
  shows "1 < x" and "0 < x - 1" and "unat x = Suc (unat (x - 1))"
proof -
  have 0: "unat x \<noteq> 0" using assms(1) by (simp add: word_gt_0 unat_eq_0)
  moreover have "unat x \<noteq> 1" using assms(2) word_eq_iff_unsigned [where ?'a = nat, of x 1] by simp
  ultimately show "1 < x" by (simp add: word_less_nat_alt)
  show "0 < x - 1" using assms(2) by (simp add: word_gt_0)
  show "unat x = Suc (unat (x - 1))" using 0 assms(1) unat_minus_one [of x] by (simp add: word_gt_0)
qed

section \<open>Properties\<close>

text \<open>
  C3: a packet, neither a message nor an announcement, unsigned and uncompressed, gets exactly as far as
  its time to live allows. Written to the first of a chain of
  repeaters that are connected, idle and have not seen it, it is received, stored and sent on by one
  after the other, each with one hop less than the one before; the repeater it reaches without a hop left
  ignores it, and those behind never see it.
\<close>

theorem packet_travels_its_ttl:
  assumes "VALUE_HANDLE pf \<noteq> CLIENT_CONFIGURATION_HANDLE pf" and "passes p" and "0 < packet_ttl p"
    and "\<forall>n \<in> set ns. idle pf p n"
  shows "\<exists>rs. travel pf ns (encoded p) = Inr rs \<and> length rs = min (length ns) (unat (packet_ttl p)) \<and>
    (\<forall>i < length rs.
       if Suc i < unat (packet_ttl p)
       then deref_packet (connection_tracker (rs ! i)) (new_node (hop_moment (ns ! i))) =
         Inr (PassAlongPacket (p\<lparr>packet_ttl := packet_ttl p - of_nat (Suc i)\<rparr>))
       else connection_tracker (rs ! i) = connection_tracker (hop_repeater (ns ! i)))"
  using assms(2-4)
proof (induction ns arbitrary: p)
  case (Cons n ns)
  have plain: "plain_packet p" using Cons.prems(1) by (simp add: passes_def)
  have idle: "idle pf p n" using Cons.prems(3) by simp
  show ?case
  proof (cases "packet_ttl p = 1")
    case True
    from forward_expired [OF assms(1) Cons.prems(1) True idle] show ?thesis using True by auto
  next
    case False
    let ?p = "p\<lparr>packet_ttl := packet_ttl p - 1\<rparr>"
    have more: "1 < packet_ttl p" "0 < packet_ttl ?p" "unat (packet_ttl p) = Suc (unat (packet_ttl ?p))"
      using ttl_more [OF Cons.prems(2) False] by simp_all
    from forward_new [OF assms(1) Cons.prems(1) more(1) idle] obtain out r where
      fwd: "forward pf n (encoded p) = Inr (out, r)" and out: "set out = {encoded ?p}"
      and r: "deref_packet (connection_tracker r) (new_node (hop_moment n)) = Inr (PassAlongPacket ?p)" by blast
    obtain tl where "out = encoded ?p # tl" using out by (cases out) auto
    moreover obtain rs where rs: "travel pf ns (encoded ?p) = Inr rs"
      "length rs = min (length ns) (unat (packet_ttl ?p))"
      "\<forall>i < length rs.
         if Suc i < unat (packet_ttl ?p)
         then deref_packet (connection_tracker (rs ! i)) (new_node (hop_moment (ns ! i))) =
           Inr (PassAlongPacket (?p\<lparr>packet_ttl := packet_ttl ?p - of_nat (Suc i)\<rparr>))
         else connection_tracker (rs ! i) = connection_tracker (hop_repeater (ns ! i))"
      using Cons.IH [of ?p] Cons.prems more(2) plain by auto
    ultimately have "travel pf (n # ns) (encoded p) = Inr (r # rs)" using fwd by simp
    moreover have "length (r # rs) = min (length (n # ns)) (unat (packet_ttl p))"
      using rs(2) more(3) by simp
    moreover have "if Suc i < unat (packet_ttl p)
        then deref_packet (connection_tracker ((r # rs) ! i)) (new_node (hop_moment ((n # ns) ! i))) =
          Inr (PassAlongPacket (p\<lparr>packet_ttl := packet_ttl p - of_nat (Suc i)\<rparr>))
        else connection_tracker ((r # rs) ! i) = connection_tracker (hop_repeater ((n # ns) ! i))"
      if "i < length (r # rs)" for i
    proof (cases i)
      case 0
      then show ?thesis using r more by (simp add: unat_gt_0 word_gt_0)
    next
      case (Suc k)
      with that rs(3) have "if Suc k < unat (packet_ttl ?p)
         then deref_packet (connection_tracker (rs ! k)) (new_node (hop_moment (ns ! k))) =
           Inr (PassAlongPacket (?p\<lparr>packet_ttl := packet_ttl ?p - of_nat (Suc k)\<rparr>))
         else connection_tracker (rs ! k) = connection_tracker (hop_repeater (ns ! k))" by simp
      moreover have "packet_ttl ?p - of_nat (Suc k) = packet_ttl p - of_nat (Suc i)"
        by (simp add: Suc)
      ultimately show ?thesis using more(3) by (simp add: Suc)
    qed
    ultimately show ?thesis by blast
  qed
qed simp

text \<open>Three repeaters in a row, and a packet with three hops: the third gets it with none left.\<close>

definition sample_hop :: hop where
  "sample_hop =
     \<lparr>hop_repeater = (initial_repeater 1)\<lparr>connection_tracker := quiet_tracker\<rparr>,
      hop_moment = \<lparr>now_us = 0, new_node = 5, frame = 9\<rparr>, hop_in = 64, hop_out = 65\<rparr>"

definition sample_fragment :: pass_along where
  "sample_fragment = setPayload [10] (PacketPassAlong_full 5 3 9 0 42 0 [])"

lemma sample_fragment_passes: "passes sample_fragment"
  by code_simp

lemma sample_fragment_length: "length (encoded sample_fragment) = 24"
  using sample_fragment_passes
  by (simp add: passes_def encoded_def plain_packet_bytes length_header_bytes)
    (simp add: sample_fragment_def new_packet_defs packet_setters hasPacketRecipient_def has_flag_def)

lemma quiet_tracker_connections:
  "packets quiet_tracker = []" "raw_packet_to_notify quiet_tracker = []" "raw_packet_to_write quiet_tracker = []"
  "connections quiet_tracker =
     [(64, sample_connection 64 HCI_ROLE_SLAVE), (65, sample_connection 65 HCI_ROLE_MASTER)]"
  by (simp_all add: quiet_tracker_def new_tracker_def)

lemma sample_hop_idle: "idle sample_platform sample_fragment sample_hop"
proof -
  have "available (sample_connection h r)" "bt_mtu (sample_connection h r) = 200"
    "connection_handle (sample_connection h r) = h" for h r
    by (simp_all add: available_def sample_connection_def connection_setters)
  then show ?thesis
    using quiet_tracker_simps sample_fragment_length
    by (simp add: idle_def sample_hop_def waiting_def quiet_tracker_connections)
qed

theorem packet_travels_its_ttl_witness:
  "\<exists>rs. travel sample_platform (replicate 3 sample_hop) (encoded sample_fragment) = Inr rs \<and> length rs = 3 \<and>
    deref_packet (connection_tracker (rs ! 1)) 5 = Inr (PassAlongPacket (sample_fragment\<lparr>packet_ttl := 1\<rparr>)) \<and>
    connection_tracker (rs ! 2) = quiet_tracker"
proof -
  have facts: "VALUE_HANDLE sample_platform \<noteq> CLIENT_CONFIGURATION_HANDLE sample_platform"
    "packet_ttl sample_fragment = 3" "\<forall>n \<in> set (replicate 3 sample_hop). idle sample_platform sample_fragment n"
    using sample_hop_idle
    by (simp_all add: sample_platform_def sample_fragment_def new_packet_defs packet_setters)
  obtain rs where rs: "travel sample_platform (replicate 3 sample_hop) (encoded sample_fragment) = Inr rs"
    "length rs = 3" "\<forall>i < 3.
       if Suc i < 3
       then deref_packet (connection_tracker (rs ! i)) (new_node (hop_moment (replicate 3 sample_hop ! i))) =
         Inr (PassAlongPacket (sample_fragment\<lparr>packet_ttl := 3 - of_nat (Suc i)\<rparr>))
       else connection_tracker (rs ! i) = connection_tracker (hop_repeater (replicate 3 sample_hop ! i))"
    using packet_travels_its_ttl [OF facts(1) sample_fragment_passes _ facts(3)] unfolding facts(2) by auto
  have "new_node (hop_moment sample_hop) = 5" "connection_tracker (hop_repeater sample_hop) = quiet_tracker"
    by (simp_all add: sample_hop_def)
  then show ?thesis
    using rs spec [OF rs(3), of 1] spec [OF rs(3), of 2] by simp
qed

end
