(* ===== verification/Mesh.thy ===== *)
theory Mesh
  imports Delivery "HOL-Library.Multiset"
begin

text \<open>
  Repeaters connected to each other. A step of the mesh is one repeater sending what it has queued, or
  the stack taking one raw packet of a repeater and the packet arriving at the other end of the
  connection, or getting lost. Without new traffic every run of the mesh is finite: floods die out.
\<close>

section \<open>The mesh\<close>

datatype way = By_write | By_notification

text \<open>The event that the stack is ready, what it then takes, and the event at the other end.\<close>

fun ready :: "way \<Rightarrow> event" where
  "ready By_write = Can_write 0"
| "ready By_notification = Can_notify 0"

fun taken :: "way \<Rightarrow> tracker \<Rightarrow> u16 \<times> bytes list" where
  "taken By_write s = (write_context s, map snd (multi_lower (write_context s) (raw_packet_to_write s)))"
| "taken By_notification s =
     (notify_context s, map snd (multi_lower (notify_context s) (raw_packet_to_notify s)))"

fun arrives :: "platform \<Rightarrow> way \<Rightarrow> u16 \<Rightarrow> bytes \<Rightarrow> event" where
  "arrives pf By_write h data = Att_write h (VALUE_HANDLE pf) TRANSACTION_NONE 0 data"
| "arrives pf By_notification h data = Value_update (GATT_EVENT_NOTIFICATION h data)"

text \<open>
  \<open>link i h\<close> is the other end of connection \<open>h\<close> of repeater \<open>i\<close>: a repeater and its handle of the
  connection.
\<close>

inductive mesh_step ::
    "platform \<Rightarrow> (nat \<Rightarrow> u16 \<Rightarrow> (nat \<times> u16) option) \<Rightarrow> repeater list \<Rightarrow> repeater list \<Rightarrow> bool"
  for pf link where
  send: "i < length net \<Longrightarrow> try_tracker sendPackets (net ! i) = Inr r \<Longrightarrow> r \<noteq> net ! i \<Longrightarrow>
    mesh_step pf link net (net[i := r])"
| lose: "i < length net \<Longrightarrow> taken w (connection_tracker (net ! i)) = (h, data # rest) \<Longrightarrow>
    handle_event pf t (ready w) (net ! i) = Inr r \<Longrightarrow>
    mesh_step pf link net (net[i := r])"
| deliver: "i < length net \<Longrightarrow> taken w (connection_tracker (net ! i)) = (h, data # rest) \<Longrightarrow>
    handle_event pf t (ready w) (net ! i) = Inr r \<Longrightarrow> link i h = Some (j, g) \<Longrightarrow> j < length net \<Longrightarrow>
    fresh (new_node t') (connection_tracker (net[i := r] ! j)) \<Longrightarrow>
    handle_event pf t' (arrives pf w g data) (net[i := r] ! j) = Inr r' \<Longrightarrow>
    mesh_step pf link net (net[i := r, j := r'])"

section \<open>The load of a repeater\<close>

text \<open>The hops that a queued packet and the bytes of a packet have left.\<close>

definition queued_ttl :: "tracker \<Rightarrow> addr \<Rightarrow> nat" where
  "queued_ttl s p = (case deref_packet s p of Inr pk \<Rightarrow> unat (packet_ttl (base pk)) | Inl e \<Rightarrow> 0)"

definition hops :: "bytes \<Rightarrow> nat" where
  "hops data = (if 2 < length data then unat (data ! 2) else 0)"

definition raws :: "tracker \<Rightarrow> (u16 \<times> bytes) multiset" where
  "raws s = mset (raw_packet_to_notify s) + mset (raw_packet_to_write s)"

definition queued :: "tracker \<Rightarrow> addr multiset" where
  "queued s = mset (broadcast_packets_to_send_list s) + mset (map fst (targeted_packets_to_send_list s))"

text \<open>
  Bytes weigh more than the packet they are parsed to, which weighs more than the bytes it is written
  to.
\<close>

definition load :: "tracker \<Rightarrow> nat multiset" where
  "load s = {#2 * queued_ttl s p. p \<in># queued s#} + {#2 * hops data + 1. (h, data) \<in># raws s#}"

definition mesh_load :: "repeater list \<Rightarrow> nat multiset" where
  "mesh_load net = sum_list (map (\<lambda>r. load (connection_tracker r)) net)"

definition targeted_ok :: "tracker \<Rightarrow> bool" where
  "targeted_ok s \<longleftrightarrow> (\<forall>p \<in> fst ` set (targeted_packets_to_send_list s). relayable s p)"

definition mesh_ok :: "repeater list \<Rightarrow> bool" where
  "mesh_ok net \<longleftrightarrow>
     (\<forall>r \<in> set net. tracker_ok (connection_tracker r) \<and> targeted_ok (connection_tracker r))"

lemma queued_ttl_cong: "deref_packet s' = deref_packet s \<Longrightarrow> queued_ttl s' = queued_ttl s"
  by (simp add: fun_eq_iff queued_ttl_def)

lemma relayable_iff: "relayable s p \<longleftrightarrow> 0 < queued_ttl s p"
  by (auto simp: relayable_def queued_ttl_def unat_gt_0 word_gt_0 split: sum.split)

lemma queue_relayable:
  "tracker_ok s \<Longrightarrow> targeted_ok s \<Longrightarrow> p \<in># queued s \<Longrightarrow> relayable s p"
  by (auto simp: queued_def tracker_ok_def queues_ok_def targeted_ok_def)

lemma relayable_live: "relayable s p \<Longrightarrow> p \<in> set (live_addresses s)"
  using fresh_not_relayable by blast

subsection \<open>Sending\<close>

lemma mset_multi_emplace [simp]: "mset (multi_emplace k v m) = add_mset (k, v) (mset m)"
  by (induction k v m rule: multi_emplace.induct) auto

lemma hops_writePacket:
  assumes "writePacket ps pk [] = Inr bytes" and "packet_ttl (base pk) > 0"
  shows "hops bytes + 1 = unat (packet_ttl (base pk))"
  using assms
  by (auto simp: writePacket_bytes hops_def header_bytes_def word_gt_0 unat_minus_one unat_gt_0)

text \<open>Along the loops of \<open>sendPackets\<close> that start in \<open>s\<close>: what was added are bytes of packets in \<open>Q\<close>.\<close>

definition emitted :: "tracker \<Rightarrow> addr set \<Rightarrow> tracker \<Rightarrow> bool" where
  "emitted s Q t \<longleftrightarrow> same_but_sent s t \<and> map_ok (connections t) \<and>
     (\<exists>N. raws t = raws s + N \<and> (\<forall>(h, data) \<in># N. \<exists>p \<in> Q. hops data + 1 = queued_ttl s p))"

lemma emitted_refl: "map_ok (connections s) \<Longrightarrow> emitted s Q s"
  by (simp add: emitted_def)

lemma SendPacketToConnection_raws:
  assumes "SendPacketToConnection p cp t = Inr t'" and "relayable t p"
  shows "\<exists>h data. raws t' = add_mset (h, data) (raws t) \<and> hops data + 1 = queued_ttl t p"
proof -
  obtain pk bytes where "deref_packet t p = Inr pk" "writePacket (peers t) pk [] = Inr bytes"
    using assms(1) by (auto simp: SendPacketToConnection_def)
  moreover from this have "hops bytes + 1 = queued_ttl t p"
    using assms(2) hops_writePacket by (simp add: relayable_def queued_ttl_def)
  moreover from calculation have "\<exists>h. raws t' = add_mset (h, bytes) (raws t)"
    using assms(1)
    by (auto simp: SendPacketToConnection_def Let_def raws_def call_stack_def update_connection_def
        split: if_splits connection_ptr.splits)
  ultimately show ?thesis by blast
qed

lemma SendPacketToConnection_map_ok:
  assumes "SendPacketToConnection p cp s = Inr s'" and "map_ok (connections s)"
  shows "map_ok (connections s')"
  using assms
  by (auto simp: SendPacketToConnection_def Let_def call_stack_def update_connection_def
      split: if_splits connection_ptr.splits)

lemma emitted_send:
  assumes "emitted s Q t" and "SendPacketToConnection p cp t = Inr t'" and "relayable s p"
  shows "emitted s (insert p Q) (note_sent p cp t')"
proof -
  have same: "same_but_sent s t" and ok: "map_ok (connections t)"
    using assms(1) by (simp_all add: emitted_def)
  have eq: "deref_packet t = deref_packet s"
    using same by (rule same_but_sent_deref)
  obtain N where N: "raws t = raws s + N" "\<forall>(h, data) \<in># N. \<exists>p \<in> Q. hops data + 1 = queued_ttl s p"
    using assms(1) by (auto simp: emitted_def)
  obtain h data where d: "raws t' = add_mset (h, data) (raws t)" "hops data + 1 = queued_ttl s p"
    using SendPacketToConnection_raws [OF assms(2)] assms(3) relayable_cong [OF eq] queued_ttl_cong [OF eq]
    by auto
  have "same_but_sent s (note_sent p cp t')"
    using same SendPacketToConnection_same [OF assms(2) ok] same_but_sent_trans note_sent_same by blast
  moreover have "map_ok (connections (note_sent p cp t'))"
    using SendPacketToConnection_map_ok [OF assms(2) ok] by (simp add: note_sent_def)
  moreover have "raws (note_sent p cp t') = raws s + add_mset (h, data) N"
    using d(1) N(1) by (simp add: raws_def note_sent_def)
  ultimately show ?thesis
    using N(2) d(2) unfolding emitted_def by fastforce
qed

lemma emitted_mono: "emitted s Q t \<Longrightarrow> Q \<subseteq> Q' \<Longrightarrow> emitted s Q' t"
  unfolding emitted_def by fastforce

lemma targeted_loop_emits:
  assumes "targeted_loop ts removed t = Inr (removed', t')" and "emitted s (set removed) t"
    and "\<forall>p \<in> fst ` set ts. relayable s p"
  shows "emitted s (set removed') t' \<and> set removed' \<subseteq> set removed \<union> fst ` set ts"
  using assms
proof (induction ts arbitrary: removed t)
  case (Cons x ts)
  obtain p cp where x: "x = (p, cp)" by (cases x)
  show ?case
  proof (cases "packet_needed t (p, cp) = Inr True")
    case True
    then obtain t1 where t1: "SendPacketToConnection p cp t = Inr t1"
      and rest: "targeted_loop ts (p # removed) (note_sent p cp t1) = Inr (removed', t')"
      using Cons.prems(1) by (auto simp: x)
    have "emitted s (set (p # removed)) (note_sent p cp t1)"
      using emitted_send [OF Cons.prems(2) t1] Cons.prems(3) by (simp add: x)
    from Cons.IH [OF rest this] Cons.prems(3) show ?thesis by (auto simp: x)
  next
    case False
    then have "targeted_loop ts removed t = Inr (removed', t')"
      using Cons.prems(1) by (auto simp: x split: if_splits)
    from Cons.IH [OF this] Cons.prems(2,3) show ?thesis by auto
  qed
qed auto

lemma broadcast_packet_emits:
  assumes "broadcast_packet p t = Inr t'" and "emitted s Q t" and "relayable s p" and "p \<in> Q"
  shows "emitted s Q t'"
  using assms(1) [unfolded broadcast_packet_def] assms(2)
proof (rule fold_result_invariant)
  fix x t t' assume "emitted s Q t" "broadcast_to p x t = Inr t'"
  then show "emitted s Q t'"
    using emitted_send [of s Q t p] assms(3,4)
    by (auto simp: broadcast_to_def insert_absorb split: if_splits)
qed

text \<open>Sending replaces packets that were queued by bytes with one hop less.\<close>

lemma multiset_replaced:
  assumes "M = I + J" and "M' = I + K" and "J \<noteq> {#}" and "\<forall>k \<in># K. \<exists>j \<in># J. k < (j :: nat)"
  shows "(M', M) \<in> mult less_than"
  unfolding assms(1,2) using assms(3,4) by (intro one_step_implies_mult) auto

lemma targeted_loop_removes:
  "targeted_loop ts removed t = Inr (removed', t') \<Longrightarrow> set removed \<subseteq> set removed'"
  by (induction ts arbitrary: removed t) (fastforce split: if_splits)+

lemma sendPackets_emits:
  assumes "tracker_ok s" and "targeted_ok s" and "sendPackets s = Inr s'"
  obtains removed N where "set removed \<subseteq> fst ` set (targeted_packets_to_send_list s)"
    and "deref_packet s' = deref_packet s"
    and "broadcast_packets_to_send_list s' = []"
    and "targeted_packets_to_send_list s' =
      filter (\<lambda>(p, cp). p \<notin> set removed) (targeted_packets_to_send_list s)"
    and "raws s' = raws s + N"
    and "\<forall>(h, data) \<in># N. \<exists>p \<in> set removed \<union> set (broadcast_packets_to_send_list s).
      hops data + 1 = queued_ttl s p"
    and "broadcast_packets_to_send_list s = [] \<Longrightarrow> removed = [] \<Longrightarrow> s' = s"
proof (cases "broadcast_packets_to_send_list s = [] \<and> targeted_packets_to_send_list s = []")
  case True
  with assms(3) show ?thesis by (intro that [of "[]" "{#}"]) (simp_all add: sendPackets_def)
next
  case False
  from sendPackets_stages [OF assms(3) False] obtain removed s1 s3 where
    s1: "targeted_loop (targeted_packets_to_send_list s) [] s = Inr (removed, s1)"
    and s3: "fold_result broadcast_packet (broadcast_packets_to_send_list s1)
      (s1\<lparr>targeted_packets_to_send_list :=
        filter (\<lambda>(p, cp). p \<notin> set removed) (targeted_packets_to_send_list s1)\<rparr>) = Inr s3"
    and s': "s' = s3\<lparr>broadcast_packets_to_send_list :=
        filter (\<lambda>p. p \<notin> set (broadcast_packets_to_send_list s1)) (broadcast_packets_to_send_list s3)\<rparr>"
    by blast
  have conns: "map_ok (connections s)" using assms(1) by (simp add: tracker_ok_defs)
  have e1: "emitted s (set removed) s1" and removed: "set removed \<subseteq> fst ` set (targeted_packets_to_send_list s)"
    using targeted_loop_emits [OF s1 emitted_refl [OF conns]] assms(2) by (auto simp: targeted_ok_def)
  let ?s2 = "s1\<lparr>targeted_packets_to_send_list :=
      filter (\<lambda>(p, cp). p \<notin> set removed) (targeted_packets_to_send_list s1)\<rparr>"
  let ?Q = "set (broadcast_packets_to_send_list s)"
  have same: "same_but_sent s s1" and ok1: "map_ok (connections s1)"
    using e1 by (simp_all add: emitted_def)
  have d2: "deref_packet ?s2 = deref_packet s" using same_but_sent_deref [OF same] by simp
  have q: "broadcast_packets_to_send_list s1 = broadcast_packets_to_send_list s"
    "targeted_packets_to_send_list s1 = targeted_packets_to_send_list s"
    using same by (simp_all add: same_but_sent_def)
  have "emitted ?s2 ?Q s3"
    using s3
  proof (rule fold_result_invariant)
    show "emitted ?s2 ?Q ?s2" using ok1 by (intro emitted_refl) simp
    fix p t t' assume "p \<in> set (broadcast_packets_to_send_list s1)" "emitted ?s2 ?Q t" "broadcast_packet p t = Inr t'"
    moreover have "relayable ?s2 p" if "p \<in> ?Q" for p
      using assms(1) that relayable_cong [OF d2] by (auto simp: tracker_ok_def queues_ok_def)
    ultimately show "emitted ?s2 ?Q t'" using broadcast_packet_emits q(1) by simp
  qed
  then obtain N2 where N2: "same_but_sent ?s2 s3" "raws s3 = raws ?s2 + N2"
    "\<forall>(h, data) \<in># N2. \<exists>p \<in> ?Q. hops data + 1 = queued_ttl s p"
    unfolding emitted_def queued_ttl_cong [OF d2] by blast
  obtain N1 where N1: "raws s1 = raws s + N1"
    "\<forall>(h, data) \<in># N1. \<exists>p \<in> set removed. hops data + 1 = queued_ttl s p"
    using e1 by (auto simp: emitted_def)
  show ?thesis
  proof (rule that [of removed "N1 + N2"])
    show "set removed \<subseteq> fst ` set (targeted_packets_to_send_list s)" by (rule removed)
    show "deref_packet s' = deref_packet s"
      using same_but_sent_deref [OF N2(1)] d2 by (simp add: s')
    show "broadcast_packets_to_send_list s' = []"
      using N2(1) q(1) by (simp add: s' same_but_sent_def)
    show "targeted_packets_to_send_list s' =
        filter (\<lambda>(p, cp). p \<notin> set removed) (targeted_packets_to_send_list s)"
      using N2(1) q(2) by (simp add: s' same_but_sent_def)
    show "raws s' = raws s + (N1 + N2)"
      using N1(1) N2(2) by (simp add: s' raws_def)
    show "\<forall>(h, data) \<in># N1 + N2. \<exists>p \<in> set removed \<union> ?Q. hops data + 1 = queued_ttl s p"
      using N1(2) N2(3) by fastforce
    assume none: "broadcast_packets_to_send_list s = []" "removed = []"
    have "s1 = s" if "targeted_loop ts [] s = Inr ([], s1)" for ts
      using that targeted_loop_removes by (induction ts) (fastforce split: if_splits)+
    then have "s1 = s" using s1 none by simp
    then show "s' = s" using s3 none by (auto simp: s')
  qed
qed

lemma image_mset_elem: "x \<in># M \<Longrightarrow> f x \<in># image_mset f M"
  by simp

lemma mset_filter_keys:
  "image_mset fst (filter_mset (\<lambda>(p, v). P p) M) = filter_mset P (image_mset fst M)"
  by (induction M) auto

lemma sendPackets_load:
  assumes "tracker_ok s" and "targeted_ok s" and "sendPackets s = Inr s'" and "s' \<noteq> s"
  shows "targeted_ok s' \<and> (load s', load s) \<in> mult less_than"
proof -
  from sendPackets_emits [OF assms(1-3)] obtain removed N where
    removed: "set removed \<subseteq> fst ` set (targeted_packets_to_send_list s)"
    and deref: "deref_packet s' = deref_packet s"
    and b: "broadcast_packets_to_send_list s' = []"
    and t: "targeted_packets_to_send_list s' =
      filter (\<lambda>(p, cp). p \<notin> set removed) (targeted_packets_to_send_list s)"
    and raw: "raws s' = raws s + N"
    and N: "\<forall>(h, data) \<in># N. \<exists>p \<in> set removed \<union> set (broadcast_packets_to_send_list s).
      hops data + 1 = queued_ttl s p"
    and none: "broadcast_packets_to_send_list s = [] \<Longrightarrow> removed = [] \<Longrightarrow> s' = s" by blast
  let ?T = "mset (map fst (targeted_packets_to_send_list s))"
  let ?B = "mset (broadcast_packets_to_send_list s)"
  let ?I = "{#2 * queued_ttl s p. p \<in># filter_mset (\<lambda>p. p \<notin> set removed) ?T#} +
    {#2 * hops data + 1. (h, data) \<in># raws s#}"
  let ?J = "{#2 * queued_ttl s p. p \<in># ?B + filter_mset (\<lambda>p. p \<in> set removed) ?T#}"
  let ?K = "{#2 * hops data + 1. (h, data) \<in># N#}"
  have split: "queued s = filter_mset (\<lambda>p. p \<notin> set removed) ?T + (?B + filter_mset (\<lambda>p. p \<in> set removed) ?T)"
    unfolding queued_def using multiset_partition [of ?T "\<lambda>p. p \<in> set removed"] by (simp add: ac_simps)
  have "load s = ?I + ?J"
    unfolding load_def split by (simp only: image_mset_union ac_simps)
  moreover have "queued s' = filter_mset (\<lambda>p. p \<notin> set removed) ?T"
    by (simp add: queued_def b t mset_filter_keys)
  then have "load s' = ?I + ?K"
    unfolding load_def queued_ttl_cong [OF deref] raw by (simp add: ac_simps)
  moreover have "?J \<noteq> {#}"
  proof (cases "broadcast_packets_to_send_list s")
    case Nil
    then obtain p where "p \<in> set removed"
      using none assms(4) by (cases removed) auto
    then have "p \<in># filter_mset (\<lambda>p. p \<in> set removed) ?T" using removed by auto
    then show ?thesis by auto
  qed simp
  moreover have "\<forall>k \<in># ?K. \<exists>j \<in># ?J. k < j"
  proof
    fix k assume "k \<in># ?K"
    then obtain h data where "(h, data) \<in># N" and k: "k = 2 * hops data + 1" by auto
    then obtain p where p: "p \<in> set removed \<union> set (broadcast_packets_to_send_list s)"
      "hops data + 1 = queued_ttl s p" using N by blast
    then have "p \<in># ?B + filter_mset (\<lambda>p. p \<in> set removed) ?T" using removed by auto
    then have "2 * queued_ttl s p \<in># ?J" by (rule image_mset_elem)
    moreover have "k < 2 * queued_ttl s p" using p(2) k by linarith
    ultimately show "\<exists>j \<in># ?J. k < j" by blast
  qed
  ultimately have "(load s', load s) \<in> mult less_than"
    by (rule multiset_replaced)
  moreover have "targeted_ok s'"
    using assms(2) relayable_cong [OF deref] by (auto simp: targeted_ok_def t)
  ultimately show ?thesis by simp
qed

subsection \<open>Handing bytes to the stack\<close>

lemma mset_erase_first:
  assumes "multi_lower h q = x # rest"
  shows "mset q = add_mset x (mset (erase_first h q))"
proof -
  have "mset q = mset (takeWhile (\<lambda>(h', v). h' < h) q) + mset (multi_lower h q)"
    unfolding multi_lower_def by (metis mset_append takeWhile_dropWhile_id)
  then show ?thesis using assms by (simp add: erase_first_def)
qed

lemma stack_takes_load:
  assumes "taken w (connection_tracker r) = (h, data # rest)" and "handle_event pf t (ready w) r = Inr r'"
  shows "load (connection_tracker r) = add_mset (2 * hops data + 1) (load (connection_tracker r')) \<and>
    (targeted_ok (connection_tracker r) \<longrightarrow> targeted_ok (connection_tracker r'))"
proof -
  let ?s = "connection_tracker r" and ?s' = "connection_tracker r'"
  obtain x where x: "raws ?s = add_mset (x, data) (raws ?s')"
    and deref: "deref_packet ?s' = deref_packet ?s"
    and q: "broadcast_packets_to_send_list ?s' = broadcast_packets_to_send_list ?s"
      "targeted_packets_to_send_list ?s' = targeted_packets_to_send_list ?s"
  proof (cases w)
    case By_write
    then obtain x tl where "multi_lower (write_context ?s) (raw_packet_to_write ?s) = (x, data) # tl"
      using assms(1) by auto
    with By_write assms(2) that [of x] show ?thesis
      by (auto simp: bitchat_can_write_without_response_handler_def writeRawPacket_def Let_def raws_def
          call_stack_def update_connection_def mset_erase_first split: if_splits)
  next
    case By_notification
    then obtain x tl where "multi_lower (notify_context ?s) (raw_packet_to_notify ?s) = (x, data) # tl"
      using assms(1) by auto
    with By_notification assms(2) that [of x] show ?thesis
      by (auto simp: bitchat_can_send_notification_handler_def notifyRawPacket_def Let_def raws_def
          call_stack_def update_connection_def mset_erase_first split: if_splits)
  qed
  then show ?thesis
    by (simp add: load_def queued_def queued_ttl_cong [OF deref] targeted_ok_def relayable_cong [OF deref])
qed

subsection \<open>Receiving\<close>

text \<open>What arrives is queued at most once, at the new node, with the hops its bytes say.\<close>

definition gains :: "addr \<Rightarrow> nat \<Rightarrow> tracker \<Rightarrow> tracker \<Rightarrow> bool" where
  "gains a n s s' \<longleftrightarrow>
     raws s' = raws s \<and> targeted_packets_to_send_list s' = targeted_packets_to_send_list s \<and>
     (\<forall>q \<in> set (live_addresses s). deref_packet s' q = deref_packet s q) \<and>
     (broadcast_packets_to_send_list s' = broadcast_packets_to_send_list s \<or>
      broadcast_packets_to_send_list s' = broadcast_packets_to_send_list s @ [a] \<and> queued_ttl s' a = n)"

lemma gains_load:
  assumes "tracker_ok s" and "targeted_ok s" and "gains a n s s'"
  shows "targeted_ok s' \<and> (load s' = load s \<or> load s' = add_mset (2 * n) (load s))"
proof -
  have ttl: "queued_ttl s' p = queued_ttl s p" if "p \<in># queued s" for p
    using relayable_live [OF queue_relayable [OF assms(1,2) that]] assms(3)
    by (simp add: gains_def queued_ttl_def)
  then have same: "{#2 * queued_ttl s' p. p \<in># queued s#} = {#2 * queued_ttl s p. p \<in># queued s#}"
    by (intro image_mset_cong) simp
  have "targeted_ok s'"
    using assms(2,3) ttl by (auto simp: targeted_ok_def gains_def relayable_iff queued_def)
  moreover have "queued s' = queued s \<or> queued s' = add_mset a (queued s) \<and> queued_ttl s' a = n"
    using assms(3) by (auto simp: gains_def queued_def)
  ultimately show ?thesis
    using assms(3) same by (auto simp: load_def gains_def)
qed

lemma gains_frame:
  assumes "raws s' = raws s" and "targeted_packets_to_send_list s' = targeted_packets_to_send_list s"
    and "deref_packet s' = deref_packet s"
    and "broadcast_packets_to_send_list s' = broadcast_packets_to_send_list s"
  shows "gains a n s s'"
  using assms by (simp add: gains_def)

lemma gains_trans:
  assumes "raws s1 = raws s" and "targeted_packets_to_send_list s1 = targeted_packets_to_send_list s"
    and "deref_packet s1 = deref_packet s"
    and "broadcast_packets_to_send_list s1 = broadcast_packets_to_send_list s" and "gains a n s1 s2"
  shows "gains a n s s2"
proof -
  have "set (live_addresses s1) = set (live_addresses s)"
    unfolding set_eq_iff using deref_live [of s1] deref_live [of s] assms(3) by auto
  then show ?thesis using assms by (simp add: gains_def)
qed

lemma enqueueBroadcastPacketFrom_gains:
  assumes "enqueueBroadcastPacketFrom a cp k s1 = Inr s'" and "fresh a s"
    and "deref_packet s1 = (deref_packet s)(a := Inr pk)" and "unat (packet_ttl (base pk)) = n"
    and "raws s1 = raws s" and "targeted_packets_to_send_list s1 = targeted_packets_to_send_list s"
    and "broadcast_packets_to_send_list s1 = broadcast_packets_to_send_list s"
  shows "gains a n s s'"
  using assms
  by (auto simp: enqueueBroadcastPacketFrom_def enqueueBroadcastPacket_def gains_def queued_ttl_def raws_def
      split: if_splits)

lemma checkSenderInPeers_frames [simp]:
  "raws (checkSenderInPeers k s) = raws s" "deref_packet (checkSenderInPeers k s) = deref_packet s"
  "targeted_packets_to_send_list (checkSenderInPeers k s) = targeted_packets_to_send_list s"
  by (simp_all add: checkSenderInPeers_def raws_def)

lemma pass_packet_along_gains:
  assumes "pass_packet_along std_hash a cp p s = Inr s'" and "fresh a s"
  shows "gains a (unat (parsed_ttl p)) s s'"
proof -
  let ?s = "checkSenderInPeers (parsed_sender p) s"
  let ?k = "getPacketHash std_hash (parsed_pass_along p)"
  let ?s1 = "?s\<lparr>packets := map_put ?k (a, parsed_pass_along p) (packets ?s)\<rparr>"
  show ?thesis
  proof (cases "parsed_ttl p < 1 \<or> map_of (packets ?s) ?k \<noteq> None")
    case True
    then have "s' = s \<or> s' = ?s"
      using assms(1) by (auto simp: pass_packet_along_def storePacketAndReturnIfNew_def Let_def split: if_splits)
    then show ?thesis by (auto intro: gains_frame)
  next
    case False
    then have 3: "map_of (packets ?s) ?k = None"
      "enqueueBroadcastPacketFrom a cp (parsed_sender p) ?s1 = Inr s'"
      using assms(1) by (simp_all add: pass_packet_along_def storePacketAndReturnIfNew_def Let_def
        del: not_None_eq)
    have "deref_packet (?s\<lparr>packets := map_put ?k (a, parsed_pass_along p) (packets ?s)\<rparr>) =
        (deref_packet s)(a := Inr (PassAlongPacket (parsed_pass_along p)))"
      using deref_stored_packet [OF 3(1), of a] assms(2) by simp
    from enqueueBroadcastPacketFrom_gains [OF 3(2) assms(2) this] show ?thesis
      by (simp add: parsed_pass_along_def new_packet_defs packet_setters raws_def checkSenderInPeers_def)
  qed
qed

lemma receive_message_gains:
  assumes "receive_message a cp p s = Inr s'" and "fresh a s"
  shows "gains a (unat (parsed_ttl p)) s s'"
proof -
  let ?s = "checkSenderInPeers (parsed_sender p) s"
  obtain ok m s2 where pm: "processMessage (parsed_message p) (parsed_payload p) ?s = (ok, m, s2)"
    by (metis prod_cases3)
  have s2: "s2 = ?s\<lparr>peers := peers s2\<rparr>"
    and base: "packet_base.truncate m = packet_base.truncate (parsed_message p)"
    using processMessage_frame [OF pm] by simp_all
  have frames: "raws s2 = raws s" "targeted_packets_to_send_list s2 = targeted_packets_to_send_list s"
    "deref_packet s2 = deref_packet s" "broadcast_packets_to_send_list s2 = broadcast_packets_to_send_list s"
    "live_addresses s2 = live_addresses s"
    by (subst s2, simp add: raws_def checkSenderInPeers_def)+
  let ?s3 = "s2\<lparr>messages := map_put (message_id m) (a, m) (messages s2)\<rparr>"
  show ?thesis
  proof (cases "\<not> ok \<or> map_of (messages s2) (message_id m) \<noteq> None")
    case True
    then have "s' = s2"
      using assms(1) pm by (auto simp: receive_message_def storeMessageAndReturnIfNew_def split: if_splits)
    then show ?thesis using frames by (intro gains_frame) simp_all
  next
    case False
    then have 2: "map_of (messages s2) (message_id m) = None"
      "enqueueBroadcastPacketFrom a cp (parsed_sender p) ?s3 = Inr s'"
      using assms(1) pm by (simp_all add: receive_message_def storeMessageAndReturnIfNew_def del: not_None_eq)
    have "deref_packet (s2\<lparr>messages := map_put (message_id m) (a, m) (messages s2)\<rparr>) =
        (deref_packet s)(a := Inr (MessagePacket m))"
      using deref_stored_message [OF 2(1), of a] assms(2) frames by simp
    moreover have "packet_ttl m = parsed_ttl p"
      using base by (simp add: packet_base.defs parsed_message_def new_packet_defs)
    ultimately show ?thesis
      using enqueueBroadcastPacketFrom_gains [OF 2(2) assms(2)] frames by (simp add: raws_def)
  qed
qed

lemma dispatch_packet_gains:
  assumes "dispatch_packet std_hash now a cp h p s = Inr s'" and "fresh a s"
  shows "gains a (unat (parsed_ttl p)) s s'"
proof -
  have noise: "gains a n s (updateOrStorePeerNoisePublicKey k key s)" for n k key
    by (rule gains_frame)
      (simp_all add: updateOrStorePeerNoisePublicKey_def update_peer_def raws_def checkSenderInPeers_def
        split: option.split)
  have announce: "gains a n s s2"
    if "receive_announce now h p s = Inr s1" "pass_packet_along std_hash a cp p s1 = Inr s2"
      "n = unat (parsed_ttl p)" for s1 s2 n
  proof (rule gains_trans)
    show "gains a n s1 s2"
      using pass_packet_along_gains [OF that(2)] live_receive_announce [OF that(1)] assms(2) that(3) by simp
    show "raws s1 = raws s" "targeted_packets_to_send_list s1 = targeted_packets_to_send_list s"
      "deref_packet s1 = deref_packet s" "broadcast_packets_to_send_list s1 = broadcast_packets_to_send_list s"
      using that(1)
      by (auto simp: receive_announce_def possiblyUpdateTimeOffset_def updateOrStorePeerName_def
          update_peer_def raws_def setConnectionHandleForPeer_def Let_def checkSenderInPeers_def
          split: option.splits if_splits)
  qed
  show ?thesis
    using assms noise announce pass_packet_along_gains receive_message_gains gains_frame [of s s]
    by (auto simp: dispatch_packet_def split: option.splits if_splits)
qed

lemma parsed_ttl_hops:
  assumes "parse_packet zlib 0 data = Inr (Some p)"
  shows "unat (parsed_ttl p) = hops data"
proof -
  define r where "r = new_BinaryReader 0 data"
  have "parsed_ttl p = fst (read_uint8 (snd (read_uint8 (snd (read_uint8 r)))))"
    using assms
    by (auto simp: parse_packet_def Let_def r_def [symmetric] split: prod.splits if_splits option.splits)
  then show ?thesis
    by (auto simp: r_def new_BinaryReader_def read_uint8_def advance_def hops_def numeral_2_eq_2)
qed

lemma processWrite_gains:
  assumes "processWrite zlib std_hash now a cp h 0 data s = Inr s'" and "fresh a s"
  shows "gains a (hops data) s s'"
  using assms dispatch_packet_gains parsed_ttl_hops gains_frame [of s s]
  by (fastforce simp: processWrite_def split: option.splits)

lemma connectionForConnHandle_frames [simp]:
  "raws (connectionForConnHandle h s) = raws s"
  "deref_packet (connectionForConnHandle h s) = deref_packet s"
  "broadcast_packets_to_send_list (connectionForConnHandle h s) = broadcast_packets_to_send_list s"
  "targeted_packets_to_send_list (connectionForConnHandle h s) = targeted_packets_to_send_list s"
  by (simp_all add: connectionForConnHandle_def update_connection_def raws_def)

lemma arrival_gains:
  assumes "handle_event pf t (arrives pf w g data) r = Inr r'" and "fresh (new_node t) (connection_tracker r)"
  shows "gains (new_node t) (hops data) (connection_tracker r) (connection_tracker r')"
proof (rule gains_trans)
  let ?s = "connectionForConnHandle g (connection_tracker r)"
  have configure: "gains a n ?s s'" if "configure_notifications pf g data ?s = Inr s'" for a n s'
    using that by (intro gains_frame)
      (auto simp: configure_notifications_def Let_def update_connection_def raws_def split: if_splits)
  have fresh: "fresh (new_node t) ?s" using assms(2) by simp
  show "gains (new_node t) (hops data) ?s (connection_tracker r')"
    using assms(1) configure processWrite_gains [OF _ fresh]
    by (cases w) (auto simp: att_write_callback_def handle_gatt_client_value_update_event_def Let_def
        split: if_splits)
qed simp_all

section \<open>Every run ends\<close>

lemma mesh_load_update:
  assumes "i < length net"
  shows "\<exists>M. mesh_load net = M + load (connection_tracker (net ! i)) \<and>
    (\<forall>r. mesh_load (net[i := r]) = M + load (connection_tracker r))"
proof -
  have "net = take i net @ net ! i # drop (Suc i) net"
    using assms by (rule id_take_nth_drop)
  moreover have "net[i := r] = take i net @ r # drop (Suc i) net" for r
    using assms by (rule upd_conv_take_nth_drop)
  ultimately show ?thesis
    by (intro exI [of _ "mesh_load (take i net) + mesh_load (drop (Suc i) net)"])
      (metis (no_types, lifting) mesh_load_def add.commute add.left_commute list.simps(9) map_append
        sum_list.Cons sum_list.append)
qed

lemma mesh_ok_update:
  assumes "mesh_ok net" and "tracker_ok (connection_tracker r)" and "targeted_ok (connection_tracker r)"
  shows "mesh_ok (net[i := r])"
  using assms set_update_subset_insert [of net i r] by (auto simp: mesh_ok_def)

lemma mult_add_left: "(K, J) \<in> mult less_than \<Longrightarrow> (I + K, I + J) \<in> mult (less_than :: (nat \<times> nat) set)"
  using mult_cancel [of less_than I K J] by (simp add: add.commute irrefl_on_def)

lemma stack_takes_ok:
  assumes "handle_event pf t (ready w) r = Inr r'" and "tracker_ok (connection_tracker r)"
  shows "tracker_ok (connection_tracker r')"
  using assms notifyRawPacket_keeps_ok writeRawPacket_keeps_ok
  by (cases w) (auto simp: bitchat_can_send_notification_handler_def
      bitchat_can_write_without_response_handler_def)

lemma mesh_okD:
  "mesh_ok net \<Longrightarrow> i < length net \<Longrightarrow>
     tracker_ok (connection_tracker (net ! i)) \<and> targeted_ok (connection_tracker (net ! i))"
  by (simp add: mesh_ok_def)

text \<open>Handing bytes to the stack takes them off the mesh's load.\<close>

lemma mesh_takes:
  assumes "mesh_ok net" and "i < length net" and "taken w (connection_tracker (net ! i)) = (h, data # rest)"
    and "handle_event pf t (ready w) (net ! i) = Inr r"
  shows "mesh_ok (net[i := r]) \<and> mesh_load net = add_mset (2 * hops data + 1) (mesh_load (net[i := r]))"
proof -
  note load = stack_takes_load [OF assms(3,4)]
  note ok = mesh_okD [OF assms(1,2)]
  obtain M where "mesh_load net = M + load (connection_tracker (net ! i))"
    "mesh_load (net[i := r]) = M + load (connection_tracker r)"
    using mesh_load_update [OF assms(2)] by blast
  moreover have "mesh_ok (net[i := r])"
    using mesh_ok_update [OF assms(1)] stack_takes_ok [OF assms(4)] ok load by blast
  ultimately show ?thesis using load by simp
qed

lemma mesh_step_decreases:
  assumes "mesh_step pf link net net'" and "mesh_ok net"
  shows "mesh_ok net' \<and> (mesh_load net', mesh_load net) \<in> mult less_than"
  using assms
proof (induction rule: mesh_step.induct)
  case (send i net r)
  let ?s = "connection_tracker (net ! i)" and ?s' = "connection_tracker r"
  have s: "tracker_ok ?s" "targeted_ok ?s" using mesh_okD [OF send.prems send.hyps(1)] by auto
  have s': "sendPackets ?s = Inr ?s'" "?s' \<noteq> ?s" using send.hyps(2,3) by auto
  note load = sendPackets_load [OF s s']
  obtain M where "mesh_load net = M + load ?s" "mesh_load (net[i := r]) = M + load ?s'"
    using mesh_load_update [OF send.hyps(1)] by blast
  moreover have "mesh_ok (net[i := r])"
    using mesh_ok_update [OF send.prems] sendPackets_keeps_ok [OF s'(1) s(1)] load by blast
  ultimately show ?case using load mult_add_left by auto
next
  case (lose i net w h data rest t r)
  from mesh_takes [OF lose.prems lose.hyps] show ?case
    using multiset_replaced [of "mesh_load net" "mesh_load (net[i := r])" "{#2 * hops data + 1#}" _ "{#}"]
    by simp
next
  case (deliver i net w h data rest t r j g t' r')
  let ?net = "net[i := r]"
  have net: "mesh_ok ?net" "mesh_load net = add_mset (2 * hops data + 1) (mesh_load ?net)"
    using mesh_takes [OF deliver.prems deliver.hyps(1-3)] by auto
  have j: "j < length ?net" using deliver.hyps(5) by simp
  have ok: "tracker_ok (connection_tracker (?net ! j))" "targeted_ok (connection_tracker (?net ! j))"
    using mesh_okD [OF net(1) j] by auto
  note gain = gains_load [OF ok arrival_gains [OF deliver.hyps(7,6)]]
  have "mesh_ok (?net[j := r'])"
    using mesh_ok_update [OF net(1)] callbacks_keep_ok [OF ok(1) deliver.hyps(6,7)] gain by blast
  moreover obtain M where "mesh_load ?net = M + load (connection_tracker (?net ! j))"
    "mesh_load (?net[j := r']) = M + load (connection_tracker r')"
    using mesh_load_update [OF j] by blast
  then have "\<exists>K. mesh_load (?net[j := r']) = mesh_load ?net + K \<and> (\<forall>k \<in># K. k < 2 * hops data + 1)"
    using gain by (auto intro: exI [of _ "{#}"] exI [of _ "{#2 * hops data#}"])
  then have "(mesh_load (?net[j := r']), mesh_load net) \<in> mult less_than"
    using net(2) multiset_replaced [of "mesh_load net" "mesh_load ?net" "{#2 * hops data + 1#}"] by auto
  ultimately show ?case by simp
qed

section \<open>Properties\<close>

text \<open>
  C2: the mesh falls silent. However repeaters are connected, and in whatever order they send, packets
  arrive or get lost, without new traffic there is no endless run: every packet a repeater sends has
  one hop less than when it arrived.
\<close>

theorem mesh_falls_silent:
  assumes "mesh_ok net"
  shows "\<not> (\<exists>run. run 0 = net \<and> (\<forall>n. mesh_step pf link (run n) (run (Suc n))))"
proof
  assume "\<exists>run. run 0 = net \<and> (\<forall>n. mesh_step pf link (run n) (run (Suc n)))"
  then obtain run where "run 0 = net" and steps: "\<And>n. mesh_step pf link (run n) (run (Suc n))" by blast
  then have "mesh_ok (run n)" for n
    using assms mesh_step_decreases by (induction n) blast+
  then have "(mesh_load (run (Suc n)), mesh_load (run n)) \<in> mult less_than" for n
    using mesh_step_decreases [OF steps] by blast
  moreover have "wf (mult (less_than :: (nat \<times> nat) set))" by (intro wf_mult wf_less_than)
  ultimately show False
    using wf_no_infinite_down_chainE [of "mult less_than" "\<lambda>n. mesh_load (run n)"] by blast
qed

text \<open>Two repeaters with the sample tracker, connected to each other by connection 65.\<close>

definition sample_repeater :: repeater where
  "sample_repeater = (initial_repeater 1)\<lparr>connection_tracker := sample_tracker\<rparr>"

definition sample_link :: "nat \<Rightarrow> u16 \<Rightarrow> (nat \<times> u16) option" where
  "sample_link i h = (if h = 65 then Some (1 - i, 65) else None)"

lemma sample_mesh_ok: "mesh_ok [sample_repeater, sample_repeater]"
  using sample_tracker_ok
  by (simp add: mesh_ok_def targeted_ok_def sample_repeater_def) (simp add: sample_tracker_def new_tracker_def)

lemma sample_mesh_steps:
  "\<exists>net. mesh_step pf sample_link [sample_repeater, sample_repeater] net"
proof -
  obtain s' where s': "sendPackets sample_tracker = Inr s'"
    using sample_tracker_sends by blast
  have "targeted_ok sample_tracker"
    using sample_mesh_ok by (simp add: mesh_ok_def sample_repeater_def)
  from sendPackets_emits [OF conjunct1 [OF sample_tracker_ok] this s']
  have "broadcast_packets_to_send_list s' = []" by blast
  then have "s' \<noteq> sample_tracker" by (auto simp: sample_tracker_def)
  then have "sample_repeater\<lparr>connection_tracker := s'\<rparr> \<noteq> sample_repeater"
    by (metis repeater.select_convs(9) repeater.surjective repeater.update_convs(9) sample_repeater_def)
  then show ?thesis
    using mesh_step.send [of 0 "[sample_repeater, sample_repeater]" "sample_repeater\<lparr>connection_tracker := s'\<rparr>"]
      s' by (auto simp: sample_repeater_def)
qed

theorem mesh_falls_silent_witness:
  "(\<exists>net. mesh_step sample_platform sample_link [sample_repeater, sample_repeater] net) \<and>
   \<not> (\<exists>run. run 0 = [sample_repeater, sample_repeater] \<and>
        (\<forall>n. mesh_step sample_platform sample_link (run n) (run (Suc n))))"
  using sample_mesh_steps mesh_falls_silent [OF sample_mesh_ok] by blast

end
