(* ===== verification/Dumps.thy ===== *)
theory Dumps
  imports Program Diagnostics
begin

text \<open>
  The dumps of \<open>main.cpp\<close> for debugging: \<open>dump_advertisement_data\<close> prints the elements of an advertisement,
  \<open>dump_service\<close> and \<open>dump_characteristic\<close> what a query found. Their calls are commented out. A dump is a
  sequence of texts, each of which may need a read outside the received bytes; the log is written as far
  as the reads go.
\<close>

section \<open>The stack\<close>

text \<open>
  What the dumps use of the stack beside \<open>platform\<close>: further type codes, its readers and its texts. For
  each element of an advertisement \<open>ad_entries\<close> gives the type, the length and the memory from its data
  on. \<open>PRIx32\<close> is a decimal conversion in \<open>include/int_types.h\<close> and a hexadecimal one in \<open>cinttypes\<close>; the
  radix says which one is in force.
\<close>

record dump_platform = platform +
  DATA_TYPE_INCOMPLETE_16 :: u8
  DATA_TYPE_COMPLETE_16 :: u8
  DATA_TYPE_SOLICITATION_16 :: u8
  DATA_TYPE_INCOMPLETE_32 :: u8
  DATA_TYPE_COMPLETE_32 :: u8
  DATA_TYPE_SOLICITATION_32 :: u8
  DATA_TYPE_TX_POWER_LEVEL :: u8
  DATA_TYPE_CONNECTION_INTERVAL_RANGE :: u8
  DATA_TYPE_SERVICE_DATA :: u8
  DATA_TYPE_PUBLIC_TARGET_ADDRESS :: u8
  DATA_TYPE_RANDOM_TARGET_ADDRESS :: u8
  DATA_TYPE_APPEARANCE :: u8
  DATA_TYPE_ADVERTISING_INTERVAL :: u8
  DATA_TYPE_3D_INFORMATION :: u8
  ad_entries :: "bytes \<Rightarrow> (u8 \<times> u8 \<times> bytes) list"
  little_endian_read_32 :: "bytes \<Rightarrow> nat \<Rightarrow> u32 result"
  reverse_128 :: "bytes \<Rightarrow> bytes result"
  reverse_bd_addr :: "bytes \<Rightarrow> bytes result"
  uuid128_to_str :: "bytes \<Rightarrow> bytes"
  bd_addr_to_str :: "bytes \<Rightarrow> bytes"
  PRIx32_radix :: nat

record dumped_characteristic = gatt_characteristic +
  start_handle :: u16
  end_handle :: u16
  characteristic_properties :: u16

section \<open>Conversions\<close>

text \<open>\<open>%X\<close>, a width without zeros, and \<open>%d\<close>.\<close>

definition upper :: "bytes \<Rightarrow> bytes" where
  "upper text = map (\<lambda>c. if 97 \<le> c then c - 32 else c) text"

definition space_padded :: "nat \<Rightarrow> bytes \<Rightarrow> bytes" where
  "space_padded w text = replicate (w - length text) 32 @ text"

definition signed_digits :: "int \<Rightarrow> bytes" where
  "signed_digits i = (if i < 0 then [45] else []) @ digits 10 (nat \<bar>i\<bar>)"

text \<open>Texts that may need a read outside the memory, written up to the first that does.\<close>

definition log_results :: "bytes result list \<Rightarrow> circular_buffer \<Rightarrow> circular_buffer result" where
  "log_results = fold_result (\<lambda>r b. bind_result r (\<lambda>text. writeF text b))"

definition data_byte :: "bytes \<Rightarrow> nat \<Rightarrow> u8 result" where
  "data_byte data i = (if i < length data then Inr (data ! i) else Inl OutOfBounds)"

definition format :: "('a \<Rightarrow> bytes) \<Rightarrow> 'a result \<Rightarrow> bytes result" where
  "format f r = bind_result r (\<lambda>v. Inr (f v))"

section \<open>Advertisements\<close>

definition ad_types :: "string list" where
  "ad_types =
     ['''', ''Flags'',
      ''Incomplete List of 16-bit Service Class UUIDs'',
      ''Complete List of 16-bit Service Class UUIDs'',
      ''Incomplete List of 32-bit Service Class UUIDs'',
      ''Complete List of 32-bit Service Class UUIDs'',
      ''Incomplete List of 128-bit Service Class UUIDs'',
      ''Complete List of 128-bit Service Class UUIDs'',
      ''Shortened Local Name'', ''Complete Local Name'', ''Tx Power Level'', '''', '''',
      ''Class of Device'', ''Simple Pairing Hash C'', ''Simple Pairing Randomizer R'', ''Device ID'',
      ''Security Manager TK Value'', ''Slave Connection Interval Range'', '''',
      ''List of 16-bit Service Solicitation UUIDs'', ''List of 128-bit Service Solicitation UUIDs'',
      ''Service Data'', ''Public Target Address'', ''Random Target Address'', ''Appearance'',
      ''Advertising Interval'']"

definition flags :: "string list" where
  "flags =
     [''LE Limited Discoverable Mode'', ''LE General Discoverable Mode'', ''BR/EDR Not Supported'',
      ''Simultaneous LE and BR/EDR to Same Device Capable (Controller)'',
      ''Simultaneous LE and BR/EDR to Same Device Capable (Host)'',
      ''Reserved'', ''Reserved'', ''Reserved'']"

text \<open>The indices of \<open>for (i = 0; i < size; i += k)\<close>.\<close>

definition every :: "nat \<Rightarrow> u8 \<Rightarrow> nat list" where
  "every k len = filter (\<lambda>i. k dvd i) [0..<unat len]"

definition heading :: "u8 \<Rightarrow> bytes result list" where
  "heading data_type =
     (if 0 < data_type \<and> data_type < 0x1B
      then [Inr (lit ''    '' @ lit (ad_types ! unat data_type) @ lit '': '')] else [])"

definition flag_text :: "bytes \<Rightarrow> nat \<Rightarrow> bytes result list" where
  "flag_text data i =
     (case data_byte data 0 of
        Inl e \<Rightarrow> [Inl e]
      | Inr c \<Rightarrow> if c AND push_bit i 1 \<noteq> 0 then [Inr (lit (flags ! i) @ lit ''; '')] else [])"

definition entry_body :: "dump_platform \<Rightarrow> u8 \<times> u8 \<times> bytes \<Rightarrow> bytes result list" where
  "entry_body pf = (\<lambda>(data_type, len, data).
     if data_type = DATA_TYPE_FLAGS pf then concat (map (flag_text data) [0..<8])
     else if data_type \<in> {DATA_TYPE_INCOMPLETE_16 pf, DATA_TYPE_COMPLETE_16 pf, DATA_TYPE_SOLICITATION_16 pf}
     then map (\<lambda>i. format (\<lambda>v. zero_padded 4 (upper (digits 16 (unat v))) @ lit '' '')
            (little_endian_read_16 pf data i)) (every 2 len)
     else if data_type \<in> {DATA_TYPE_INCOMPLETE_32 pf, DATA_TYPE_COMPLETE_32 pf, DATA_TYPE_SOLICITATION_32 pf}
     then map (\<lambda>i. format (\<lambda>v. zero_padded 4 (digits (PRIx32_radix pf) (unat v)))
            (little_endian_read_32 pf data i)) (every 4 len)
     else if data_type \<in> {DATA_TYPE_INCOMPLETE_UUIDS pf, DATA_TYPE_COMPLETE_UUIDS pf,
                           DATA_TYPE_SOLICITATION_UUIDS pf}
     then [format (uuid128_to_str pf) (reverse_128 pf data)]
     else if data_type \<in> {DATA_TYPE_SHORTENED_NAME pf, DATA_TYPE_COMPLETE_NAME pf}
     then map (\<lambda>i. format (\<lambda>c. [c]) (data_byte data i)) (every 1 len)
     else if data_type = DATA_TYPE_TX_POWER_LEVEL pf
     then [format (\<lambda>c. signed_digits (sint c) @ lit '' dBm'') (data_byte data 0)]
     else if data_type = DATA_TYPE_CONNECTION_INTERVAL_RANGE pf
     then [bind_result (little_endian_read_16 pf data 0) (\<lambda>least.
             format (\<lambda>most. lit ''Connection Interval Min = '' @ digits 10 (unat least * 5 div 4) @
               lit '' ms, Max = '' @ digits 10 (unat most * 5 div 4) @ lit '' ms'')
             (little_endian_read_16 pf data 2))]
     else if data_type = DATA_TYPE_SERVICE_DATA pf
     then map (\<lambda>i. format (\<lambda>c. upper (hex_byte c) @ lit '' '') (data_byte data i)) (every 2 len)
     else if data_type \<in> {DATA_TYPE_PUBLIC_TARGET_ADDRESS pf, DATA_TYPE_RANDOM_TARGET_ADDRESS pf}
     then [format (bd_addr_to_str pf) (reverse_bd_addr pf data)]
     else if data_type = DATA_TYPE_APPEARANCE pf
     then [format (\<lambda>v. zero_padded 2 (upper (digits 16 (unat v)))) (little_endian_read_16 pf data 0)]
     else if data_type = DATA_TYPE_ADVERTISING_INTERVAL pf
     then [format (\<lambda>v. digits 10 (unat v * 5 div 8) @ lit '' ms'') (little_endian_read_16 pf data 0)]
     else if data_type = DATA_TYPE_3D_INFORMATION pf
     then map (\<lambda>i. format (\<lambda>c. upper (hex_byte c) @ lit '' '') (data_byte data i)) (every 2 len)
     else [Inr (lit ''    Advertising Data Type 0x'' @ space_padded 2 (digits 16 (unat data_type)) @
            lit '' not handled yet'')])"

definition entry_texts :: "dump_platform \<Rightarrow> u8 \<times> u8 \<times> bytes \<Rightarrow> bytes result list" where
  "entry_texts pf entry = heading (fst entry) @ entry_body pf entry @ [Inr [newline]]"

definition dump_advertisement_data ::
    "dump_platform \<Rightarrow> bytes \<Rightarrow> circular_buffer \<Rightarrow> circular_buffer result" where
  "dump_advertisement_data pf advertisement_data =
     log_results (concat (map (entry_texts pf) (ad_entries pf advertisement_data)) @ [Inr [newline]])"

section \<open>Services and characteristics\<close>

definition printUUID :: "dump_platform \<Rightarrow> bytes \<Rightarrow> u16 \<Rightarrow> bytes" where
  "printUUID pf uuid128 uuid16 =
     (if uuid16 \<noteq> 0 then zero_padded 4 (digits 16 (unat uuid16)) else uuid128_to_str pf uuid128)"

definition handle_text :: "u16 \<Rightarrow> bytes" where
  "handle_text h = lit ''0x'' @ zero_padded 4 (digits 16 (unat h))"

definition dump_service :: "dump_platform \<Rightarrow> gatt_service \<Rightarrow> circular_buffer \<Rightarrow> circular_buffer result" where
  "dump_service pf s =
     log_debug
       [lit ''    * service: ['' @ handle_text (start_group_handle s) @ lit ''-'' @
          handle_text (end_group_handle s) @ lit ''], uuid '',
        printUUID pf (service_uuid128 s) (service_uuid16 s), [newline]]"

definition dump_characteristic ::
    "dump_platform \<Rightarrow> dumped_characteristic \<Rightarrow> circular_buffer \<Rightarrow> circular_buffer result" where
  "dump_characteristic pf c =
     log_debug
       [lit ''    * characteristic: ['' @ handle_text (start_handle c) @ lit ''-'' @
          handle_text (value_handle c) @ lit ''-'' @ handle_text (end_handle c) @
          lit ''], properties 0x'' @ zero_padded 2 (digits 16 (unat (characteristic_properties c))) @
          lit '', uuid '',
        printUUID pf (characteristic_uuid128 c) (characteristic_uuid16 c), [newline]]"

section \<open>Reads\<close>

text \<open>
  A read of \<open>n\<close> bytes at an index. What the dumps rely on in the stack: its readers read as many bytes as
  their names say, and its texts have their documented lengths.
\<close>

definition reads :: "nat \<Rightarrow> (bytes \<Rightarrow> nat \<Rightarrow> 'a result) \<Rightarrow> bool" where
  "reads n f \<longleftrightarrow> (\<forall>data i. if i + n \<le> length data then isl (f data i) = False else f data i = Inl OutOfBounds)"

definition stack_reads :: "dump_platform \<Rightarrow> bool" where
  "stack_reads pf \<longleftrightarrow> reads 2 (little_endian_read_16 pf) \<and> reads 4 (little_endian_read_32 pf) \<and>
     reads 16 (\<lambda>data i. reverse_128 pf (drop i data)) \<and> reads 6 (\<lambda>data i. reverse_bd_addr pf (drop i data)) \<and>
     (\<forall>u. length (uuid128_to_str pf u) = 36) \<and> (\<forall>a. length (bd_addr_to_str pf a) = 17) \<and>
     PRIx32_radix pf \<in> {10, 16}"

text \<open>How many bytes from its data on a dump reads for an element.\<close>

definition list_needs :: "nat \<Rightarrow> nat \<Rightarrow> nat \<Rightarrow> nat" where
  "list_needs k n len = (if len = 0 then 0 else k * ((len - 1) div k) + n)"

definition entry_needs :: "dump_platform \<Rightarrow> u8 \<Rightarrow> u8 \<Rightarrow> nat" where
  "entry_needs pf data_type len =
     (if data_type = DATA_TYPE_FLAGS pf then 1
      else if data_type \<in> {DATA_TYPE_INCOMPLETE_16 pf, DATA_TYPE_COMPLETE_16 pf, DATA_TYPE_SOLICITATION_16 pf}
      then list_needs 2 2 (unat len)
      else if data_type \<in> {DATA_TYPE_INCOMPLETE_32 pf, DATA_TYPE_COMPLETE_32 pf, DATA_TYPE_SOLICITATION_32 pf}
      then list_needs 4 4 (unat len)
      else if data_type \<in> {DATA_TYPE_INCOMPLETE_UUIDS pf, DATA_TYPE_COMPLETE_UUIDS pf,
                            DATA_TYPE_SOLICITATION_UUIDS pf} then 16
      else if data_type \<in> {DATA_TYPE_SHORTENED_NAME pf, DATA_TYPE_COMPLETE_NAME pf}
      then list_needs 1 1 (unat len)
      else if data_type = DATA_TYPE_TX_POWER_LEVEL pf then 1
      else if data_type = DATA_TYPE_CONNECTION_INTERVAL_RANGE pf then 4
      else if data_type = DATA_TYPE_SERVICE_DATA pf then list_needs 2 1 (unat len)
      else if data_type \<in> {DATA_TYPE_PUBLIC_TARGET_ADDRESS pf, DATA_TYPE_RANDOM_TARGET_ADDRESS pf} then 6
      else if data_type = DATA_TYPE_APPEARANCE pf then 2
      else if data_type = DATA_TYPE_ADVERTISING_INTERVAL pf then 2
      else if data_type = DATA_TYPE_3D_INFORMATION pf then list_needs 2 1 (unat len)
      else 0)"

text \<open>
  A list of texts that are short when they can be formatted, and one of which reads out of bounds exactly
  if \<open>P\<close>.
\<close>

definition dumps :: "bool \<Rightarrow> bytes result list \<Rightarrow> bool" where
  "dumps P texts \<longleftrightarrow>
     (\<forall>r \<in> set texts. case r of Inl e \<Rightarrow> e = OutOfBounds | Inr text \<Rightarrow> length text < 600) \<and>
     (P \<longleftrightarrow> Inl OutOfBounds \<in> set texts)"

lemma dumps_append: "dumps P xs \<Longrightarrow> dumps Q ys \<Longrightarrow> dumps (P \<or> Q) (xs @ ys)"
  by (auto simp: dumps_def)

lemma dumps_concat: "(\<And>x. x \<in> set xs \<Longrightarrow> dumps (P x) (f x)) \<Longrightarrow> dumps (\<exists>x \<in> set xs. P x) (concat (map f xs))"
  unfolding dumps_def by fastforce

lemma dumps_text: "length text < 600 \<Longrightarrow> dumps False [Inr text]"
  by (simp add: dumps_def)

lemma log_results_dumps:
  "dumps P texts \<Longrightarrow> if P then log_results texts b = Inl OutOfBounds else \<exists>b'. log_results texts b = Inr b'"
proof (induction texts arbitrary: b P)
  case Nil
  then show ?case by (auto simp: dumps_def log_results_def)
next
  case (Cons r texts)
  show ?case
  proof (cases r)
    case (Inl e)
    with Cons.prems show ?thesis by (auto simp: dumps_def log_results_def)
  next
    case (Inr t)
    with Cons.prems have "dumps P texts" and short: "length t < 600"
      by (auto simp: dumps_def)
    moreover from short have "length (takeWhile (\<lambda>c. c \<noteq> 0) t) \<le> 65535"
      using length_takeWhile_le [of "\<lambda>c. c \<noteq> 0" t] by linarith
    then have "writeF t b = Inr (write_items (takeWhile (\<lambda>c. c \<noteq> 0) t) b)"
      using short by (simp add: writeF_def write_str_def)
    ultimately show ?thesis
      using Cons.IH [of P "write_items (takeWhile (\<lambda>c. c \<noteq> 0) t) b"] Inr
      by (simp add: log_results_def split: if_splits)
  qed
qed

lemma readsD:
  "reads n f \<Longrightarrow> if i + n \<le> length data then isl (f data i) = False else f data i = Inl OutOfBounds"
  by (simp add: reads_def)

lemma dumps_read:
  assumes "reads n f" and "\<And>v. length (g v) < 600"
  shows "dumps (length data < i + n) [format g (f data i)]"
  using readsD [OF assms(1), of i data] assms(2)
  by (cases "f data i") (auto simp: dumps_def format_def split: if_splits)

lemma dumps_list:
  assumes "\<And>i. dumps (length data < i + n) [h i]" and "0 < k"
  shows "dumps (length data < list_needs k n (unat len)) (map h (every k len))"
proof -
  have "(\<exists>i \<in> set (every k len). length data < i + n) \<longleftrightarrow> length data < list_needs k n (unat len)"
  proof (cases "unat len = 0")
    case False
    define m where "m = k * ((unat len - 1) div k)"
    have "m \<in> set (every k len)"
      using False times_div_less_eq_dividend [of k "unat len - 1"]
      by (simp add: m_def every_def del: times_div_less_eq_dividend)
    moreover have "i \<le> m" if "i \<in> set (every k len)" for i
    proof -
      from that obtain j where j: "i = k * j" "k * j < unat len" by (auto simp: every_def elim: dvdE)
      then have "k * j \<le> unat len - 1" by linarith
      then have "j \<le> (unat len - 1) div k" using \<open>0 < k\<close> by (simp add: less_eq_div_iff_mult_less_eq mult.commute)
      then show ?thesis by (simp add: j m_def)
    qed
    ultimately show ?thesis using False by (fastforce simp: list_needs_def m_def)
  qed (simp add: list_needs_def every_def)
  moreover have "dumps (\<exists>i \<in> set (every k len). length data < i + n) (concat (map (\<lambda>i. [h i]) (every k len)))"
    using assms(1) by (rule dumps_concat)
  ultimately show ?thesis by simp
qed

lemma reads_data_byte: "reads 1 data_byte"
  by (simp add: reads_def data_byte_def)

text \<open>The texts are short.\<close>

lemma length_upper [simp]: "length (upper t) = length t"
  by (simp add: upper_def)

lemma length_lit [simp]: "length (lit s) = length s"
  by (simp add: lit_def)

lemma length_formats:
  "length (space_padded w t) = max w (length t)" "length (hex_byte c) = 2"
  by (simp_all add: space_padded_def hex_byte_digits)

lemma short_digits:
  assumes "m < 10 ^ 20" and "10 \<le> radix" and "20 < n"
  shows "length (digits radix m) < n"
proof -
  have "m < radix ^ 20"
    using assms(1) power_mono [OF assms(2), of 20] by linarith
  then show ?thesis using assms length_digits [of radix m 20] by linarith
qed

lemma short_conversions:
  fixes c :: u8 and v :: u16 and w :: u32
  shows "10 \<le> radix \<Longrightarrow> 20 < n \<Longrightarrow> length (digits radix (unat c)) < n"
    and "10 \<le> radix \<Longrightarrow> 20 < n \<Longrightarrow> length (digits radix (unat v)) < n"
    and "10 \<le> radix \<Longrightarrow> 20 < n \<Longrightarrow> length (digits radix (unat w)) < n"
    and "20 < n \<Longrightarrow> length (digits 10 (unat v * 5 div k)) < n"
    and "30 < n \<Longrightarrow> length (signed_digits (sint c)) < n"
proof -
  have bounds: "unat c < 2 ^ LENGTH(8)" "unat v < 2 ^ LENGTH(16)" "unat w < 2 ^ LENGTH(32)"
    by (rule unsigned_less)+
  then show "10 \<le> radix \<Longrightarrow> 20 < n \<Longrightarrow> length (digits radix (unat c)) < n"
    "10 \<le> radix \<Longrightarrow> 20 < n \<Longrightarrow> length (digits radix (unat v)) < n"
    "10 \<le> radix \<Longrightarrow> 20 < n \<Longrightarrow> length (digits radix (unat w)) < n"
    by (simp_all add: short_digits)
  have "unat v * 5 div k \<le> unat v * 5" by (rule div_le_dividend)
  also have "\<dots> < 10 ^ 20" using bounds by simp
  finally show "20 < n \<Longrightarrow> length (digits 10 (unat v * 5 div k)) < n"
    by (intro short_digits) auto
  have "nat \<bar>sint c\<bar> < 10 ^ 20"
    using sint_ge [of c] sint_lt [of c] by (auto simp: nat_less_iff)
  then have "length (digits 10 (nat \<bar>sint c\<bar>)) < 21"
    by (rule short_digits) auto
  then show "30 < n \<Longrightarrow> length (signed_digits (sint c)) < n"
    by (cases "sint c < 0") (simp_all add: signed_digits_def)
qed

lemma flags_length: "i < 8 \<Longrightarrow> length (flags ! i) < 100"
proof -
  assume "i < 8"
  moreover have "\<forall>name \<in> set flags. length name < 100" and "length flags = 8"
    by (simp_all add: flags_def)
  ultimately show ?thesis by simp
qed

lemma dumps_flags: "dumps (length data < 1) (concat (map (flag_text data) [0..<8]))"
proof -
  have "dumps (data = []) (flag_text data i)" if "i < 8" for i
    using flags_length [OF that] by (auto simp: dumps_def flag_text_def data_byte_def split: sum.splits)
  then have "dumps (\<exists>i \<in> set [0..<8]. data = []) (concat (map (flag_text data) [0..<8]))"
    by (intro dumps_concat) simp
  moreover have "(\<exists>i \<in> set [0..<8::nat]. data = []) = (data = [])" by (auto intro: exI [of _ 0])
  ultimately show ?thesis by (simp del: set_upt)
qed

lemma dumps_heading: "dumps False (heading t)"
proof -
  have "\<forall>name \<in> set ad_types. length name < 100" by (simp add: ad_types_def)
  moreover have "length ad_types = 27" by (simp add: ad_types_def)
  ultimately have "length (ad_types ! unat t) < 100" if "t < 0x1B"
    using that by (simp add: word_less_nat_alt)
  then show ?thesis by (auto simp: dumps_def heading_def)
qed

lemma dumps_connection_interval:
  assumes "reads 2 read" and "\<And>least most. length (g least most) < 600"
  shows "dumps (length data < 4) [bind_result (read data 0) (\<lambda>least. format (g least) (read data 2))]"
  using readsD [OF assms(1), of 0 data] readsD [OF assms(1), of 2 data] assms(2)
  by (cases "read data 0"; cases "read data 2") (auto simp: dumps_def format_def split: if_splits)

lemma dumps_if:
  assumes "c \<Longrightarrow> dumps (length data < n) xs" and "\<not> c \<Longrightarrow> dumps (length data < m) ys"
  shows "dumps (length data < (if c then n else m)) (if c then xs else ys)"
  using assms by simp

lemma dumps_entry_body:
  assumes "stack_reads pf"
  shows "dumps (length data < entry_needs pf t len) (entry_body pf (t, len, data))"
proof -
  have reads: "reads 1 data_byte" "reads 2 (little_endian_read_16 pf)" "reads 4 (little_endian_read_32 pf)"
    "reads 16 (\<lambda>data i. reverse_128 pf (drop i data))" "reads 6 (\<lambda>data i. reverse_bd_addr pf (drop i data))"
    and texts: "length (uuid128_to_str pf u) < 600" "length (bd_addr_to_str pf a) < 600" "10 \<le> PRIx32_radix pf"
    for u a
    using assms reads_data_byte by (auto simp: stack_reads_def)
  note short = length_formats short_conversions less_diff_conv [symmetric] texts
  have list_texts:
    "dumps (length data < i + 2) [format (\<lambda>v. zero_padded 4 (upper (digits 16 (unat v))) @ lit '' '')
       (little_endian_read_16 pf data i)]"
    "dumps (length data < i + 4) [format (\<lambda>v. zero_padded 4 (digits (PRIx32_radix pf) (unat v)))
       (little_endian_read_32 pf data i)]"
    "dumps (length data < i + 1) [format (\<lambda>c. [c]) (data_byte data i)]"
    "dumps (length data < i + 1) [format (\<lambda>c. upper (hex_byte c) @ lit '' '') (data_byte data i)]" for i
    by (rule dumps_read [OF reads(2)] dumps_read [OF reads(3)] dumps_read [OF reads(1)]; simp add: short)+
  have single_texts:
    "dumps (length data < 16) [format (uuid128_to_str pf) (reverse_128 pf data)]"
    "dumps (length data < 6) [format (bd_addr_to_str pf) (reverse_bd_addr pf data)]"
    "dumps (length data < 1) [format (\<lambda>c. signed_digits (sint c) @ lit '' dBm'') (data_byte data 0)]"
    "dumps (length data < 2) [format (\<lambda>v. zero_padded 2 (upper (digits 16 (unat v))))
       (little_endian_read_16 pf data 0)]"
    "dumps (length data < 2) [format (\<lambda>v. digits 10 (unat v * 5 div 8) @ lit '' ms'')
       (little_endian_read_16 pf data 0)]"
    using dumps_read [OF reads(4), of "uuid128_to_str pf" data 0] dumps_read [OF reads(5), of "bd_addr_to_str pf" data 0]
      dumps_read [OF reads(1), of "\<lambda>c. signed_digits (sint c) @ lit '' dBm''" data 0]
      dumps_read [OF reads(2), of "\<lambda>v. zero_padded 2 (upper (digits 16 (unat v)))" data 0]
      dumps_read [OF reads(2), of "\<lambda>v. digits 10 (unat v * 5 div 8) @ lit '' ms''" data 0]
    by (simp_all add: short numeral_2_eq_2)
  have other: "dumps (length data < 0) [Inr (lit ''    Advertising Data Type 0x'' @
      space_padded 2 (digits 16 (unat t)) @ lit '' not handled yet'')]"
    using dumps_text by (simp add: short)
  have interval: "length (lit ''Connection Interval Min = '' @ digits 10 (unat least * 5 div 4) @
      lit '' ms, Max = '' @ digits 10 (unat most * 5 div 4) @ lit '' ms'') < 600" for least most :: u16
    using short_conversions(4) [of 21 least 4] short_conversions(4) [of 21 most 4] by simp
  show ?thesis
    unfolding entry_body_def entry_needs_def prod.case
    by (intro dumps_if dumps_flags other single_texts dumps_list list_texts dumps_connection_interval [OF reads(2)])
      (simp_all only: interval zero_less_numeral zero_less_one)
qed

section \<open>What a dump reads\<close>

text \<open>
  The dump of an advertisement reads outside the report exactly if some element is not followed by the
  bytes that its type calls for: the length of the element is not looked at where the type has a fixed
  size, and the last read of a list of identifiers may go past an odd end. Otherwise the dump is logged.
\<close>

lemma dump_advertisement_data_reads:
  assumes "stack_reads pf"
  shows "if \<exists>(t, len, data) \<in> set (ad_entries pf adv). length data < entry_needs pf t len
    then dump_advertisement_data pf adv b = Inl OutOfBounds
    else \<exists>b'. dump_advertisement_data pf adv b = Inr b'"
proof -
  have entry: "dumps (case e of (t, len, data) \<Rightarrow> length data < entry_needs pf t len) (entry_texts pf e)" for e
    using dumps_append [OF dumps_heading dumps_append [OF dumps_entry_body [OF assms] dumps_text]]
    by (cases e) (simp add: entry_texts_def)
  have "dumps ((\<exists>e \<in> set (ad_entries pf adv). case e of (t, len, data) \<Rightarrow> length data < entry_needs pf t len) \<or> False)
      (concat (map (entry_texts pf) (ad_entries pf adv)) @ [Inr [newline]])"
    by (intro dumps_append dumps_concat entry dumps_text) simp
  from log_results_dumps [OF this] show ?thesis
    by (simp only: dump_advertisement_data_def simp_thms)
qed

text \<open>The dumps of services and characteristics are logged.\<close>

lemma loggable_uuid:
  assumes "stack_reads pf" and "\<forall>u. 0 \<notin> set (uuid128_to_str pf u)"
  shows "loggable (printUUID pf uuid128 uuid16)"
proof -
  have "uuid128_to_str pf uuid128 \<noteq> []" "length (uuid128_to_str pf uuid128) < 600"
    using assms(1) by (simp_all add: stack_reads_def flip: length_greater_0_conv)
  moreover have "zero_padded 4 ds \<noteq> []" for ds by (auto simp: zero_padded_def)
  ultimately show ?thesis
    using assms(2) short_conversions(2) [of 16 600 uuid16] by (simp add: printUUID_def loggable_def)
qed

lemma handle_text_plain: "0 \<notin> set (handle_text h)" "length (handle_text h) < 30"
  using short_conversions(2) [of 16 21 h] by (simp_all add: handle_text_def) (simp add: lit_def)

lemma dump_service_logged:
  assumes "stack_reads pf" and "\<forall>u. 0 \<notin> set (uuid128_to_str pf u)" and "cb_ok b"
  shows "\<exists>b'. dump_service pf s b = Inr b' \<and> cb_ok b' \<and>
    contents b' = keep_last (capacity b) (contents b @
      lit ''    * service: ['' @ handle_text (start_group_handle s) @ lit ''-'' @
      handle_text (end_group_handle s) @ lit ''], uuid '' @
      printUUID pf (service_uuid128 s) (service_uuid16 s) @ [newline])"
proof -
  let ?texts = "[lit ''    * service: ['' @ handle_text (start_group_handle s) @ lit ''-'' @
    handle_text (end_group_handle s) @ lit ''], uuid '', printUUID pf (service_uuid128 s) (service_uuid16 s),
    [newline]]"
  have "\<forall>t \<in> set ?texts. loggable t"
    using loggable_uuid [OF assms(1,2)] handle_text_plain(2) [of "start_group_handle s"]
      handle_text_plain(2) [of "end_group_handle s"]
    by (simp add: handle_text_plain(1)) (simp add: loggable_def lit_def handle_text_plain(1))
  from log_debug_keeps_newest [OF assms(3) this] show ?thesis by (simp add: dump_service_def)
qed

lemma dump_characteristic_logged:
  assumes "stack_reads pf" and "\<forall>u. 0 \<notin> set (uuid128_to_str pf u)" and "cb_ok b"
  shows "\<exists>b'. dump_characteristic pf c b = Inr b' \<and> cb_ok b' \<and>
    contents b' = keep_last (capacity b) (contents b @
      lit ''    * characteristic: ['' @ handle_text (start_handle c) @ lit ''-'' @
      handle_text (value_handle c) @ lit ''-'' @ handle_text (end_handle c) @ lit ''], properties 0x'' @
      zero_padded 2 (digits 16 (unat (characteristic_properties c))) @ lit '', uuid '' @
      printUUID pf (characteristic_uuid128 c) (characteristic_uuid16 c) @ [newline])"
proof -
  let ?texts = "[lit ''    * characteristic: ['' @ handle_text (start_handle c) @ lit ''-'' @
      handle_text (value_handle c) @ lit ''-'' @ handle_text (end_handle c) @ lit ''], properties 0x'' @
      zero_padded 2 (digits 16 (unat (characteristic_properties c))) @ lit '', uuid '',
    printUUID pf (characteristic_uuid128 c) (characteristic_uuid16 c), [newline]]"
  have "\<forall>t \<in> set ?texts. loggable t"
    using loggable_uuid [OF assms(1,2)] handle_text_plain(2) [of "start_handle c"]
      handle_text_plain(2) [of "value_handle c"] handle_text_plain(2) [of "end_handle c"]
      short_conversions(2) [of 16 21 "characteristic_properties c"]
    by (simp add: handle_text_plain(1)) (simp add: loggable_def lit_def handle_text_plain(1))
  from log_debug_keeps_newest [OF assms(3) this] show ?thesis by (simp add: dump_characteristic_def)
qed

section \<open>Samples\<close>

text \<open>The assigned numbers of the types, and simple texts.\<close>

fun ad_sized_elements :: "bytes \<Rightarrow> (u8 \<times> u8 \<times> bytes) list" where
  "ad_sized_elements (len # data_type # data) =
     (if len = 0 \<or> unat len > length data + 1 then []
      else (data_type, len - 1, data) # ad_sized_elements (drop (unat len - 1) data))"
| "ad_sized_elements _ = []"

definition sample_dump_platform :: dump_platform where
  "sample_dump_platform = platform.extend sample_platform
     \<lparr>DATA_TYPE_INCOMPLETE_16 = 2, DATA_TYPE_COMPLETE_16 = 3, DATA_TYPE_SOLICITATION_16 = 0x14,
      DATA_TYPE_INCOMPLETE_32 = 4, DATA_TYPE_COMPLETE_32 = 5, DATA_TYPE_SOLICITATION_32 = 0x1f,
      DATA_TYPE_TX_POWER_LEVEL = 10, DATA_TYPE_CONNECTION_INTERVAL_RANGE = 0x12,
      DATA_TYPE_SERVICE_DATA = 0x16, DATA_TYPE_PUBLIC_TARGET_ADDRESS = 0x17,
      DATA_TYPE_RANDOM_TARGET_ADDRESS = 0x18, DATA_TYPE_APPEARANCE = 0x19,
      DATA_TYPE_ADVERTISING_INTERVAL = 0x1a, DATA_TYPE_3D_INFORMATION = 0x3d,
      ad_entries = ad_sized_elements,
      little_endian_read_32 = (\<lambda>b i. if i + 3 < length b
        then Inr (push_bit 24 (ucast (b ! (i + 3))) OR push_bit 16 (ucast (b ! (i + 2))) OR
          push_bit 8 (ucast (b ! (i + 1))) OR ucast (b ! i)) else Inl OutOfBounds),
      reverse_128 = (\<lambda>b. if 16 \<le> length b then Inr (rev (take 16 b)) else Inl OutOfBounds),
      reverse_bd_addr = (\<lambda>b. if 6 \<le> length b then Inr (rev (take 6 b)) else Inl OutOfBounds),
      uuid128_to_str = (\<lambda>u. replicate 36 45), bd_addr_to_str = (\<lambda>a. replicate 17 45),
      PRIx32_radix = 10\<rparr>"

lemma sample_stack_reads: "stack_reads sample_dump_platform"
  by (auto simp: stack_reads_def reads_def sample_dump_platform_def sample_platform_def platform.defs)

text \<open>
  A list of 16 bit identifiers with an odd length at the end of a report makes the dump read on, and the
  dump of service data leaves out every second byte.
\<close>

lemma odd_identifier_list_reads_on:
  "dump_advertisement_data sample_dump_platform [4, 2, 1, 2, 3] b = Inl OutOfBounds"
  using dump_advertisement_data_reads [OF sample_stack_reads, of "[4, 2, 1, 2, 3]" b]
  by (simp add: sample_dump_platform_def sample_platform_def platform.defs entry_needs_def list_needs_def)

lemma log_results_texts: "log_results (map Inr texts) = log_debug texts"
proof
  show "log_results (map Inr texts) b = log_debug texts b" for b
    by (induction texts arbitrary: b) (auto simp: log_results_def log_debug_def bind_result_def split: sum.splits)
qed

lemma service_data_leaves_out_bytes:
  "dump_advertisement_data sample_dump_platform [5, 0x16, 0xa1, 0xb2, 0xc3, 0xd4] =
   log_debug [lit ''    Service Data: '', lit ''A1 '', lit ''C3 '', [newline], [newline]]"
proof -
  have indices: "every 2 4 = [0, 2]" by code_simp
  have "concat (map (entry_texts sample_dump_platform)
      (ad_entries sample_dump_platform [5, 0x16, 0xa1, 0xb2, 0xc3, 0xd4])) @ [Inr [newline]] =
    map Inr [lit ''    Service Data: '', lit ''A1 '', lit ''C3 '', [newline], [newline]]"
    by (simp add: sample_dump_platform_def sample_platform_def platform.defs entry_texts_def entry_body_def
        heading_def ad_types_def indices data_byte_def format_def hex_byte_digits upper_def digit_def lit_def)
  then show ?thesis
    by (simp only: dump_advertisement_data_def log_results_texts)
qed

end
