(* ===== verification/Interleaving.thy ===== *)
theory Interleaving
  imports Delivery
begin

text \<open>
  Callbacks in the middle of \<open>sendPackets\<close>. The function sleeps 20 ms after every packet it hands over, and
  callbacks run meanwhile. Here it is cut at these sleeps and at the ends of its loops' bodies: its local
  variables and its place are explicit, its iterators are those of the containers, and any callback may
  come between two steps. \<open>std::map\<close> iterators stay valid when nodes are added; iterators of the vector
  \<open>broadcast_packets_to_send_list\<close> do until it grows beyond its capacity.
\<close>

section \<open>Sending in steps\<close>

text \<open>
  Where \<open>sendPackets\<close> is: an iterator through \<open>targeted_packets_to_send_list\<close> is the rest of it, one through
  the vector an index, one through \<open>connections\<close> the key of a node, or nothing at the end.
\<close>

datatype send_point =
    Entering
  | Targeted_loop "(addr \<times> connection_ptr) list" "addr list"
  | Targeted_sent addr connection_ptr "(addr \<times> connection_ptr) list" "addr list"
  | Packet_loop nat
  | Connection_loop nat addr "u16 option"
  | Connection_sent nat addr u16
  | Next_connection nat addr u16
  | Finished

text \<open>
  The filtered view of \<open>connections\<close> remembers its first element the first time it is asked for it, as
  \<open>std::ranges::filter_view\<close> does. \<open>queue_capacity\<close> stands for the capacity that the vector has when the loop
  over it begins. It is chosen at the entry; a choice that is too small, since the vector grew during the loop
  over the targeted packets, is one that no run of the code makes.
\<close>

record send_locals =
  queue_capacity :: nat
  queue_end :: nat
  cached_begin :: "u16 option option"
  broadcast_packets_to_remove :: "addr list"

definition new_send_locals :: "nat \<Rightarrow> send_locals" where
  "new_send_locals c =
     \<lparr>queue_capacity = c, queue_end = 0, cached_begin = None, broadcast_packets_to_remove = []\<rparr>"

definition next_available :: "(u16 \<Rightarrow> bool) \<Rightarrow> tracker \<Rightarrow> u16 option" where
  "next_available P s = map_option fst (find (\<lambda>(k, c). P k \<and> available c) (connections s))"

definition view_begin :: "send_locals \<Rightarrow> tracker \<Rightarrow> u16 option" where
  "view_begin v s =
     (case cached_begin v of Some it \<Rightarrow> it | None \<Rightarrow> next_available (\<lambda>k. True) s)"

fun send_step ::
    "send_point \<times> send_locals \<Rightarrow> tracker \<Rightarrow> ((send_point \<times> send_locals) \<times> tracker) result" where
  "send_step (Entering, v) s =
     (if broadcast_packets_to_send_list s = [] \<and> targeted_packets_to_send_list s = []
      then Inr ((Finished, v), s)
      else Inr ((Targeted_loop (targeted_packets_to_send_list s) [], v), s))"
| "send_step (Targeted_loop ((p, cp) # rest) removed, v) s =
     bind_result (packet_needed s (p, cp)) (\<lambda>needed.
       if needed
       then bind_result (SendPacketToConnection p cp s) (\<lambda>s.
              Inr ((Targeted_sent p cp rest removed, v), s))
       else Inr ((Targeted_loop rest removed, v), s))"
| "send_step (Targeted_sent p cp rest removed, v) s =
     Inr ((Targeted_loop rest (p # removed), v), note_sent p cp s)"
| "send_step (Targeted_loop [] removed, v) s =
     Inr ((Packet_loop 0, v\<lparr>queue_end := length (broadcast_packets_to_send_list s)\<rparr>),
          s\<lparr>targeted_packets_to_send_list :=
              filter (\<lambda>(p, cp). p \<notin> set removed) (targeted_packets_to_send_list s)\<rparr>)"
| "send_step (Packet_loop i, v) s =
     (if i = queue_end v
      then Inr ((Finished, v),
             s\<lparr>broadcast_packets_to_send_list :=
                 filter (\<lambda>p. p \<notin> set (broadcast_packets_to_remove v)) (broadcast_packets_to_send_list s)\<rparr>)
      else if length (broadcast_packets_to_send_list s) > queue_capacity v then Inl DanglingPointer
      else Inr ((Connection_loop i (broadcast_packets_to_send_list s ! i) (view_begin v s),
                 v\<lparr>cached_begin := Some (view_begin v s)\<rparr>), s))"
| "send_step (Connection_loop i p (Some k), v) s =
     bind_result (deref_connection s (ConnectionNode k)) (\<lambda>c.
     bind_result (sendable s p c) (\<lambda>ok.
       if ok
       then bind_result (SendPacketToConnection p (ConnectionNode k) s) (\<lambda>s.
              Inr ((Connection_sent i p k, v), s))
       else Inr ((Next_connection i p k, v), s)))"
| "send_step (Connection_sent i p k, v) s =
     Inr ((Next_connection i p k, v), note_sent p (ConnectionNode k) s)"
| "send_step (Next_connection i p k, v) s =
     Inr ((Connection_loop i p (next_available (\<lambda>k'. k < k') s), v), s)"
| "send_step (Connection_loop i p None, v) s =
     Inr ((Packet_loop (i + 1), v\<lparr>broadcast_packets_to_remove := p # broadcast_packets_to_remove v\<rparr>), s)"
| "send_step (Finished, v) s = Inr ((Finished, v), s)"

section \<open>The program, with callbacks while it sends\<close>

datatype control = At phase | Sending_at "send_point \<times> send_locals"

text \<open>The vector has room for what it holds; how much more is up to its history.\<close>

inductive fine_step :: "platform \<Rightarrow> control \<times> machine \<Rightarrow> control \<times> machine \<Rightarrow> bool" for pf where
  phase: "ph \<noteq> Sending \<Longrightarrow> run_phase i ph m = Inr (ph', m') \<Longrightarrow>
    fresh (new_node (at_moment i)) (tracker_of m) \<Longrightarrow> fine_step pf (At ph, m) (At ph', m')"
| enter: "length (broadcast_packets_to_send_list (tracker_of m)) \<le> c \<Longrightarrow>
    fine_step pf (At Sending, m) (Sending_at (Entering, new_send_locals c), m)"
| send: "fst x \<noteq> Finished \<Longrightarrow> send_step x (tracker_of m) = Inr (x', s) \<Longrightarrow>
    fine_step pf (Sending_at x, m) (Sending_at x', m\<lparr>globals := (globals m)\<lparr>connection_tracker := s\<rparr>\<rparr>)"
| leave: "fine_step pf (Sending_at (Finished, v), m) (At Flashing, m)"
| callback: "handle_event pf t e (globals m) = Inr r \<Longrightarrow> fresh (new_node t) (tracker_of m) \<Longrightarrow>
    fine_step pf (c, m) (c, m\<lparr>globals := r\<rparr>)"

inductive fine_reachable :: "platform \<Rightarrow> addr \<Rightarrow> control \<times> machine \<Rightarrow> bool" for pf a where
  start: "booted pf a r \<Longrightarrow> fine_reachable pf a (At Loop_test, main_start t1 t2 t3 t4 t5 r)"
| further: "fine_reachable pf a x \<Longrightarrow> fine_step pf x y \<Longrightarrow> fine_reachable pf a y"

section \<open>What callbacks leave alone\<close>

text \<open>
  Callbacks add packets at the end of the broadcast queue, leave the targeted packets alone and never
  take a connection away.
\<close>

definition grows :: "tracker \<Rightarrow> tracker \<Rightarrow> bool" where
  "grows s s' \<longleftrightarrow>
     (\<exists>new. broadcast_packets_to_send_list s' = broadcast_packets_to_send_list s @ new) \<and>
     targeted_packets_to_send_list s' = targeted_packets_to_send_list s \<and>
     fst ` set (connections s) \<subseteq> fst ` set (connections s')"

lemma grows_refl [simp]: "grows s s"
  by (simp add: grows_def)

lemma grows_trans [trans]: "grows s t \<Longrightarrow> grows t u \<Longrightarrow> grows s u"
  by (auto simp: grows_def)

lemma grows_frames [simp]:
  "grows s (call_stack c s')  = grows s s'" "grows s (s'\<lparr>peers := x1\<rparr>) = grows s s'"
  "grows s (s'\<lparr>available_neighbours := x2\<rparr>) = grows s s'" "grows s (s'\<lparr>handle_peer_map := x3\<rparr>) = grows s s'"
  "grows s (s'\<lparr>packets_connections_sent_list := x4\<rparr>) = grows s s'"
  "grows s (s'\<lparr>packets_peers_sent_list := x5\<rparr>) = grows s s'" "grows s (s'\<lparr>messages := x6\<rparr>) = grows s s'"
  "grows s (s'\<lparr>packets := x7\<rparr>) = grows s s'" "grows s (s'\<lparr>timestamp_offset_ms := x8\<rparr>) = grows s s'"
  "grows s (s'\<lparr>raw_packet_to_notify := x9\<rparr>) = grows s s'" "grows s (s'\<lparr>raw_packet_to_write := x10\<rparr>) = grows s s'"
  "grows s (s'\<lparr>notify_context := x11\<rparr>) = grows s s'" "grows s (s'\<lparr>write_context := x12\<rparr>) = grows s s'"
  by (simp_all add: grows_def call_stack_def)

lemma grows_connections:
  "grows s s' \<Longrightarrow> grows s (s'\<lparr>connections := map_put h c (connections s')\<rparr>)"
  by (auto simp: grows_def)

lemma operations_grow:
  assumes "grows s s'"
  shows "grows s (update_connection h f s')" "grows s (connectionForConnHandle h s')"
    "grows s (checkSenderInPeers k s')" "grows s (update_peer k g s')"
    "grows s (setConnectionHandleForPeer h k s')" "grows s (addAvailablePeer now addr t services strength s')"
    "grows s (reportConnection now h addr t s')" "grows s (reportDisconnection closure h s')"
    "grows s (note_sent p cp s')"
proof -
  have put: "grows s (update_connection h f x)" if "grows s x" for h f x
    using that by (simp add: update_connection_def grows_connections)
  then show "grows s (update_connection h f s')" "grows s (connectionForConnHandle h s')"
    "grows s (reportDisconnection closure h s')"
    using assms by (simp_all add: connectionForConnHandle_def reportDisconnection_def Let_def)
  show "grows s (checkSenderInPeers k s')" "grows s (update_peer k g s')"
    "grows s (setConnectionHandleForPeer h k s')" "grows s (addAvailablePeer now addr t services strength s')"
    "grows s (note_sent p cp s')"
    using assms by (simp_all add: checkSenderInPeers_def update_peer_def setConnectionHandleForPeer_def
        addAvailablePeer_def update_neighbour_def note_sent_def Let_def split: option.split)
  show "grows s (reportConnection now h addr t s')"
    using assms by (auto simp: reportConnection_def Let_def intro!: put grows_connections split: option.split)
qed

lemma reportConnectionWithRole_grows:
  "grows s s' \<Longrightarrow> grows s (reportConnectionWithRole now h addr t new_role s')"
  by (simp add: reportConnectionWithRole_def Let_def operations_grow)

lemma enqueue_grows:
  assumes "enqueueBroadcastPacketFrom p cp k s' = Inr s''" and "grows s s'"
  shows "grows s s''"
proof -
  have "grows x x'" if "enqueueBroadcastPacket p x = Inr x'" for x x'
    using that by (auto simp: enqueueBroadcastPacket_def grows_def split: if_split_asm)
  from this [OF assms(1) [unfolded enqueueBroadcastPacketFrom_def]] show ?thesis
    by (rule grows_trans [rotated]) (simp add: assms(2))
qed

lemma receive_grows:
  "receive_message a cp p s' = Inr s'' \<Longrightarrow> grows s s' \<Longrightarrow> grows s s''"
  "receive_announce now h p s' = Inr s'' \<Longrightarrow> grows s s' \<Longrightarrow> grows s s''"
  "pass_packet_along std_hash a cp p s' = Inr s'' \<Longrightarrow> grows s s' \<Longrightarrow> grows s s''"
proof -
  have message: "grows s x'" if "processMessage m data x = (ok, m', x')" "grows s x" for m data x ok m' x'
    using processMessage_frame [OF that(1)] that(2) by (metis grows_frames(2))
  show "receive_message a cp p s' = Inr s'' \<Longrightarrow> grows s s' \<Longrightarrow> grows s s''"
    by (auto simp: receive_message_def Let_def storeMessageAndReturnIfNew_def operations_grow
        split: prod.splits if_splits option.splits dest!: message enqueue_grows intro: operations_grow)
  show "receive_announce now h p s' = Inr s'' \<Longrightarrow> grows s s' \<Longrightarrow> grows s s''"
    by (auto simp: receive_announce_def possiblyUpdateTimeOffset_def updateOrStorePeerName_def Let_def operations_grow
        split: if_splits option.splits)
  show "pass_packet_along std_hash a cp p s' = Inr s'' \<Longrightarrow> grows s s' \<Longrightarrow> grows s s''"
    by (auto simp: pass_packet_along_def Let_def storePacketAndReturnIfNew_def operations_grow
        split: if_splits option.splits dest!: enqueue_grows)
qed

lemma dispatch_packet_grows:
  assumes "dispatch_packet std_hash now a cp h p s' = Inr s''" and "grows s s'"
  shows "grows s s''"
proof (cases "type_of_value (parsed_type p)")
  case (Some t)
  consider "t = noiseIdentityAnnounce" | "t = type_message" | "t = type_announce"
    | "t \<notin> {noiseIdentityAnnounce, type_message, type_announce}" by blast
  then show ?thesis
    using assms Some by cases (auto simp: dispatch_packet_def updateOrStorePeerNoisePublicKey_def operations_grow
        split: if_split_asm dest: receive_grows)
qed (use assms in \<open>simp add: dispatch_packet_def\<close>)

lemma processWrite_grows:
  "processWrite zlib std_hash now a cp h offset buffer s' = Inr s'' \<Longrightarrow> grows s s' \<Longrightarrow> grows s s''"
  by (auto simp: processWrite_def split: option.split_asm dest: dispatch_packet_grows)

lemma raw_packets_grow:
  "notifyRawPacket ret h s' = Inr s'' \<Longrightarrow> grows s s' \<Longrightarrow> grows s s''"
  "writeRawPacket ret h s' = Inr s'' \<Longrightarrow> grows s s' \<Longrightarrow> grows s s''"
  by (auto simp: notifyRawPacket_def writeRawPacket_def Let_def operations_grow split: list.splits if_splits)

lemma callbacks_grow:
  assumes "handle_event pf t e r = Inr r'"
  shows "grows (connection_tracker r) (connection_tracker r')"
proof (cases e)
  case (Att_write h att_handle mode offset buffer)
  then show ?thesis
    using assms by (auto simp: att_write_callback_def configure_notifications_def Let_def operations_grow
        split: if_splits dest!: processWrite_grows [where s = "connection_tracker r"])
next
  case (Hci b ev)
  then show ?thesis
    using assms by (cases ev) (auto simp: hci_packet_handler_def setup_advertisements_def setup_scanning_def
        start_scanning_for_local_nodes_def Let_def operations_grow reportConnectionWithRole_grows
        dest!: populate_advertising_data_tracker split: if_splits)
next
  case (Gatt_client ev)
  then show ?thesis
    using assms by (cases ev) (auto simp: handle_gatt_client_event_def Let_def operations_grow split: option.splits)
next
  case (Value_update ev)
  then show ?thesis
    using assms by (cases ev) (auto simp: handle_gatt_client_value_update_event_def Let_def operations_grow
        dest!: processWrite_grows [where s = "connection_tracker r"])
next
  case (Att b ev)
  then show ?thesis
    using assms by (cases ev) (auto simp: att_packet_handler_def Let_def operations_grow split: if_splits)
qed (use assms in \<open>auto simp: att_read_callback_def sm_packet_handler_def stop_scan_handler_def gpio_callback_def
  Let_def bitchat_can_send_notification_handler_def bitchat_can_write_without_response_handler_def
  split: if_splits intro: raw_packets_grow\<close>)

section \<open>Invariants of the interleaved program\<close>

text \<open>A global invariant that the steps of \<open>sendPackets\<close> keep holds while it sends, too.\<close>

locale interleaved_invariant = global_invariant +
  assumes kept_by_sending: "holds r \<Longrightarrow> send_step x (connection_tracker r) = Inr (x', s) \<Longrightarrow>
    holds (r\<lparr>connection_tracker := s\<rparr>)"
begin

lemma fine_step_holds: "fine_step pf x y \<Longrightarrow> holds (globals (snd x)) \<Longrightarrow> holds (globals (snd y))"
  by (induction rule: fine_step.induct) (auto intro: kept_by_callback kept_by_phase kept_by_sending)

lemma fine_reachable_holds: "fine_reachable pf a x \<Longrightarrow> holds (globals (snd x))"
  by (induction rule: fine_reachable.induct) (auto simp: main_start_def booted_holds dest: fine_step_holds)

end

lemma send_step_keeps_ok:
  assumes "tracker_ok s" and "send_step x s = Inr (x', s')"
  shows "tracker_ok s'"
  using assms
  by (induction x s rule: send_step.induct)
    (auto split: if_split_asm intro: SendPacketToConnection_keeps_ok note_sent_keeps_ok shorter_queues_keep_ok)

interpretation interleaved_tracker: interleaved_invariant pf "\<lambda>r. tracker_ok (connection_tracker r)" for pf
  by unfold_locales (auto dest: send_step_keeps_ok)

interpretation interleaved_advertisement: interleaved_invariant pf "adv_ok pf" for pf
  by unfold_locales simp

section \<open>The iterators of sendPackets\<close>

text \<open>
  The vector's iterators: what was read from it and what will be removed from it was in it when the loop
  began. The map's iterators: the nodes they point to are there.
\<close>

definition queue_read :: "send_locals \<Rightarrow> tracker \<Rightarrow> nat \<Rightarrow> bool" where
  "queue_read v s i \<longleftrightarrow> queue_end v \<le> length (broadcast_packets_to_send_list s) \<and> i \<le> queue_end v \<and>
     set (broadcast_packets_to_remove v) = set (take i (broadcast_packets_to_send_list s))"

definition node_there :: "tracker \<Rightarrow> u16 option \<Rightarrow> bool" where
  "node_there s it \<longleftrightarrow> (\<forall>k \<in> set_option it. k \<in> fst ` set (connections s))"

definition at_packet :: "send_locals \<Rightarrow> tracker \<Rightarrow> nat \<Rightarrow> addr \<Rightarrow> bool" where
  "at_packet v s i p \<longleftrightarrow> queue_read v s i \<and> i < queue_end v \<and> broadcast_packets_to_send_list s ! i = p"

fun place_ok :: "send_point \<Rightarrow> send_locals \<Rightarrow> tracker \<Rightarrow> bool" where
  "place_ok Entering v s \<longleftrightarrow> broadcast_packets_to_remove v = []"
| "place_ok (Targeted_loop rest removed) v s \<longleftrightarrow> broadcast_packets_to_remove v = [] \<and>
     set rest \<subseteq> set (targeted_packets_to_send_list s)"
| "place_ok (Targeted_sent p cp rest removed) v s \<longleftrightarrow> broadcast_packets_to_remove v = [] \<and>
     set rest \<subseteq> set (targeted_packets_to_send_list s)"
| "place_ok (Packet_loop i) v s \<longleftrightarrow> queue_read v s i"
| "place_ok (Connection_loop i p it) v s \<longleftrightarrow> at_packet v s i p \<and> node_there s it"
| "place_ok (Connection_sent i p k) v s \<longleftrightarrow> at_packet v s i p \<and> node_there s (Some k)"
| "place_ok (Next_connection i p k) v s \<longleftrightarrow> at_packet v s i p \<and> node_there s (Some k)"
| "place_ok Finished v s \<longleftrightarrow> True"

definition locals_ok :: "send_point \<times> send_locals \<Rightarrow> tracker \<Rightarrow> bool" where
  "locals_ok x s \<longleftrightarrow> place_ok (fst x) (snd x) s \<and> (\<forall>it \<in> set_option (cached_begin (snd x)). node_there s it)"

lemma grows_reads:
  assumes "grows s s'"
  shows "queue_read v s i \<Longrightarrow> queue_read v s' i" "node_there s it \<Longrightarrow> node_there s' it"
    "at_packet v s i p \<Longrightarrow> at_packet v s' i p"
  using assms by (auto simp: grows_def queue_read_def node_there_def at_packet_def nth_append)

lemma grows_locals_ok: "grows s s' \<Longrightarrow> locals_ok x s \<Longrightarrow> locals_ok x s'"
  by (cases "fst x") (auto simp: locals_ok_def grows_reads, auto simp: grows_def)

lemma SendPacketToConnection_grows:
  assumes "SendPacketToConnection p cp s = Inr s'"
  shows "grows s s'"
  using assms
  by (auto simp: SendPacketToConnection_def Let_def operations_grow split: if_split_asm connection_ptr.split_asm)

text \<open>Every step but the two that take packets off the queues lets the tracker grow.\<close>

lemma send_step_grows:
  assumes "send_step (pt, v) s = Inr (x', s')"
  shows "grows s s' \<or> (\<exists>removed. pt = Targeted_loop [] removed) \<or> (pt = Packet_loop (queue_end v))"
proof (cases pt)
  case (Targeted_loop rest removed)
  then show ?thesis
    using assms by (cases rest) (auto split: if_split_asm dest: SendPacketToConnection_grows)
next
  case (Connection_loop i p it)
  then show ?thesis
    using assms by (cases it) (auto split: if_split_asm dest: SendPacketToConnection_grows)
qed (use assms in \<open>auto simp: operations_grow split: if_split_asm\<close>)

lemma next_available_there: "node_there s (next_available P s)"
  by (auto simp: next_available_def node_there_def find_Some_iff)
    (metis fst_conv image_eqI nth_mem)

lemma view_begin_there:
  "\<forall>it \<in> set_option (cached_begin v). node_there s it \<Longrightarrow> node_there s (view_begin v s)"
  by (simp add: view_begin_def next_available_there split: option.split)

lemma send_step_locals_ok:
  assumes "locals_ok x s" and "send_step x s = Inr (x', s')"
  shows "locals_ok x' s'"
proof -
  obtain pt v where x: "x = (pt, v)" by (cases x)
  consider "grows s s'" "pt \<noteq> Packet_loop (queue_end v)" "\<nexists>removed. pt = Targeted_loop [] removed"
    | "pt = Packet_loop (queue_end v)" | "\<exists>removed. pt = Targeted_loop [] removed"
    using send_step_grows [of pt v s x' s'] assms(2) x by blast
  then show ?thesis
  proof cases
    case 1
    then have here: "locals_ok (pt, v) s'" using assms(1) x by (simp add: grows_locals_ok)
    show ?thesis
    proof (cases pt)
      case (Targeted_loop rest removed)
      then show ?thesis
        using here 1 assms(2) x by (cases rest) (auto simp: locals_ok_def split: if_split_asm)
    next
      case (Connection_loop i p it)
      then show ?thesis
        using here assms(2) x
        by (cases it) (auto simp: locals_ok_def at_packet_def queue_read_def take_Suc_conv_app_nth split: if_split_asm)
    next
      case (Packet_loop i)
      then show ?thesis
        using here 1 assms(2) x view_begin_there [of v s]
        by (auto simp: locals_ok_def at_packet_def queue_read_def split: if_split_asm)
    qed (use here assms(2) x next_available_there in \<open>auto simp: locals_ok_def split: if_split_asm\<close>)
  next
    case 2
    then show ?thesis using assms x by (auto simp: locals_ok_def node_there_def)
  next
    case 3
    then show ?thesis using assms x by (auto simp: locals_ok_def node_there_def queue_read_def)
  qed
qed

fun control_ok :: "control \<times> machine \<Rightarrow> bool" where
  "control_ok (At ph, m) \<longleftrightarrow> True"
| "control_ok (Sending_at x, m) \<longleftrightarrow> locals_ok x (tracker_of m)"

lemma fine_step_control_ok: "fine_step pf x y \<Longrightarrow> control_ok x \<Longrightarrow> control_ok y"
proof (induction rule: fine_step.induct)
  case (callback t e m r c)
  then show ?case using grows_locals_ok [OF callbacks_grow] by (cases c) auto
next
  case (enter m c)
  then show ?case by (simp add: locals_ok_def new_send_locals_def)
qed (auto dest: send_step_locals_ok)

lemma fine_reachable_control_ok: "fine_reachable pf a x \<Longrightarrow> control_ok x"
  by (induction rule: fine_reachable.induct) (auto dest: fine_step_control_ok)

section \<open>Runs of sendPackets\<close>

definition send_run_step ::
    "platform \<Rightarrow> (send_point \<times> send_locals) \<times> machine \<Rightarrow> (send_point \<times> send_locals) \<times> machine \<Rightarrow> bool" where
  "send_run_step pf x y \<longleftrightarrow> fine_step pf (Sending_at (fst x), snd x) (Sending_at (fst y), snd y)"

inductive_cases send_run_stepE: "fine_step pf (Sending_at x, m) (Sending_at x', m')"

lemma send_run_step_cases:
  assumes "send_run_step pf (x, m) (x', m')"
  obtains (send) "fst x \<noteq> Finished" "send_step x (tracker_of m) = Inr (x', tracker_of m')"
  | (callback) "x' = x" "grows (tracker_of m) (tracker_of m')"
  using assms unfolding send_run_step_def
  by (auto elim!: send_run_stepE dest: callbacks_grow)

text \<open>What the steps of \<open>sendPackets\<close> keep and growth does not harm holds throughout a run.\<close>

lemma sending_run_keeps:
  assumes "(send_run_step pf)\<^sup>*\<^sup>* x y" and "P (fst x) (tracker_of (snd x))"
    and kept: "\<And>x s x' s'. P x s \<Longrightarrow> fst x \<noteq> Finished \<Longrightarrow> send_step x s = Inr (x', s') \<Longrightarrow> P x' s'"
    and grown: "\<And>x s s'. P x s \<Longrightarrow> grows s s' \<Longrightarrow> P x s'"
  shows "P (fst y) (tracker_of (snd y))"
  using assms(1,2)
proof (induction rule: rtranclp_induct)
  case (step y z)
  obtain x m x' m' where yz: "y = (x, m)" "z = (x', m')" by (cases y, cases z)
  from step.IH [OF step.prems] yz have here: "P x (tracker_of m)" by simp
  from step.hyps(2) yz have "send_run_step pf (x, m) (x', m')" by simp
  then have "P x' (tracker_of m')"
  proof (cases rule: send_run_step_cases)
    case send
    then show ?thesis by (rule kept [OF here])
  next
    case callback
    then show ?thesis using grown [OF here] by simp
  qed
  then show ?case using yz by simp
qed

abbreviation queued :: "machine \<Rightarrow> addr list" where
  "queued m \<equiv> broadcast_packets_to_send_list (tracker_of m)"

text \<open>The loop over the broadcast queue has begun.\<close>

fun packet_index :: "send_point \<Rightarrow> nat option" where
  "packet_index (Packet_loop i) = Some i"
| "packet_index (Connection_loop i p it) = Some i"
| "packet_index (Connection_sent i p k) = Some i"
| "packet_index (Next_connection i p k) = Some i"
| "packet_index _ = None"

definition unsent :: "nat \<Rightarrow> addr list \<Rightarrow> addr list" where
  "unsent n q = filter (\<lambda>p. p \<notin> set (take n q)) (drop n q)"

text \<open>In the loop the queue only grows; after it, what was added is left.\<close>

fun queue_progress :: "nat \<Rightarrow> addr list \<Rightarrow> send_point \<times> send_locals \<Rightarrow> tracker \<Rightarrow> bool" where
  "queue_progress n q (pt, v) s \<longleftrightarrow>
     (if pt = Finished then \<exists>new. broadcast_packets_to_send_list s = unsent n q @ new
      else packet_index pt \<noteq> None \<and> queue_end v = n \<and> locals_ok (pt, v) s \<and>
        (\<exists>new. broadcast_packets_to_send_list s = q @ new))"

lemma grows_queue_progress: "grows s s' \<Longrightarrow> queue_progress n q x s \<Longrightarrow> queue_progress n q x s'"
  using grows_locals_ok [of s s' x] by (cases x) (auto simp: grows_def [of s s'] split: if_splits)

lemma loop_goes_on:
  assumes "send_step (pt, v) s = Inr ((pt', v'), s')" and "packet_index pt = Some i"
    and "pt \<noteq> Packet_loop (queue_end v)"
  shows "(packet_index pt' = Some i \<or> pt' = Packet_loop (i + 1)) \<and>
    queue_end v' = queue_end v \<and> queue_capacity v' = queue_capacity v"
proof (cases pt)
  case (Connection_loop j p it)
  then show ?thesis using assms by (cases it) (auto split: if_split_asm)
qed (use assms in \<open>auto split: if_split_asm\<close>)

lemma send_step_queue_progress:
  assumes "send_step x s = Inr (x', s')" and "queue_progress n q x s" and "n \<le> length q"
    and "fst x \<noteq> Finished"
  shows "queue_progress n q x' s'"
proof -
  obtain pt v where x: "x = (pt, v)" by (cases x)
  show ?thesis
  proof (cases "pt = Packet_loop (queue_end v)")
    case True
    with assms x obtain new where "broadcast_packets_to_send_list s = q @ new"
      and "set (broadcast_packets_to_remove v) = set (take n q)"
      by (auto simp: locals_ok_def queue_read_def)
    then have "filter (\<lambda>p. p \<notin> set (broadcast_packets_to_remove v)) (broadcast_packets_to_send_list s) =
        unsent n q @ filter (\<lambda>p. p \<notin> set (take n q)) new"
      using filter_append [of "\<lambda>p. p \<notin> set (take n q)" "take n q" "drop n q"] by (simp add: unsent_def)
    then show ?thesis using True assms(1) x by auto
  next
    case False
    obtain pt' v' where x': "x' = (pt', v')" by (cases x')
    from False have "grows s s'" "locals_ok x' s'"
      using assms x send_step_grows [of pt v s x' s'] send_step_locals_ok [of x s x' s'] by auto
    moreover have "packet_index pt' \<noteq> None \<and> queue_end v' = n"
      using False assms x x' loop_goes_on [of pt v s pt' v' s'] by auto
    ultimately show ?thesis
      using assms x x' by (auto simp: grows_def)
  qed
qed

text \<open>
  C6: callbacks may queue packets while \<open>sendPackets\<close> works through the broadcast queue. When it returns,
  exactly the packets that were in the queue when the loop began are gone from it; those that came
  meanwhile are still there, in order.
\<close>

theorem packets_queued_while_sending_stay:
  assumes "fine_reachable pf a (Sending_at (pt, v), m)" and "packet_index pt \<noteq> None"
    and "(send_run_step pf)\<^sup>*\<^sup>* ((pt, v), m) ((Finished, v'), m')"
  shows "\<exists>new. queued m' = unsent (queue_end v) (queued m) @ new"
proof -
  have ok: "locals_ok (pt, v) (tracker_of m)"
    using fine_reachable_control_ok [OF assms(1)] by simp
  then have length: "queue_end v \<le> length (queued m)"
    using assms(2) by (cases pt) (auto simp: locals_ok_def at_packet_def queue_read_def)
  have "queue_progress (queue_end v) (queued m) (fst ((Finished, v'), m')) (tracker_of (snd ((Finished, v'), m')))"
  proof (rule sending_run_keeps [where P = "queue_progress (queue_end v) (queued m)", OF assms(3)], goal_cases)
    case 1
    then show ?case using ok assms(2) by auto
  next
    case (2 x s x' s')
    show ?case by (rule send_step_queue_progress [OF 2(3,1) length 2(2)])
  next
    case (3 x s s')
    show ?case by (rule grows_queue_progress [OF 3(2,1)])
  qed
  then show ?thesis by simp
qed

text \<open>There are packets left that the loop has not read.\<close>

fun packets_left :: "send_point \<times> send_locals \<Rightarrow> bool" where
  "packets_left (Packet_loop i, v) \<longleftrightarrow> i < queue_end v"
| "packets_left (pt, v) \<longleftrightarrow> (case packet_index pt of None \<Rightarrow> False | Some i \<Rightarrow> i + 1 < queue_end v)"

definition invalidated :: "send_point \<times> send_locals \<Rightarrow> tracker \<Rightarrow> bool" where
  "invalidated x s \<longleftrightarrow> packets_left x \<and> queue_capacity (snd x) < length (broadcast_packets_to_send_list s)"

lemma grows_invalidated: "grows s s' \<Longrightarrow> invalidated x s \<Longrightarrow> invalidated x s'"
  by (auto simp: grows_def invalidated_def)

lemma send_step_invalidated:
  assumes "invalidated x s" and "send_step x s = Inr (x', s')"
  shows "invalidated x' s'"
proof -
  obtain pt v pt' v' where x: "x = (pt, v)" "x' = (pt', v')" by (cases x, cases x')
  obtain i where i: "packet_index pt = Some i" and left: "pt \<noteq> Packet_loop i" "i + 1 < queue_end v"
    using assms x by (cases pt) (auto simp: invalidated_def)
  then have "pt \<noteq> Packet_loop (queue_end v)" by auto
  from loop_goes_on [OF assms(2) [unfolded x] i this] have
    after: "packet_index pt' = Some i \<or> pt' = Packet_loop (i + 1)" "queue_end v' = queue_end v"
    "queue_capacity v' = queue_capacity v" by auto
  moreover have "grows s s'"
    using send_step_grows [of pt v s x' s'] assms(2) x left \<open>pt \<noteq> Packet_loop (queue_end v)\<close> i by auto
  ultimately show ?thesis
    using assms(1) x left by (cases pt') (auto simp: invalidated_def grows_def)
qed

text \<open>
  C31: a callback that queues a packet while \<open>sendPackets\<close> still has packets to read breaks it if the vector
  has no room left: the new element moves the vector, and the loop's iterators point to where it was.
  However the program goes on, \<open>sendPackets\<close> does not return, and taking up the next packet reads memory
  that was freed.
\<close>

theorem growing_queue_breaks_sending:
  assumes "packets_left x" and "length (queued m) = queue_capacity (snd x)"
    and "handle_event pf t e (globals m) = Inr r"
    and "length (broadcast_packets_to_send_list (connection_tracker r)) > length (queued m)"
    and "(send_run_step pf)\<^sup>*\<^sup>* (x, m\<lparr>globals := r\<rparr>) (y, m')"
  shows "fst y \<noteq> Finished \<and> (\<forall>i v. y = (Packet_loop i, v) \<longrightarrow> send_step y (tracker_of m') = Inl DanglingPointer)"
proof -
  have "invalidated x (tracker_of (m\<lparr>globals := r\<rparr>))"
    using assms(1,2,4) by (simp add: invalidated_def)
  then have "invalidated (fst (y, m')) (tracker_of (snd (y, m')))"
    using sending_run_keeps [where P = invalidated, OF assms(5) _ send_step_invalidated grows_invalidated]
    by simp
  then show ?thesis by (cases y) (auto simp: invalidated_def)
qed

section \<open>A run\<close>

text \<open>Callbacks one after the other, with nodes where nothing lives, and a number of steps of \<open>sendPackets\<close>.\<close>

fun deliver :: "platform \<Rightarrow> (moment \<times> event) list \<Rightarrow> repeater \<Rightarrow> repeater option" where
  "deliver pf [] r = Some r"
| "deliver pf ((t, e) # es) r =
     (if new_node t \<in> set (live_addresses (connection_tracker r)) then None
      else case handle_event pf t e r of Inl f \<Rightarrow> None | Inr r' \<Rightarrow> deliver pf es r')"

fun send_steps :: "nat \<Rightarrow> (send_point \<times> send_locals) \<times> tracker \<Rightarrow> ((send_point \<times> send_locals) \<times> tracker) option" where
  "send_steps 0 x = Some x"
| "send_steps (Suc n) x =
     (if fst (fst x) = Finished then None
      else case send_step (fst x) (snd x) of Inl f \<Rightarrow> None | Inr y \<Rightarrow> send_steps n y)"

abbreviation with_tracker :: "machine \<Rightarrow> tracker \<Rightarrow> machine" where
  "with_tracker m s \<equiv> m\<lparr>globals := (globals m)\<lparr>connection_tracker := s\<rparr>\<rparr>"

lemma with_tracker_self: "with_tracker m (tracker_of m) = m"
  by (cases m; cases "globals m") simp

lemma deliver_booted: "deliver pf es r = Some r' \<Longrightarrow> booted pf a r \<Longrightarrow> booted pf a r'"
proof (induction es arbitrary: r)
  case (Cons te es)
  obtain t e where te: "te = (t, e)" by (cases te)
  then obtain r1 where "handle_event pf t e r = Inr r1" "fresh (new_node t) (connection_tracker r)"
    and rest: "deliver pf es r1 = Some r'"
    using Cons.prems(1) by (auto split: if_split_asm sum.split_asm)
  then have "booted pf a r1" using Cons.prems(2) by (blast intro: booted.early_callback)
  with rest show ?case by (rule Cons.IH)
qed simp

lemma send_steps_run:
  "send_steps n (x, tracker_of m) = Some (x', s) \<Longrightarrow> (send_run_step pf)\<^sup>*\<^sup>* (x, m) (x', with_tracker m s)"
proof (induction n arbitrary: x m)
  case (Suc n)
  then obtain y t where y: "fst x \<noteq> Finished" "send_step x (tracker_of m) = Inr (y, t)"
    "send_steps n (y, t) = Some (x', s)" by (auto split: if_split_asm sum.split_asm)
  then have "send_run_step pf (x, m) (y, with_tracker m t)"
    by (auto simp: send_run_step_def intro: fine_step.send)
  moreover have "(send_run_step pf)\<^sup>*\<^sup>* (y, with_tracker m t) (x', with_tracker m s)"
    using Suc.IH [of y "with_tracker m t"] y(3) by simp
  ultimately show ?case by (rule converse_rtranclp_into_rtranclp)
next
  case 0
  then show ?case using with_tracker_self [of m] by auto
qed

lemma send_run_reachable:
  "(send_run_step pf)\<^sup>*\<^sup>* x y \<Longrightarrow> fine_reachable pf a (Sending_at (fst x), snd x) \<Longrightarrow>
   fine_reachable pf a (Sending_at (fst y), snd y)"
  by (induction rule: rtranclp_induct) (auto simp: send_run_step_def intro: fine_reachable.further)

text \<open>When nothing is due and no time passes, the loop comes to \<open>sendPackets\<close> at once.\<close>

lemma idle_until_sending:
  assumes "booted pf a r" and "keep_running r" and "\<not> life_check r" and "discover_primary_services r"
    and "length (broadcast_packets_to_send_list (connection_tracker r)) \<le> c"
    and "fresh 99 (connection_tracker r)"
  shows "fine_reachable pf a (Sending_at (Entering, new_send_locals c), main_start 0 0 0 0 0 r)"
proof -
  let ?m = "main_start 0 0 0 0 0 r"
  let ?i = "\<lparr>time_us_32 = 0, at_moment = \<lparr>now_us = 0, new_node = 99, frame = 98\<rparr>, announce_clock = (\<lambda>_. 0),
    local_address = [], gap_connect_error = 0, gap_disconnect_error = 0\<rparr>"
  have m: "globals ?m = r" "loopStart ?m = 0" "lastAnnounce ?m = 0" by (simp_all add: main_start_def)
  have "run_phase ?i Loop_test ?m = Inr (Pins, ?m)"
    using assms(2) by (simp add: main_start_def)
  moreover have "run_phase ?i Pins ?m = Inr (Announcing, ?m)"
    using assms(3) by (simp add: handlePinActivity_def try_globals_def main_start_def)
  moreover have "run_phase ?i Announcing ?m = Inr (Connecting, ?m)"
    by (simp add: announce_phase_def m)
  moreover have "run_phase ?i Connecting ?m = Inr (Sending, ?m)"
    using assms(4) by (simp add: connect_phase_def may_connect_def m)
  moreover have "fine_reachable pf a (At ph', ?m)"
    if "fine_reachable pf a (At ph, ?m)" "ph \<noteq> Sending" "run_phase ?i ph ?m = Inr (ph', ?m)" for ph ph'
    by (rule fine_reachable.further [OF that(1) fine_step.phase [OF that(2,3)]]) (simp add: assms(6) m(1))
  ultimately have "fine_reachable pf a (At Sending, ?m)"
    using fine_reachable.start [OF assms(1), of 0 0 0 0 0] by blast
  moreover have "length (broadcast_packets_to_send_list (tracker_of ?m)) \<le> c" using assms(5) m(1) by simp
  ultimately show ?thesis by (blast intro: fine_reachable.further fine_step.enter)
qed

text \<open>
  A repeater that is connected to 65, which is not ready yet and has written two packets; a third comes
  while the first is worked on.
\<close>

definition sample_moment :: "addr \<Rightarrow> moment" where
  "sample_moment p = \<lparr>now_us = 7, new_node = p, frame = 90\<rparr>"

definition third_packet :: "moment \<times> event" where
  "third_packet = (sample_moment 7, Att_write 65 9 TRANSACTION_NONE 0
     [1, 5, 3, 0, 0, 0, 0, 0, 0, 0, 9, 0, 0, 2, 0, 0, 0, 0, 0, 0, 0, 42, 10, 11, 0])"

definition busy_events :: "(moment \<times> event) list" where
  "busy_events =
     [(sample_moment 4, Hci True (GAP_SUBEVENT_LE_CONNECTION_COMPLETE 65 [2, 2, 2, 2, 2, 2] 0 HCI_ROLE_SLAVE)),
      (sample_moment 5, Att_write 65 9 TRANSACTION_NONE 0 (sample_buffer 5 3)),
      (sample_moment 6, Att_write 65 9 TRANSACTION_NONE 0 (sample_message_buffer 3))]"

text \<open>
  The repeater before \<open>sendPackets\<close>; in its loop, if the vector has room for \<open>c\<close> packets; when the third
  packet has come; and \<open>n\<close> steps further.
\<close>

definition scenario :: "nat \<Rightarrow> nat \<Rightarrow> (repeater \<times> ((send_point \<times> send_locals) \<times> tracker) \<times> repeater \<times>
    ((send_point \<times> send_locals) \<times> tracker)) option" where
  "scenario c n =
     (case deliver sample_platform busy_events (initial_repeater 1) of
        None \<Rightarrow> None
      | Some r \<Rightarrow>
          (case send_steps 3 ((Entering, new_send_locals c), connection_tracker r) of
             None \<Rightarrow> None
           | Some x \<Rightarrow>
               (case deliver sample_platform [third_packet] (r\<lparr>connection_tracker := snd x\<rparr>) of
                  None \<Rightarrow> None
                | Some r' \<Rightarrow> map_option (\<lambda>y. (r, x, r', y)) (send_steps n (fst x, connection_tracker r')))))"

definition scenario_view where
  "scenario_view = (\<lambda>(r, x, r', y).
     (keep_running r \<and> \<not> life_check r \<and> discover_primary_services r, live_addresses (connection_tracker r),
      broadcast_packets_to_send_list (connection_tracker r), fst x, broadcast_packets_to_send_list (snd x),
      broadcast_packets_to_send_list (connection_tracker r'), fst (fst y)))"

definition mid_locals :: "nat \<Rightarrow> send_locals" where
  "mid_locals c =
     \<lparr>queue_capacity = c, queue_end = 2, cached_begin = Some None, broadcast_packets_to_remove = []\<rparr>"

lemma roomy_scenario:
  "map_option scenario_view (scenario 3 4) =
     Some (True, [1, 6, 5], [5, 6], (Connection_loop 0 5 None, mid_locals 3), [5, 6], [5, 6, 7], Finished)"
  by code_simp

lemma full_scenario:
  "map_option scenario_view (scenario 2 1) =
     Some (True, [1, 6, 5], [5, 6], (Connection_loop 0 5 None, mid_locals 2), [5, 6], [5, 6, 7], Packet_loop 1)"
  by code_simp

lemma scenario_run:
  assumes "scenario c n = Some (r, x, r', y)" and "keep_running r \<and> \<not> life_check r \<and> discover_primary_services r"
    and "live_addresses (connection_tracker r) = [1, 6, 5]"
    and "length (broadcast_packets_to_send_list (connection_tracker r)) \<le> c"
  defines "m \<equiv> with_tracker (main_start 0 0 0 0 0 r) (snd x)"
  shows "fine_reachable sample_platform 1 (Sending_at (fst x), m)"
    and "fine_reachable sample_platform 1 (Sending_at (fst x), m\<lparr>globals := r'\<rparr>)"
    and "handle_event sample_platform (fst third_packet) (snd third_packet) (globals m) = Inr r'"
    and "(send_run_step sample_platform)\<^sup>*\<^sup>* (fst x, m\<lparr>globals := r'\<rparr>) (fst y, with_tracker (m\<lparr>globals := r'\<rparr>) (snd y))"
proof -
  have globals: "globals m = r\<lparr>connection_tracker := snd x\<rparr>" by (simp add: m_def main_start_def)
  have run: "deliver sample_platform busy_events (initial_repeater 1) = Some r"
    "send_steps 3 ((Entering, new_send_locals c), connection_tracker r) = Some x"
    "deliver sample_platform [third_packet] (r\<lparr>connection_tracker := snd x\<rparr>) = Some r'"
    "send_steps n (fst x, connection_tracker r') = Some y"
    using assms(1) by (auto simp: scenario_def split: option.split_asm)
  have "booted sample_platform 1 r"
    using deliver_booted [OF run(1) booted.power_on] .
  then have "fine_reachable sample_platform 1 (Sending_at (Entering, new_send_locals c), main_start 0 0 0 0 0 r)"
    using assms(2-4) by (intro idle_until_sending) auto
  moreover have "(send_run_step sample_platform)\<^sup>*\<^sup>* ((Entering, new_send_locals c), main_start 0 0 0 0 0 r) (fst x, m)"
    unfolding m_def using run(2) by (intro send_steps_run [of 3]) (simp add: main_start_def)
  ultimately show here: "fine_reachable sample_platform 1 (Sending_at (fst x), m)"
    using send_run_reachable by fastforce
  show third: "handle_event sample_platform (fst third_packet) (snd third_packet) (globals m) = Inr r'"
    and "(send_run_step sample_platform)\<^sup>*\<^sup>* (fst x, m\<lparr>globals := r'\<rparr>) (fst y, with_tracker (m\<lparr>globals := r'\<rparr>) (snd y))"
    using run(3,4) send_steps_run [of n "fst x" "m\<lparr>globals := r'\<rparr>" "fst y" "snd y" sample_platform]
    by (auto simp: globals third_packet_def split: if_split_asm sum.split_asm)
  have "fresh (new_node (fst third_packet)) (tracker_of m)"
    using run(3) by (auto simp: globals third_packet_def split: if_split_asm)
  with here third show "fine_reachable sample_platform 1 (Sending_at (fst x), m\<lparr>globals := r'\<rparr>)"
    by (blast intro: fine_reachable.further fine_step.callback)
qed

text \<open>
  C1: in every state the program reaches, with callbacks between the phases of the loop and while packets
  are sent, the tracker is consistent and the advertisement is empty or complete. While \<open>sendPackets\<close> works,
  its iterators through \<open>connections\<close> are at nodes that are there, and what it has read from the broadcast
  queue is the beginning of it.
\<close>

theorem interleaved_program_invariant:
  assumes "fine_reachable pf a (c, m)"
  shows "tracker_ok (tracker_of m) \<and> adv_ok pf (globals m) \<and>
    (case c of Sending_at x \<Rightarrow> locals_ok x (tracker_of m) | At ph \<Rightarrow> True)"
  using interleaved_tracker.fine_reachable_holds [OF assms] interleaved_advertisement.fine_reachable_holds [OF assms]
    fine_reachable_control_ok [OF assms] by (cases c) auto

theorem interleaved_program_invariant_witness:
  "\<exists>r x r' y. scenario 3 4 = Some (r, x, r', y) \<and> fst (fst x) = Connection_loop 0 5 None \<and>
    tracker_ok (connection_tracker r') \<and> locals_ok (fst x) (connection_tracker r')"
proof -
  obtain r x r' y where run: "scenario 3 4 = Some (r, x, r', y)"
    and view: "scenario_view (r, x, r', y) =
      (True, [1, 6, 5], [5, 6], (Connection_loop 0 5 None, mid_locals 3), [5, 6], [5, 6, 7], Finished)"
    using roomy_scenario by (cases "scenario 3 4") auto
  have "fine_reachable sample_platform 1
      (Sending_at (fst x), (with_tracker (main_start 0 0 0 0 0 r) (snd x))\<lparr>globals := r'\<rparr>)"
    using view by (intro scenario_run(2) [OF run]) (simp_all add: scenario_view_def)
  from interleaved_program_invariant [OF this] show ?thesis
    using run view by (auto simp: scenario_view_def)
qed

theorem packets_queued_while_sending_stay_witness:
  "\<exists>r x r' y new. scenario 3 4 = Some (r, x, r', y) \<and> fst (fst x) = Connection_loop 0 5 None \<and>
    broadcast_packets_to_send_list (connection_tracker r') = [5, 6, 7] \<and> fst (fst y) = Finished \<and>
    broadcast_packets_to_send_list (snd y) = 7 # new"
proof -
  obtain r x r' y where run: "scenario 3 4 = Some (r, x, r', y)"
    and view: "scenario_view (r, x, r', y) =
      (True, [1, 6, 5], [5, 6], (Connection_loop 0 5 None, mid_locals 3), [5, 6], [5, 6, 7], Finished)"
    using roomy_scenario by (cases "scenario 3 4") auto
  let ?m = "(with_tracker (main_start 0 0 0 0 0 r) (snd x))\<lparr>globals := r'\<rparr>"
  obtain v s where y: "y = ((Finished, v), s)" using view by (cases y) (auto simp: scenario_view_def)
  have x: "fst x = (Connection_loop 0 5 None, mid_locals 3)" using view by (simp add: scenario_view_def)
  have "fine_reachable sample_platform 1 (Sending_at (Connection_loop 0 5 None, mid_locals 3), ?m)"
    using view x scenario_run(2) [OF run] by (simp add: scenario_view_def)
  moreover have "(send_run_step sample_platform)\<^sup>*\<^sup>* ((Connection_loop 0 5 None, mid_locals 3), ?m) ((Finished, v), with_tracker ?m s)"
    using view x y scenario_run(4) [OF run] by (simp add: scenario_view_def)
  ultimately obtain new where "queued (with_tracker ?m s) = unsent (queue_end (mid_locals 3)) (queued ?m) @ new"
    using packets_queued_while_sending_stay by fastforce
  then show ?thesis
    using run view y by (auto simp: scenario_view_def mid_locals_def unsent_def)
qed

theorem growing_queue_breaks_sending_witness:
  "\<exists>r x r' y. scenario 2 1 = Some (r, x, r', y) \<and> fst (fst x) = Connection_loop 0 5 None \<and>
    fst (fst y) = Packet_loop 1 \<and> send_step (fst y) (snd y) = Inl DanglingPointer"
proof -
  obtain r x r' y where run: "scenario 2 1 = Some (r, x, r', y)"
    and view: "scenario_view (r, x, r', y) =
      (True, [1, 6, 5], [5, 6], (Connection_loop 0 5 None, mid_locals 2), [5, 6], [5, 6, 7], Packet_loop 1)"
    using full_scenario by (cases "scenario 2 1") auto
  let ?m = "with_tracker (main_start 0 0 0 0 0 r) (snd x)"
  have x: "fst x = (Connection_loop 0 5 None, mid_locals 2)" and y: "fst (fst y) = Packet_loop 1"
    using view by (simp_all add: scenario_view_def)
  have "packets_left (fst x)" "length (queued ?m) = queue_capacity (snd (fst x))"
    "length (broadcast_packets_to_send_list (connection_tracker r')) > length (queued ?m)"
    using view by (simp_all add: x scenario_view_def mid_locals_def main_start_def)
  moreover have "handle_event sample_platform (fst third_packet) (snd third_packet) (globals ?m) = Inr r'"
    "(send_run_step sample_platform)\<^sup>*\<^sup>* (fst x, ?m\<lparr>globals := r'\<rparr>) (fst y, with_tracker (?m\<lparr>globals := r'\<rparr>) (snd y))"
    using view scenario_run(3,4) [OF run] by (simp_all add: scenario_view_def)
  ultimately have "send_step (fst y) (tracker_of (with_tracker (?m\<lparr>globals := r'\<rparr>) (snd y))) = Inl DanglingPointer"
    using growing_queue_breaks_sending [of "fst x" ?m sample_platform _ _ r' "fst y"] y by (metis prod.collapse)
  then show ?thesis using run x y by simp
qed

section \<open>A connection that goes away\<close>

lemma cached_begin_self: "cached_begin v = Some it \<Longrightarrow> v\<lparr>cached_begin := Some it\<rparr> = v"
  by (cases v) simp

text \<open>
  C32: the view of the ready connections remembers the first of them from packet to packet. If that one
  disconnects while \<open>sendPackets\<close> sleeps, the next packet of the queue that may be sent to it is still
  written out and queued for it, though it is no longer connected.
\<close>

theorem disconnected_connection_still_served:
  assumes "handle_event pf t (Hci True (HCI_EVENT_DISCONNECTION_COMPLETE k)) r = Inr r'"
    and "tracker_ok (connection_tracker r)" and "map_of (connections (connection_tracker r)) k = Some c"
    and "cached_begin v = Some (Some k)" and "i < queue_end v"
    and "length (broadcast_packets_to_send_list (connection_tracker r)) \<le> queue_capacity v"
    and "p = broadcast_packets_to_send_list (connection_tracker r) ! i"
    and "deref_packet (connection_tracker r) p = Inr pk"
    and "writePacket (peers (connection_tracker r)) pk [] = Inr bytes" and "length bytes \<le> unat (bt_mtu c)"
    and "sendable (connection_tracker r') p c = Inr True"
  shows "\<exists>s. send_steps 2 ((Packet_loop i, v), connection_tracker r') = Some ((Connection_sent i p k, v), s) \<and>
    \<not> connected (connection_or_new s k) \<and>
    (connection_handle c, bytes) \<in> set (raw_packet_to_notify s) \<union> set (raw_packet_to_write s)"
proof -
  let ?s = "connection_tracker r'"
  let ?c = "setConnected False (setNotificationEnabled False c)"
  have r': "?s = reportDisconnection (frame t) k (connection_tracker r)"
    using assms(1) by (auto simp: hci_packet_handler_def)
  have ok: "tracker_ok ?s"
    using assms(2) by (simp add: r' reportDisconnection_keeps_ok)
  have c: "map_of (connections ?s) k = Some ?c"
    using assms(3) by (simp add: r' reportDisconnection_def Let_def update_connection_def connection_or_new_def call_stack_def)
  have same: "broadcast_packets_to_send_list ?s = broadcast_packets_to_send_list (connection_tracker r)"
    "peers ?s = peers (connection_tracker r)" "deref_packet ?s = deref_packet (connection_tracker r)"
    by (simp_all add: r' reportDisconnection_def Let_def update_connection_def call_stack_def)
  obtain s where s: "SendPacketToConnection p (ConnectionNode k) ?s = Inr s" "same_but_sent ?s s"
    and raw: "(connection_handle c, bytes) \<in> set (raw_packet_to_notify s) \<union> set (raw_packet_to_write s)"
    using SendPacketToConnection_total [of ?s p pk bytes k ?c] ok c assms(8-10) same
    by (auto simp: tracker_ok_defs connection_setters)
  have "sendable ?s p ?c = Inr True"
    using assms(11) by (simp add: sendable_def connection_setters)
  moreover have "view_begin v ?s = Some k" using assms(4) by (simp add: view_begin_def)
  ultimately have "send_steps 2 ((Packet_loop i, v), ?s) = Some ((Connection_sent i p k, v), s)"
    using assms(5-7) c s(1) same(1) cached_begin_self [OF assms(4)]
    by (simp add: numeral_2_eq_2 deref_connection_def)
  moreover have "\<not> connected (connection_or_new s k)"
  proof -
    obtain c' where "map_of (connections s) k = Some c'" "same_connection ?c c'"
      using same_but_sent_connection [OF s(2) c] by blast
    then show ?thesis
      by (cases c'; cases c) (simp add: connection_or_new_def same_connection_def connection_setters)
  qed
  ultimately show ?thesis using raw by blast
qed

theorem disconnected_connection_still_served_witness:
  "\<exists>r' s v bytes. handle_event sample_platform (sample_moment 9) (Hci True (HCI_EVENT_DISCONNECTION_COMPLETE 65))
      ((initial_repeater 1)\<lparr>connection_tracker := sample_tracker\<rparr>) = Inr r' \<and>
    send_steps 2 ((Packet_loop 0, v), connection_tracker r') = Some ((Connection_sent 0 5 65, v), s) \<and>
    \<not> connected (connection_or_new s 65) \<and> (65, bytes) \<in> set (raw_packet_to_notify s) \<union> set (raw_packet_to_write s)"
proof -
  let ?r = "(initial_repeater 1)\<lparr>connection_tracker := sample_tracker\<rparr>"
  let ?v = "(new_send_locals 1)\<lparr>queue_end := 1, cached_begin := Some (Some 65)\<rparr>"
  let ?c = "sample_connection 65 HCI_ROLE_MASTER"
  obtain r' where r': "handle_event sample_platform (sample_moment 9)
      (Hci True (HCI_EVENT_DISCONNECTION_COMPLETE 65)) ?r = Inr r'"
    by (simp add: hci_packet_handler_def)
  obtain bytes where b: "writePacket (peers sample_tracker) (PassAlongPacket (setPayload [10]
      (PacketPassAlong_full 5 3 0 0 42 0 []))) [] = Inr bytes" "length bytes = 24"
    using sample_bytes by blast
  have "connection_tracker r' = reportDisconnection 90 65 sample_tracker"
    using r' by (auto simp: hci_packet_handler_def sample_moment_def)
  moreover have "sendable (reportDisconnection 90 65 sample_tracker) 5 ?c = Inr True"
    by code_simp
  ultimately have "sendable (connection_tracker r') 5 ?c = Inr True" by simp
  moreover have "tracker_ok (connection_tracker ?r)" using sample_tracker_ok by simp
  moreover have "map_of (connections (connection_tracker ?r)) 65 = Some ?c"
    "length (broadcast_packets_to_send_list (connection_tracker ?r)) \<le> queue_capacity ?v"
    "5 = broadcast_packets_to_send_list (connection_tracker ?r) ! 0" "length bytes \<le> unat (bt_mtu ?c)"
    "connection_handle ?c = 65"
    by (simp_all add: sample_tracker_def sample_connection_def connection_setters new_send_locals_def b(2))
  ultimately show ?thesis
    using disconnected_connection_still_served [OF r', of ?c ?v 0 5] r' sample_tracker_deref b(1)
    by fastforce
qed

end
