(* ===== verification/Uninterrupted.thy ===== *)
theory Uninterrupted
  imports Interleaving
begin

text \<open>
  Without callbacks the steps of \<open>Interleaving\<close> do what \<open>sendPackets\<close> of \<open>TrackerSend\<close> does in one go, so
  that every run of the program with callbacks between phases only is also one of the interleaved
  program.
\<close>

section \<open>Runs without callbacks\<close>

definition quiet_step ::
    "(send_point \<times> send_locals) \<times> tracker \<Rightarrow> (send_point \<times> send_locals) \<times> tracker \<Rightarrow> bool" where
  "quiet_step x y \<longleftrightarrow> fst (fst x) \<noteq> Finished \<and> send_step (fst x) (snd x) = Inr y"

text \<open>The steps from \<open>x\<close> on come to a result: to a state, or to a step that fails.\<close>

definition leads :: "(send_point \<times> send_locals) \<times> tracker \<Rightarrow> ((send_point \<times> send_locals) \<times> tracker) result \<Rightarrow> bool" where
  "leads x r \<longleftrightarrow>
     (case r of Inr y \<Rightarrow> quiet_step\<^sup>*\<^sup>* x y
      | Inl e \<Rightarrow> \<exists>y. quiet_step\<^sup>*\<^sup>* x y \<and> send_step (fst y) (snd y) = Inl e)"

lemma leads_here: "leads x (Inr x)"
  by (simp add: leads_def)

lemma leads_trans: "leads x (Inr y) \<Longrightarrow> leads y r \<Longrightarrow> leads x r"
  by (auto simp: leads_def intro: rtranclp_trans split: sum.splits)

lemma leads_step: "fst (fst x) \<noteq> Finished \<Longrightarrow> leads x (send_step (fst x) (snd x))"
  by (auto simp: leads_def quiet_step_def simp del: split_paired_Ex split: sum.split)

section \<open>The targeted packets\<close>

lemma targeted_loop_leads:
  "leads ((Targeted_loop ts removed, v), s)
     (bind_result (targeted_loop ts removed s) (\<lambda>(removed', s'). Inr ((Targeted_loop [] removed', v), s')))"
proof (induction ts arbitrary: removed s)
  case Nil
  then show ?case by (simp add: leads_here)
next
  case (Cons t ts)
  obtain p cp where t: "t = (p, cp)" by (cases t)
  let ?x = "((Targeted_loop (t # ts) removed, v), s)"
  have step: "leads ?x (send_step (fst ?x) (snd ?x))"
    by (rule leads_step) simp
  show ?case
  proof (cases "packet_needed s (p, cp)")
    case (Inl e)
    then show ?thesis using step t by simp
  next
    case (Inr needed)
    show ?thesis
    proof (cases needed)
      case False
      then have "leads ?x (Inr ((Targeted_loop ts removed, v), s))" using step Inr t by simp
      from leads_trans [OF this Cons.IH] show ?thesis using t Inr False by simp
    next
      case True
      show ?thesis
      proof (cases "SendPacketToConnection p cp s")
        case (Inl e)
        then show ?thesis using step t Inr True by simp
      next
        case (Inr s1)
        then have "leads ?x (Inr ((Targeted_sent p cp ts removed, v), s1))"
          using step t \<open>packet_needed s (p, cp) = Inr needed\<close> True by simp
        moreover have "leads ((Targeted_sent p cp ts removed, v), s1)
            (Inr ((Targeted_loop ts (p # removed), v), note_sent p cp s1))"
          using leads_step [of "((Targeted_sent p cp ts removed, v), s1)"] by simp
        ultimately have "leads ?x (Inr ((Targeted_loop ts (p # removed), v), note_sent p cp s1))"
          by (rule leads_trans)
        from leads_trans [OF this Cons.IH] show ?thesis
          using t Inr \<open>packet_needed s (p, cp) = Inr needed\<close> True by simp
      qed
    qed
  qed
qed

section \<open>The connections\<close>

definition first_of :: "(u16 \<times> 'a) list \<Rightarrow> u16 option" where
  "first_of cs = (case cs of [] \<Rightarrow> None | kc # _ \<Rightarrow> Some (fst kc))"

abbreviation ready :: "tracker \<Rightarrow> (u16 \<times> ble_connection) list" where
  "ready s \<equiv> filter (\<lambda>(k, c). available c) (connections s)"

lemma next_available_first: "next_available P s = first_of (filter (\<lambda>kc. P (fst kc)) (ready s))"
proof -
  have "map_option fst (find (\<lambda>(k, c). P k \<and> available c) xs) =
      first_of (filter (\<lambda>kc. P (fst kc)) (filter (\<lambda>(k, c). available c) xs))" for xs
    by (induction xs) (auto simp: first_of_def)
  then show ?thesis by (simp only: next_available_def)
qed

text \<open>Which connections are ready does not change while packets are sent.\<close>

lemma same_ready: "same_but_sent s s' \<Longrightarrow> map fst (ready s') = map fst (ready s)"
proof -
  assume "same_but_sent s s'"
  then have eq: "map (\<lambda>(h, c). (h, setHasData False c)) (connections s') =
      map (\<lambda>(h, c). (h, setHasData False c)) (connections s)"
    by (simp add: same_but_sent_def)
  have "map fst (filter (\<lambda>(k, c). available c) xs) =
      map fst (filter (\<lambda>(k, c). available c) (map (\<lambda>(h, c). (h, setHasData False c)) xs))" for xs
    by (induction xs) (auto simp: setHasData_def available_def)
  then show ?thesis using eq by metis
qed

lemma same_next_available:
  assumes "same_but_sent s s'"
  shows "next_available P s' = next_available P s"
proof -
  have "first_of (filter (\<lambda>kc. P (fst kc)) xs) = (case filter P (map fst xs) of [] \<Rightarrow> None | k # _ \<Rightarrow> Some k)"
    for xs :: "(u16 \<times> ble_connection) list"
    by (induction xs) (auto simp: first_of_def)
  then show ?thesis by (simp only: next_available_first same_ready [OF assms])
qed

lemma sendable_handle: "connection_handle c = connection_handle c' \<Longrightarrow> sendable s p c = sendable s p c'"
  by (simp add: sendable_def)

text \<open>After the node of a ready connection comes the next ready one.\<close>

lemma next_available_after:
  assumes "map_ok (connections s)" and "ready s = pre @ (k, c) # cs"
  shows "next_available (\<lambda>k'. k < k') s = first_of cs"
proof -
  have "sorted_wrt (<) (map fst (ready s))"
    using assms(1) by (auto simp: map_ok_def sorted_wrt_map intro: sorted_wrt_filter)
  then have "\<forall>kc \<in> set pre. fst kc < k" and "\<forall>kc \<in> set cs. k < fst kc"
    by (auto simp: assms(2) sorted_wrt_append)
  then have "filter (\<lambda>kc. k < fst kc) (ready s) = cs"
    unfolding assms(2) using less_asym by (fastforce simp: filter_empty_conv filter_id_conv)
  then show ?thesis by (simp only: next_available_first)
qed

lemma same_map_ok: "same_but_sent s s' \<Longrightarrow> map_ok (connections s) \<Longrightarrow> map_ok (connections s')"
proof -
  assume same: "same_but_sent s s'" and ok: "map_ok (connections s)"
  have "map fst xs = map fst (map (\<lambda>(h, c). (h, setHasData False c)) xs)" for xs :: "(u16 \<times> ble_connection) list"
    by (induction xs) auto
  then have "map fst (connections s') = map fst (connections s)"
    using same unfolding same_but_sent_def by metis
  then show ?thesis using ok by (simp add: map_ok_def)
qed

lemma sent_same:
  assumes "SendPacketToConnection p cp s = Inr s'" and "map_ok (connections s)"
  shows "same_but_sent s (note_sent p cp s')" and "map_ok (connections (note_sent p cp s'))"
proof -
  show same: "same_but_sent s (note_sent p cp s')"
    using SendPacketToConnection_same [OF assms] same_but_sent_trans note_sent_same by blast
  then show "map_ok (connections (note_sent p cp s'))"
    using assms(2) by (rule same_map_ok)
qed

lemma connection_loop_leads:
  assumes "ready s0 = pre @ cs" and "same_but_sent s0 s" and "map_ok (connections s0)" and "map_ok (connections s)"
  shows "leads ((Connection_loop i p (first_of cs), v), s)
     (bind_result (fold_result (broadcast_to p) cs s) (\<lambda>s'. Inr ((Connection_loop i p None, v), s')))"
  using assms
proof (induction cs arbitrary: pre s)
  case Nil
  then show ?case by (simp add: first_of_def leads_here)
next
  case (Cons kc cs)
  obtain k c where kc: "kc = (k, c)" by (cases kc)
  let ?x = "((Connection_loop i p (Some k), v), s)"
  have first: "first_of (kc # cs) = Some k" by (simp add: first_of_def kc)
  have "(k, c) \<in> set (ready s0)" using Cons.prems(1) kc by simp
  then have "map_of (connections s0) k = Some c"
    using map_of_iff_set [OF Cons.prems(3), of k c] by simp
  then obtain c' where c': "map_of (connections s) k = Some c'" "same_connection c c'"
    using same_but_sent_connection [OF Cons.prems(2)] by blast
  then have sendable: "sendable s p c' = sendable s p c"
    by (intro sendable_handle) (simp add: same_connection_fields)
  have step: "leads ?x (send_step (fst ?x) (snd ?x))"
    by (rule leads_step) simp
  have rest: "leads ((Next_connection i p k, v), t)
      (bind_result (fold_result (broadcast_to p) cs t) (\<lambda>s'. Inr ((Connection_loop i p None, v), s')))"
    if "same_but_sent s0 t" "map_ok (connections t)" for t
  proof -
    have "next_available (\<lambda>k'. k < k') t = first_of cs"
      using same_next_available [OF that(1)] next_available_after [OF Cons.prems(3), of pre k c cs]
        Cons.prems(1) kc by simp
    then have "leads ((Next_connection i p k, v), t) (Inr ((Connection_loop i p (first_of cs), v), t))"
      using leads_step [of "((Next_connection i p k, v), t)"] by simp
    moreover have "ready s0 = (pre @ [kc]) @ cs" using Cons.prems(1) by simp
    ultimately show ?thesis
      by (rule leads_trans [OF _ Cons.IH [OF _ that(1) Cons.prems(3) that(2)]])
  qed
  show ?case
  proof (cases "sendable s p c")
    case (Inl e)
    then show ?thesis using step first kc c' sendable by (simp add: deref_connection_def broadcast_to_def)
  next
    case (Inr ok)
    show ?thesis
    proof (cases ok)
      case False
      then have "leads ?x (Inr ((Next_connection i p k, v), s))"
        using step Inr c' sendable by (simp add: deref_connection_def)
      moreover have "broadcast_to p kc s = Inr s" using kc Inr False by (simp add: broadcast_to_def)
      ultimately show ?thesis using leads_trans [OF _ rest [OF Cons.prems(2,4)]] first by simp
    next
      case True
      show ?thesis
      proof (cases "SendPacketToConnection p (ConnectionNode k) s")
        case (Inl e)
        then show ?thesis
          using step first kc c' sendable \<open>sendable s p c = Inr ok\<close> True
          by (simp add: deref_connection_def broadcast_to_def)
      next
        case (Inr s1)
        let ?s2 = "note_sent p (ConnectionNode k) s1"
        have "leads ?x (Inr ((Connection_sent i p k, v), s1))"
          using step c' sendable \<open>sendable s p c = Inr ok\<close> True Inr by (simp add: deref_connection_def)
        moreover have "leads ((Connection_sent i p k, v), s1) (Inr ((Next_connection i p k, v), ?s2))"
          using leads_step [of "((Connection_sent i p k, v), s1)"] by simp
        moreover have "leads ((Next_connection i p k, v), ?s2)
            (bind_result (fold_result (broadcast_to p) cs ?s2) (\<lambda>s'. Inr ((Connection_loop i p None, v), s')))"
          using sent_same [OF Inr Cons.prems(4)] same_but_sent_trans [OF Cons.prems(2)] by (intro rest) auto
        ultimately have "leads ?x (bind_result (fold_result (broadcast_to p) cs ?s2)
            (\<lambda>s'. Inr ((Connection_loop i p None, v), s')))"
          by (blast intro: leads_trans)
        moreover have "broadcast_to p kc s = Inr ?s2"
          using kc Inr \<open>sendable s p c = Inr ok\<close> True by (simp add: broadcast_to_def)
        ultimately show ?thesis using first by simp
      qed
    qed
  qed
qed

section \<open>The broadcast queue\<close>

text \<open>The outcome of \<open>sendPackets\<close>: the tracker it leaves when it returns, or how it fails.\<close>

definition outcome :: "(send_point \<times> send_locals) \<times> tracker \<Rightarrow> tracker result \<Rightarrow> bool" where
  "outcome x r \<longleftrightarrow>
     (case r of Inr s \<Rightarrow> \<exists>v. leads x (Inr ((Finished, v), s)) | Inl e \<Rightarrow> leads x (Inl e))"

lemma outcome_after: "leads x (Inr y) \<Longrightarrow> outcome y r \<Longrightarrow> outcome x r"
  by (auto simp: outcome_def intro: leads_trans split: sum.splits)

lemma broadcast_packet_same:
  assumes "broadcast_packet p s = Inr s'" and "map_ok (connections s)"
  shows "same_but_sent s s'"
proof -
  have "same_but_sent s s' \<and> map_ok (connections s')"
    using assms(1) unfolding broadcast_packet_def
  proof (rule fold_result_invariant)
    show "same_but_sent s s \<and> map_ok (connections s)" using assms(2) by simp
    fix kc t t'
    assume "same_but_sent s t \<and> map_ok (connections t)" and "broadcast_to p kc t = Inr t'"
    then show "same_but_sent s t' \<and> map_ok (connections t')"
      using sent_same [of p "ConnectionNode (fst kc)" t] same_but_sent_trans [of s t]
      by (auto simp: broadcast_to_def split: if_split_asm)
  qed
  then show ?thesis by simp
qed

lemma packet_loop_outcome:
  assumes "broadcast_packets_to_send_list s = pre @ ps" and "queue_end v = length pre + length ps"
    and "length pre + length ps \<le> queue_capacity v" and "map_ok (connections s)"
    and "set (broadcast_packets_to_remove v) = set pre"
    and "cached_begin v \<in> {None, Some (first_of (ready s))}"
  shows "outcome ((Packet_loop (length pre), v), s)
    (bind_result (fold_result broadcast_packet ps s) (\<lambda>s'.
       Inr (s'\<lparr>broadcast_packets_to_send_list :=
         filter (\<lambda>p. p \<notin> set (pre @ ps)) (broadcast_packets_to_send_list s')\<rparr>)))"
  using assms
proof (induction ps arbitrary: pre v s)
  case Nil
  then show ?case
    using leads_step [of "((Packet_loop (length pre), v), s)"] by (auto simp: outcome_def)
next
  case (Cons p ps)
  let ?x = "((Packet_loop (length pre), v), s)"
  let ?v = "v\<lparr>cached_begin := Some (first_of (ready s))\<rparr>"
  have begin_eq: "view_begin v s = first_of (ready s)"
    using Cons.prems(6) next_available_first [of "\<lambda>k. True" s] by (auto simp: view_begin_def)
  have start: "leads ?x (Inr ((Connection_loop (length pre) p (first_of (ready s)), ?v), s))"
    using leads_step [of ?x] Cons.prems(1,2,3) by (simp add: begin_eq)
  have loop: "leads ((Connection_loop (length pre) p (first_of (ready s)), ?v), s)
      (bind_result (broadcast_packet p s) (\<lambda>s'. Inr ((Connection_loop (length pre) p None, ?v), s')))"
    using connection_loop_leads [of s "[]"] Cons.prems(4) by (simp add: broadcast_packet_def)
  show ?case
  proof (cases "broadcast_packet p s")
    case (Inl e)
    then show ?thesis using leads_trans [OF start loop] by (simp add: outcome_def)
  next
    case (Inr s1)
    let ?v1 = "?v\<lparr>broadcast_packets_to_remove := p # broadcast_packets_to_remove v\<rparr>"
    have "leads ?x (Inr ((Connection_loop (length pre) p None, ?v), s1))"
      using leads_trans [OF start loop] Inr by simp
    moreover have "leads ((Connection_loop (length pre) p None, ?v), s1) (Inr ((Packet_loop (length (pre @ [p])), ?v1), s1))"
      using leads_step [of "((Connection_loop (length pre) p None, ?v), s1)"] by simp
    ultimately have there: "leads ?x (Inr ((Packet_loop (length (pre @ [p])), ?v1), s1))"
      by (rule leads_trans)
    have same: "same_but_sent s s1"
      using broadcast_packet_same [OF Inr Cons.prems(4)] .
    have "first_of (ready s1) = first_of (ready s)"
      using same_next_available [OF same, of "\<lambda>k. True"] by (simp add: next_available_first)
    then have "outcome ((Packet_loop (length (pre @ [p])), ?v1), s1)
        (bind_result (fold_result broadcast_packet ps s1) (\<lambda>s'.
           Inr (s'\<lparr>broadcast_packets_to_send_list :=
             filter (\<lambda>q. q \<notin> set ((pre @ [p]) @ ps)) (broadcast_packets_to_send_list s')\<rparr>)))"
      using Cons.prems same same_map_ok [OF same]
      by (intro Cons.IH) (auto simp: same_but_sent_def)
    from outcome_after [OF there this] show ?thesis using Inr by simp
  qed
qed

lemma targeted_loop_same:
  assumes "targeted_loop ts removed s = Inr (removed', s')" and "map_ok (connections s)"
  shows "same_but_sent s s'"
  using assms
proof (induction ts arbitrary: removed s)
  case (Cons t ts)
  obtain p cp where t: "t = (p, cp)" by (cases t)
  show ?case
  proof (cases "packet_needed s t = Inr True")
    case True
    then obtain s1 where s1: "SendPacketToConnection p cp s = Inr s1"
      and rest: "targeted_loop ts (p # removed) (note_sent p cp s1) = Inr (removed', s')"
      using Cons.prems(1) t by auto
    have "same_but_sent (note_sent p cp s1) s'"
      using Cons.IH [OF rest] sent_same(2) [OF s1 Cons.prems(2)] .
    then show ?thesis using sent_same(1) [OF s1 Cons.prems(2)] same_but_sent_trans by blast
  next
    case False
    then show ?thesis using Cons t by (auto split: if_split_asm)
  qed
qed simp

section \<open>The whole of sendPackets\<close>

lemma uninterrupted_outcome:
  assumes "map_ok (connections s)" and "length (broadcast_packets_to_send_list s) \<le> c"
  shows "outcome ((Entering, new_send_locals c), s) (sendPackets s)"
proof (cases "broadcast_packets_to_send_list s = [] \<and> targeted_packets_to_send_list s = []")
  case True
  then show ?thesis
    using leads_step [of "((Entering, new_send_locals c), s)"] by (auto simp: outcome_def sendPackets_def)
next
  case False
  let ?x = "((Entering, new_send_locals c), s)" and ?v = "new_send_locals c"
  have enter: "leads ?x (Inr ((Targeted_loop (targeted_packets_to_send_list s) [], ?v), s))"
    using leads_step [of ?x] False by auto
  note targeted = leads_trans [OF enter targeted_loop_leads]
  show ?thesis
  proof (cases "targeted_loop (targeted_packets_to_send_list s) [] s")
    case (Inl e)
    then show ?thesis using targeted False by (auto simp: outcome_def sendPackets_def)
  next
    case (Inr y)
    obtain removed s1 where y: "y = (removed, s1)" by (cases y)
    let ?s2 = "s1\<lparr>targeted_packets_to_send_list :=
      filter (\<lambda>(p, cp). p \<notin> set removed) (targeted_packets_to_send_list s1)\<rparr>"
    let ?q = "broadcast_packets_to_send_list s1"
    have same: "same_but_sent s s1"
      using targeted_loop_same Inr y assms(1) by blast
    have "leads ?x (Inr ((Targeted_loop [] removed, ?v), s1))"
      using targeted Inr y by simp
    moreover have "leads ((Targeted_loop [] removed, ?v), s1) (Inr ((Packet_loop 0, ?v\<lparr>queue_end := length ?q\<rparr>), ?s2))"
      using leads_step [of "((Targeted_loop [] removed, ?v), s1)"] by simp
    ultimately have "leads ?x (Inr ((Packet_loop 0, ?v\<lparr>queue_end := length ?q\<rparr>), ?s2))"
      by (rule leads_trans)
    moreover have "outcome ((Packet_loop (length ([] :: addr list)), ?v\<lparr>queue_end := length ?q\<rparr>), ?s2)
        (bind_result (fold_result broadcast_packet ?q ?s2) (\<lambda>s'.
           Inr (s'\<lparr>broadcast_packets_to_send_list :=
             filter (\<lambda>p. p \<notin> set ([] @ ?q)) (broadcast_packets_to_send_list s')\<rparr>)))"
      using same same_map_ok [OF same assms(1)] assms(2)
      by (intro packet_loop_outcome) (auto simp: new_send_locals_def same_but_sent_def)
    ultimately show ?thesis
      using Inr y False outcome_after by (auto simp: sendPackets_def Let_def)
  qed
qed

section \<open>Runs of the program\<close>

lemma quiet_run_fine:
  "quiet_step\<^sup>*\<^sup>* y z \<Longrightarrow> fine_reachable pf a (Sending_at (fst y), with_tracker m (snd y)) \<Longrightarrow>
   fine_reachable pf a (Sending_at (fst z), with_tracker m (snd z))"
proof (induction rule: rtranclp_induct)
  case (step y z)
  have "fine_step pf (Sending_at (fst y), with_tracker m (snd y))
      (Sending_at (fst z), with_tracker (with_tracker m (snd y)) (snd z))"
    using step.hyps(2) by (intro fine_step.send) (auto simp: quiet_step_def)
  then show ?case using step by (auto intro: fine_reachable.further)
qed

lemma whole_sending_fine:
  assumes "fine_reachable pf a (At Sending, m)" and "sendPackets (tracker_of m) = Inr s"
  shows "fine_reachable pf a (At Flashing, with_tracker m s)"
proof -
  let ?c = "length (broadcast_packets_to_send_list (tracker_of m))"
  have "tracker_ok (tracker_of m)"
    using interleaved_tracker.fine_reachable_holds [OF assms(1)] by simp
  then have "outcome ((Entering, new_send_locals ?c), tracker_of m) (Inr s)"
    using uninterrupted_outcome [of "tracker_of m" ?c] assms(2) by (simp add: tracker_ok_defs)
  then obtain v where "quiet_step\<^sup>*\<^sup>* ((Entering, new_send_locals ?c), tracker_of m) ((Finished, v), s)"
    by (auto simp: outcome_def leads_def)
  moreover have "fine_reachable pf a (Sending_at (Entering, new_send_locals ?c), m)"
    using fine_reachable.further [OF assms(1) fine_step.enter] by simp
  ultimately have "fine_reachable pf a (Sending_at (Finished, v), with_tracker m s)"
    using quiet_run_fine [of "((Entering, new_send_locals ?c), tracker_of m)" "((Finished, v), s)" pf a m]
      with_tracker_self [of m] by simp
  then show ?thesis using fine_step.leave by (rule fine_reachable.further)
qed

text \<open>
  The program with callbacks between its phases only is a special case of the interleaved one: each
  state it reaches is reached there, so that what holds of all states of the interleaved program holds
  of its states.
\<close>

lemma interleaving_covers_phases:
  assumes "reachable pf a (ph, m)"
  shows "fine_reachable pf a (At ph, m)"
  using assms
proof (induction "(ph, m)" arbitrary: ph m rule: reachable.induct)
  case (start r t1 t2 t3 t4 t5)
  then show ?case by (rule fine_reachable.start)
next
  case (further x)
  obtain ph0 m0 where x: "x = (ph0, m0)" by (cases x)
  have here: "fine_reachable pf a (At ph0, m0)" using further.hyps(2) x by simp
  from further.hyps(3) x have "step pf (ph0, m0) (ph, m)" by simp
  then consider (run) i where "run_phase i ph0 m0 = Inr (ph, m)" "fresh (new_node (at_moment i)) (tracker_of m0)"
    | (callback) t e r where "handle_event pf t e (globals m0) = Inr r" "fresh (new_node t) (tracker_of m0)"
      "ph = ph0" "m = m0\<lparr>globals := r\<rparr>"
    by (auto elim: stepE)
  then show ?case
  proof cases
    case run
    show ?thesis
    proof (cases "ph0 = Sending")
      case True
      then show ?thesis
        using run(1) whole_sending_fine [of pf a m0] here by (auto simp: try_globals_def try_tracker_def)
    next
      case False
      then show ?thesis using run here by (blast intro: fine_reachable.further fine_step.phase)
    qed
  next
    case callback
    then show ?thesis using here by (blast intro: fine_reachable.further fine_step.callback)
  qed
qed

text \<open>
  C7: cut into steps, with its iterators and without callbacks, \<open>sendPackets\<close> does exactly what the one
  function does: it returns with the same tracker, or fails in the same way.
\<close>

theorem uninterrupted_sending_is_sendPackets:
  assumes "map_ok (connections s)" and "length (broadcast_packets_to_send_list s) \<le> c"
  shows "case sendPackets s of
      Inr s' \<Rightarrow> \<exists>v. quiet_step\<^sup>*\<^sup>* ((Entering, new_send_locals c), s) ((Finished, v), s')
    | Inl e \<Rightarrow> \<exists>y. quiet_step\<^sup>*\<^sup>* ((Entering, new_send_locals c), s) y \<and> send_step (fst y) (snd y) = Inl e"
  using uninterrupted_outcome [OF assms] by (auto simp: outcome_def leads_def split: sum.splits)

theorem uninterrupted_sending_is_sendPackets_witness:
  "\<exists>s' v. sendPackets sample_tracker = Inr s' \<and>
    quiet_step\<^sup>*\<^sup>* ((Entering, new_send_locals 1), sample_tracker) ((Finished, v), s')"
proof -
  obtain s' where "sendPackets sample_tracker = Inr s'"
    using sample_tracker_sends by blast
  moreover have "map_ok (connections sample_tracker)" "length (broadcast_packets_to_send_list sample_tracker) \<le> 1"
    using sample_tracker_ok by (simp_all add: tracker_ok_defs sample_tracker_def)
  ultimately show ?thesis
    using uninterrupted_sending_is_sendPackets [of sample_tracker 1] by auto
qed

end
