(* ===== verification/Once.thy ===== *)
theory Once
  imports Interleaving
begin

text \<open>
  What is not passed on twice, in the running program. Only clean-up makes the repeater forget messages and
  packets; from one clean-up to the next, whatever callbacks come and whatever phases run, also in the middle
  of \<open>sendPackets\<close>, a message that was received is known.
\<close>

section \<open>What the repeater does not forget\<close>

lemma knows_more_frames [simp]:
  "knows_more s (call_stack c s') = knows_more s s'" "knows_more s (s'\<lparr>peers := x1\<rparr>) = knows_more s s'"
  "knows_more s (s'\<lparr>available_neighbours := x2\<rparr>) = knows_more s s'"
  "knows_more s (s'\<lparr>handle_peer_map := x3\<rparr>) = knows_more s s'"
  "knows_more s (s'\<lparr>packets_connections_sent_list := x4\<rparr>) = knows_more s s'"
  "knows_more s (s'\<lparr>connections := x5\<rparr>) = knows_more s s'" "knows_more s (s'\<lparr>announcement := x6\<rparr>) = knows_more s s'"
  "knows_more s (s'\<lparr>broadcast_packets_to_send_list := x7\<rparr>) = knows_more s s'"
  "knows_more s (s'\<lparr>targeted_packets_to_send_list := x8\<rparr>) = knows_more s s'"
  "knows_more s (s'\<lparr>raw_packet_to_notify := x9\<rparr>) = knows_more s s'"
  "knows_more s (s'\<lparr>raw_packet_to_write := x10\<rparr>) = knows_more s s'"
  "knows_more s (s'\<lparr>notify_context := x11\<rparr>) = knows_more s s'" "knows_more s (s'\<lparr>write_context := x12\<rparr>) = knows_more s s'"
  "knows_more s (s'\<lparr>rssi_position := x13\<rparr>) = knows_more s s'" "knows_more (s\<lparr>announcement := x6\<rparr>) s' = knows_more s s'"
  by (simp_all add: knows_more_def call_stack_def)

lemma operations_know_more [simp]:
  "knows_more s (update_connection h f s') = knows_more s s'"
  "knows_more s (connectionForConnHandle h s') = knows_more s s'"
  "knows_more s (addAvailablePeer now addr t services strength s') = knows_more s s'"
  "knows_more s (reportConnection now h addr t s') = knows_more s s'"
  "knows_more s (reportConnectionWithRole now h addr t new_role s') = knows_more s s'"
  "knows_more s (reportDisconnection closure h s') = knows_more s s'"
  "knows_more s (note_sent p cp s') = knows_more s s'"
  by (simp_all add: update_connection_def connectionForConnHandle_def addAvailablePeer_def update_neighbour_def
      reportConnection_def reportConnectionWithRole_def reportDisconnection_def note_sent_def Let_def
      split: option.split)

lemma raw_packets_know_more:
  "notifyRawPacket ret h s' = Inr s'' \<Longrightarrow> knows_more s s' \<Longrightarrow> knows_more s s''"
  "writeRawPacket ret h s' = Inr s'' \<Longrightarrow> knows_more s s' \<Longrightarrow> knows_more s s''"
  by (auto simp: notifyRawPacket_def writeRawPacket_def Let_def split: list.splits if_splits)

lemma processWrite_know_more:
  "processWrite zlib std_hash now a cp h offset buffer s' = Inr s'' \<Longrightarrow> knows_more s s' \<Longrightarrow> knows_more s s''"
  using processWrite_knows_more knows_more_trans by blast

lemma callbacks_know_more:
  assumes "handle_event pf t e r = Inr r'"
  shows "knows_more (connection_tracker r) (connection_tracker r')"
proof (cases e)
  case (Att_write h att_handle mode offset buffer)
  then show ?thesis
    using assms by (auto simp: att_write_callback_def configure_notifications_def Let_def
        split: if_splits dest!: processWrite_know_more [where s = "connection_tracker r"])
next
  case (Hci b ev)
  then show ?thesis
    using assms by (cases ev) (auto simp: hci_packet_handler_def setup_advertisements_def setup_scanning_def
        start_scanning_for_local_nodes_def Let_def
        dest!: populate_advertising_data_tracker split: if_splits)
next
  case (Gatt_client ev)
  then show ?thesis
    using assms by (cases ev) (auto simp: handle_gatt_client_event_def Let_def split: option.splits)
next
  case (Value_update ev)
  then show ?thesis
    using assms by (cases ev) (auto simp: handle_gatt_client_value_update_event_def Let_def
        dest!: processWrite_know_more [where s = "connection_tracker r"])
next
  case (Att b ev)
  then show ?thesis
    using assms by (cases ev) (auto simp: att_packet_handler_def Let_def split: if_splits)
qed (use assms in \<open>auto simp: att_read_callback_def sm_packet_handler_def stop_scan_handler_def gpio_callback_def
  Let_def bitchat_can_send_notification_handler_def bitchat_can_write_without_response_handler_def
  split: if_splits intro: raw_packets_know_more\<close>)

lemma SendPacketToConnection_knows_more:
  "SendPacketToConnection p cp s = Inr s' \<Longrightarrow> knows_more s s'"
  by (auto simp: SendPacketToConnection_def Let_def split: if_split_asm connection_ptr.split_asm)

lemma send_step_knows_more: "send_step x s = Inr (x', s') \<Longrightarrow> knows_more s s'"
  by (induction x s rule: send_step.induct)
    (auto split: if_split_asm dest: SendPacketToConnection_knows_more)

section \<open>Phases\<close>

lemma storing_knows_more:
  assumes "storeMessageAndReturnIfNew a m s = (p, s')"
  shows "knows_more s s'"
proof -
  have "messages s' = messages s \<or> messages s' = map_put (message_id m) (a, m) (messages s)"
    "packets s' = packets s"
    using assms by (auto simp: storeMessageAndReturnIfNew_def split: if_splits)
  then show ?thesis by (metis knows_more_def map_put_keys order_refl subset_insertI)
qed

lemma enqueue_knows_more:
  "enqueueBroadcastPacket p s = Inr s' \<Longrightarrow> knows_more s s'"
  "enqueueTargetedPacket p h s = Inr s' \<Longrightarrow> knows_more s s'"
  by (auto simp: enqueueBroadcastPacket_def enqueueTargetedPacket_def Let_def split: if_split_asm)

lemma pins_know_more:
  assumes "handlePinActivity local_addr t r = Inr r'"
  shows "knows_more (connection_tracker r) (connection_tracker r')"
  using assms
  by (auto simp: handlePinActivity_def Let_def try_tracker_def split: if_splits prod.splits option.splits
      dest!: storing_knows_more enqueue_knows_more(1) intro: knows_more_trans)

lemma announce_loop_knows_more:
  "announce_loop clock cs i s = Inr s' \<Longrightarrow> knows_more s s'"
proof (induction cs arbitrary: i s)
  case (Cons kc cs)
  then show ?case
    by (cases kc) (auto simp: Let_def split: if_split_asm dest!: enqueue_knows_more(2) Cons.IH intro: knows_more_trans)
qed simp

lemma announcing_knows_more:
  "announceToConnections local_addr clock s = Inr s' \<Longrightarrow> knows_more s s'"
  by (auto simp: announceToConnections_def setupAnnounceIfNeeded_def Let_def split: if_splits
      dest!: announce_loop_knows_more)

lemma duplicate_loop_knows_more: "knows_more s (snd (duplicate_loop m reversed s))"
  by (induction m reversed s rule: duplicate_loop.induct) (auto simp: Let_def simp del: fun_upd_apply)

lemma connecting_knows_more: "knows_more (tracker_of m) (tracker_of (connect_phase i m))"
proof -
  have "knows_more (connection_tracker r) (connection_tracker (drop_duplicate err time r))" for err time r
    using duplicate_loop_knows_more [of "connection_tracker r" "handle_peer_map (connection_tracker r)" "\<lambda>_. 0"]
    by (auto simp: drop_duplicate_def getAnyDuplicateHandle_def Let_def split: prod.split)
  moreover have "knows_more (connection_tracker r) (connection_tracker (snd (connect_to_first_neighbour err r)))" for err r
    by (auto simp: connect_to_first_neighbour_def setConnectionStarted_def update_neighbour_def Let_def
        split: list.split)
  ultimately show ?thesis
    by (auto simp: connect_phase_def split: prod.split)
      (metis knows_more_trans snd_conv)+
qed

text \<open>Whether clean-up does anything the next time it is reached.\<close>

definition cleanup_due :: "machine \<Rightarrow> bool" where
  "cleanup_due m \<longleftrightarrow> loopStart m - lastCleanup m > ten_minutes_in_us"

lemma phases_know_more:
  assumes "run_phase i ph m = Inr (ph', m')" and "ph \<noteq> Sending" and "\<not> (ph = Cleaning \<and> cleanup_due m)"
  shows "knows_more (tracker_of m) (tracker_of m')"
proof (cases ph)
  case Pins
  then show ?thesis
    using assms(1) by (auto simp: try_globals_def dest: pins_know_more)
next
  case Announcing
  then show ?thesis
    using assms(1) by (auto simp: announce_phase_def try_globals_def try_tracker_def split: if_splits
        dest: announcing_knows_more)
next
  case Connecting
  then show ?thesis using assms(1) connecting_knows_more by auto
next
  case Rssi
  then show ?thesis
    using assms(1) by (auto simp: rssi_phase_def next_rssi_def requestNextRssi_def Let_def
        split: if_splits list.splits option.splits rssi_iterator.splits)
qed (use assms in \<open>auto simp: cleanup_due_def cleanup_phase_def flash_phase_def scan_phase_def end_phase_def
  start_scanning_for_local_nodes_def split: if_splits\<close>)

text \<open>A step of the interleaved program other than a clean-up that is due.\<close>

definition no_cleanup :: "platform \<Rightarrow> control \<times> machine \<Rightarrow> control \<times> machine \<Rightarrow> bool" where
  "no_cleanup pf x y \<longleftrightarrow> fine_step pf x y \<and>
     \<not> (fst x = At Cleaning \<and> fst y \<noteq> At Cleaning \<and> cleanup_due (snd x))"

lemma no_cleanup_knows_more:
  assumes "no_cleanup pf x y"
  shows "knows_more (tracker_of (snd x)) (tracker_of (snd y))"
proof -
  have step: "fine_step pf x y" and quiet: "fst x = At Cleaning \<Longrightarrow> fst y \<noteq> At Cleaning \<Longrightarrow> \<not> cleanup_due (snd x)"
    using assms by (auto simp: no_cleanup_def)
  from step show ?thesis
  proof cases
    case (phase ph i m ph' m')
    then have "\<not> (ph = Cleaning \<and> cleanup_due m)"
      using quiet by auto
    then show ?thesis using phase phases_know_more by auto
  next
    case (send x m x' s)
    then show ?thesis using send_step_knows_more by auto
  next
    case (callback t e m r c)
    then show ?thesis using callbacks_know_more by auto
  qed auto
qed

lemma no_cleanup_steps_know_more:
  "(no_cleanup pf)\<^sup>*\<^sup>* x y \<Longrightarrow> knows_more (tracker_of (snd x)) (tracker_of (snd y))"
  by (induction rule: rtranclp_induct) (auto dest: no_cleanup_knows_more intro: knows_more_trans)

section \<open>Properties\<close>

text \<open>
  C12: the same message, that is a packet with the same message payload, is neither queued nor stored again
  until the next clean-up, however its header has changed on the way and whatever the program did in between:
  any callbacks and any phases, other than a clean-up that is due.
\<close>

theorem same_message_relayed_once:
  assumes "parse_packet zlib offset buffer = Inr (Some p)" and "parsed_type p = type_value type_message"
    and "processWrite zlib std_hash now a cp h offset buffer s = Inr (tracker_of m1)"
    and "(no_cleanup pf)\<^sup>*\<^sup>* (c1, m1) (c2, m2)"
    and "parse_packet zlib offset' buffer' = Inr (Some q)" and "parsed_type q = type_value type_message"
    and "parsed_payload q = parsed_payload p"
    and "processWrite zlib std_hash now' a' cp' h' offset' buffer' (tracker_of m2) = Inr s'"
  shows "broadcast_packets_to_send_list s' = broadcast_packets_to_send_list (tracker_of m2) \<and>
    packets s' = packets (tracker_of m2) \<and> messages s' = messages (tracker_of m2)"
proof (rule known_message_not_queued [OF assms(5,6) _ assms(8)])
  show "set_option (parsed_id q) \<subseteq> fst ` set (messages (tracker_of m2))"
    using received_message_known [OF assms(1-3)] no_cleanup_steps_know_more [OF assms(4)]
      parsed_id_same_payload [OF assms(7)]
    by (auto simp: knows_more_def)
qed

text \<open>Between the two receptions the program goes round its test and the life check pin falls.\<close>

lemma sample_receptions:
  "map_sum id (map_prod live_addresses (map_sum id (\<lambda>_. ())))
     (bind_result (sample_write 5 64 (sample_message_buffer 3) (new_tracker 1)) (\<lambda>s.
       Inr (s, sample_write 7 65 (sample_message_buffer 2) s))) = Inr ([1, 5], Inr ())"
  by code_simp

theorem same_message_relayed_once_witness:
  "\<exists>s1 m2 s'. sample_write 5 64 (sample_message_buffer 3) (new_tracker 1) = Inr s1 \<and>
     (no_cleanup sample_platform)\<^sup>*\<^sup>*
       (At Loop_test, sample_machine\<lparr>globals := (globals sample_machine)\<lparr>connection_tracker := s1\<rparr>\<rparr>) (At Pins, m2) \<and>
     life_check (globals m2) \<and> sample_write 7 65 (sample_message_buffer 2) (tracker_of m2) = Inr s' \<and>
     broadcast_packets_to_send_list s' = broadcast_packets_to_send_list (tracker_of m2) \<and>
     messages s' = messages (tracker_of m2)"
proof -
  obtain s1 s' where s: "sample_write 5 64 (sample_message_buffer 3) (new_tracker 1) = Inr s1"
    "sample_write 7 65 (sample_message_buffer 2) s1 = Inr s'" and live: "live_addresses s1 = [1, 5]"
    using map_sum_Inr_D [OF sample_receptions] by (auto dest!: map_sum_Inr_D)
  let ?m1 = "sample_machine\<lparr>globals := (globals sample_machine)\<lparr>connection_tracker := s1\<rparr>\<rparr>"
  let ?m = "?m1\<lparr>loopStart := 5\<rparr>"
  let ?m2 = "?m\<lparr>globals := gpio_callback LIFE_CHECK_PIN True (globals ?m)\<rparr>"
  have tracker: "tracker_of ?m2 = s1" "life_check (globals ?m2)"
    by (simp_all add: gpio_callback_def Let_def active_def LIFE_CHECK_PIN_def EXIT_GPIO_PIN_def)
  have "no_cleanup sample_platform (At Loop_test, ?m1) (At Pins, ?m)"
    unfolding no_cleanup_def using live
    by (auto intro!: fine_step.phase [of _ sample_inputs] simp: sample_inputs_def sample_machine_def main_start_def
        initial_repeater_def)
  moreover have "fine_step sample_platform (At Pins, ?m) (At Pins, ?m2)"
    by (rule fine_step.callback [of _ "at_moment sample_inputs" "Gpio LIFE_CHECK_PIN True"])
      (use live in \<open>simp_all add: sample_inputs_def\<close>)
  then have "no_cleanup sample_platform (At Pins, ?m) (At Pins, ?m2)"
    by (simp add: no_cleanup_def)
  ultimately have steps: "(no_cleanup sample_platform)\<^sup>*\<^sup>* (At Loop_test, ?m1) (At Pins, ?m2)"
    by (meson converse_rtranclp_into_rtranclp rtranclp.rtrancl_refl)
  have packet: "parsed_type (sample_message_packet n) = type_value type_message"
    "parsed_payload (sample_message_packet n) = parsed_payload (sample_message_packet k)" for n k
    by (simp_all add: sample_message_packet_def)
  have first: "sample_write 5 64 (sample_message_buffer 3) (new_tracker 1) = Inr (tracker_of ?m1)"
    and second: "sample_write 7 65 (sample_message_buffer 2) (tracker_of ?m2) = Inr s'"
    using s tracker by simp_all
  from same_message_relayed_once [OF sample_parses(4) packet(1) first steps sample_parses(5) packet(1,2) second]
  show ?thesis using s(1) steps tracker(2) second by blast
qed

end
