(* ===== verification/LogLoop.thy ===== *)
theory LogLoop
  imports CircularBuffer
begin

text \<open>
  When \<open>printAvailableLogging\<close> does not return. On a wrapped log \<open>consume_line\<close> handles a line that is
  longer than its destination by setting the read position to \<open>line_size\<close> (lemma
  \<open>consume_line_wrapped_jump\<close>). When the write position is below that cell, the jump goes back over text
  that was already printed, and the loop comes to the same line again. The first section shows that
  the loop stays in such states, the second that writing a little more than the log holds, with a long
  line at the end of its memory, leads into one.
\<close>

section \<open>A loop that prints the same text again\<close>

text \<open>
  The log has wrapped: the write position is below \<open>line_limit\<close> and behind the read position, a line
  starts at \<open>q\<close> and does not end in the \<open>line_limit\<close> and more cells up to the end of the memory.
\<close>

definition lapped_line :: "nat \<Rightarrow> circular_buffer \<Rightarrow> bool" where
  "lapped_line q b \<longleftrightarrow> length (buffer b) = fixed_size b + 1 \<and> buffer b ! fixed_size b = 0 \<and>
     head b < line_limit \<and> head b < tail b \<and> tail b \<le> q \<and> line_limit \<le> q \<and>
     q + line_limit < fixed_size b \<and> buffer b ! (q - 1) = newline \<and>
     (\<forall>i \<in> {head b<..<fixed_size b}. buffer b ! i \<noteq> 0) \<and>
     (\<forall>i \<in> {q..<fixed_size b}. buffer b ! i \<noteq> newline)"

text \<open>\<open>strchr\<close> from a cell on searches up to the terminator behind the last cell.\<close>

lemma strchr_slice:
  assumes "length buf = fs + 1" and "buf ! fs = 0" and "t \<le> fs" and "\<forall>i \<in> {t..<fs}. buf ! i \<noteq> 0"
  shows "strchr (drop t buf) newline =
    Inr (if newline \<in> set (take (fs - t) (drop t buf))
         then Some (length (takeWhile (\<lambda>c. c \<noteq> newline) (take (fs - t) (drop t buf)))) else None)"
proof -
  have "drop t buf = take (fs - t) (drop t buf) @ 0 # drop (fs + 1) buf"
    using assms(1-3) id_take_nth_drop [of "fs - t" "drop t buf"] by simp
  moreover have "0 \<notin> set (take (fs - t) (drop t buf))"
    using assms by (auto simp: in_set_conv_nth)
  ultimately show ?thesis
    using strchr_find [of "take (fs - t) (drop t buf)" "drop (fs + 1) buf"] by metis
qed

text \<open>Below \<open>q\<close> the next newline is at \<open>q - 1\<close> at the latest.\<close>

lemma strchr_before:
  assumes "lapped_line q b" and "tail b < q"
  obtains k where "strchr (drop (tail b) (buffer b)) newline = Inr (Some k)" and "tail b + k < q"
proof -
  let ?ys = "take (fixed_size b - tail b) (drop (tail b) (buffer b))"
  have ys: "?ys ! (q - 1 - tail b) = newline" "q - 1 - tail b < length ?ys"
    using assms by (auto simp: lapped_line_def)
  then have mem: "newline \<in> set ?ys" by (metis nth_mem)
  have "length (takeWhile (\<lambda>c. c \<noteq> newline) ?ys) \<le> q - 1 - tail b"
    using ys by (metis (mono_tags, lifting) linorder_not_le nth_mem set_takeWhileD takeWhile_nth)
  moreover have "strchr (drop (tail b) (buffer b)) newline =
      Inr (Some (length (takeWhile (\<lambda>c. c \<noteq> newline) ?ys)))"
    using assms mem strchr_slice [of "buffer b" "fixed_size b" "tail b"]
    by (auto simp: lapped_line_def)
  ultimately show thesis using that assms(2) by auto
qed

text \<open>From \<open>q\<close> on there is none.\<close>

lemma strchr_after:
  assumes "lapped_line q b" and "q \<le> t" and "t \<le> fixed_size b"
  shows "strchr (drop t (buffer b)) newline = Inr None"
proof -
  have "newline \<notin> set (take (fixed_size b - t) (drop t (buffer b)))"
    using assms by (auto simp: lapped_line_def in_set_conv_nth)
  then show ?thesis
    using assms strchr_slice [of "buffer b" "fixed_size b" t] by (auto simp: lapped_line_def)
qed

lemma lapped_line_moves:
  assumes "lapped_line q b" and "head b < t" and "t \<le> q"
  shows "lapped_line q (b\<lparr>tail := t, maxed := False\<rparr>)"
  using assms by (simp add: lapped_line_def)

text \<open>A line is read, and the log stays as it was: before \<open>q\<close> the read position moves on, at \<open>q\<close> it jumps back.\<close>

lemma consume_line_lapped:
  assumes "lapped_line q b"
  shows "\<exists>line b'. consume_line line_limit b = Inr (line, b') \<and> line \<noteq> [] \<and> lapped_line q b'"
proof (cases "tail b < q")
  case True
  then obtain k where k: "strchr (drop (tail b) (buffer b)) newline = Inr (Some k)" "tail b + k < q"
    using assms strchr_before by blast
  have w: "consumable b = fixed_size b - tail b"
    using assms by (simp add: lapped_line_def consumable_def wrapped_def empty_def)
  let ?m = "min line_limit (k + 1)"
  have m: "min (min line_limit (consumable b)) (k + 1) = ?m" "?m \<le> consumable b"
    and t: "(tail b + ?m) mod fixed_size b = tail b + ?m"
    using assms k(2) w by (auto simp: lapped_line_def)
  then have "consume_line line_limit b =
      Inr (take ?m (drop (tail b) (buffer b)), b\<lparr>tail := tail b + ?m, maxed := False\<rparr>)"
    using k(1) by (simp add: consume_line_def consume_line_rest_def)
  moreover have "take ?m (drop (tail b) (buffer b)) \<noteq> []"
    using assms by (auto simp: lapped_line_def)
  moreover have "lapped_line q (b\<lparr>tail := tail b + ?m, maxed := False\<rparr>)"
    using assms k(2) by (intro lapped_line_moves) (auto simp: lapped_line_def)
  ultimately show ?thesis by blast
next
  case False
  then have q: "tail b = q" and w: "wrapped b" "line_limit < consumable b" "head b < line_limit"
    using assms by (auto simp: lapped_line_def consumable_def wrapped_def empty_def)
  have s: "strchr (drop (tail b + m) (buffer b)) newline = Inr None" if "m \<le> line_limit" for m
    using assms that q by (intro strchr_after) (auto simp: lapped_line_def)
  have "consume_line line_limit b =
      Inr (take line_limit (drop (tail b) (buffer b)), b\<lparr>tail := line_limit, maxed := False\<rparr>)"
    using consume_line_wrapped_jump [OF w(1,2,3)] s [of 0] s [of line_limit] by simp
  moreover have "take line_limit (drop (tail b) (buffer b)) \<noteq> []"
    using assms by (auto simp: lapped_line_def)
  moreover have "lapped_line q (b\<lparr>tail := line_limit, maxed := False\<rparr>)"
    using assms w(3) by (intro lapped_line_moves) (auto simp: lapped_line_def)
  ultimately show ?thesis by blast
qed

lemma print_loop_lapped: "lapped_line q b \<Longrightarrow> print_loop fuel b = Inl Diverges"
proof (induction fuel arbitrary: b)
  case (Suc fuel)
  obtain line b' where "consume_line line_limit b = Inr (line, b')" "line \<noteq> []" "lapped_line q b'"
    using consume_line_lapped [OF Suc.prems] by blast
  moreover have "\<not> empty b"
    using Suc.prems by (simp add: lapped_line_def empty_def)
  ultimately show ?case
    using Suc.IH by simp
qed simp

lemma printAvailableLogging_lapped:
  assumes "lapped_line q b"
  shows "printAvailableLogging fuel b = Inl Diverges"
proof (cases "full b")
  case True
  obtain line b' where "consume_line line_limit b = Inr (line, b')" "lapped_line q b'"
    using consume_line_lapped [OF assms] by blast
  with True show ?thesis
    by (simp add: printAvailableLogging_def print_loop_lapped)
qed (simp add: printAvailableLogging_def print_loop_lapped [OF assms])

section \<open>How the log gets there\<close>

lemma write_items_head [simp]: "head (write_items xs b) = (head b + length xs) mod fixed_size b"
  by (simp add: write_items_def Let_def split: prod.split)

lemma write_loop_keeps_terminator:
  assumes "0 < fixed_size b"
  shows "fst (write_loop b cs count (buf, pos, mx)) ! fixed_size b = buf ! fixed_size b"
proof (induction cs arbitrary: count buf pos mx)
  case (Cons c cs)
  have "(head b + count) mod fixed_size b \<noteq> fixed_size b"
    using assms by (metis mod_less_divisor nat_neq_iff)
  then show ?case
    using Cons.IH by (simp add: Let_def)
qed simp

lemma write_items_keeps_terminator:
  assumes "cb_ok b" and "buffer b ! fixed_size b = 0"
  shows "buffer (write_items xs b) ! fixed_size b = 0"
proof -
  obtain buf pos mx where run: "write_loop b xs 0 (buffer b, 0, maxed b) = (buf, pos, mx)"
    by (cases "write_loop b xs 0 (buffer b, 0, maxed b)") auto
  then have "buf ! fixed_size b = 0"
    using write_loop_keeps_terminator [of b xs 0 "buffer b" 0 "maxed b"] assms
    by (simp add: cb_ok_def)
  with run show ?thesis
    by (cases "pos + 1 < length buf") (auto simp: write_items_def Let_def nth_list_update list_update_beyond)
qed

text \<open>Several writes: where the write position ends up, and the last cell.\<close>

lemma write_many:
  assumes "cb_ok b" and "buffer b ! fixed_size b = 0" and "\<forall>xs \<in> set xss. xs \<noteq> []"
  shows "head (fold write_items xss b) = (head b + length (concat xss)) mod fixed_size b \<and>
    fixed_size (fold write_items xss b) = fixed_size b \<and>
    buffer (fold write_items xss b) ! fixed_size b = 0"
  using assms
proof (induction xss arbitrary: b)
  case Nil
  then show ?case by (simp add: cb_ok_def)
next
  case (Cons xs xss)
  then have "cb_ok (write_items xs b)" and "buffer (write_items xs b) ! fixed_size b = 0"
    by (simp_all add: write_items_spec write_items_keeps_terminator)
  with Cons.IH [of "write_items xs b"] Cons.prems(3) show ?case
    by (simp add: mod_simps add.assoc)
qed

text \<open>
  A cleared log that was given more than it holds is full, and the cells above the write position
  still hold what was written to them first.
\<close>

lemma overfull_log:
  assumes ok: "cb_ok b" and start: "head b = 0" "tail b = 0" and z: "buffer b ! fixed_size b = 0"
    and ne: "\<forall>xs \<in> set xss. xs \<noteq> []"
    and len: "fixed_size b \<le> length (concat xss)" "length (concat xss) < 2 * fixed_size b - 1"
  defines "B \<equiv> fold write_items xss b"
  shows "cb_ok B \<and> head B = length (concat xss) - fixed_size b \<and> tail B = head B + 1 \<and>
    fixed_size B = fixed_size b \<and> buffer B ! fixed_size b = 0 \<and>
    (\<forall>i \<in> {head B<..<fixed_size b}. buffer B ! i = concat xss ! i)"
proof -
  let ?n = "length (concat xss)" and ?fs = "fixed_size b"
  have c0: "contents b = []"
    using start by (simp add: contents_def stored_def ring_slice_def)
  have okB: "cb_ok B" and con: "contents B = keep_last (?fs - 1) (concat xss)"
    using ring.append_many [OF ok ne] c0 by (simp_all add: B_def capacity_def)
  have hd: "head B = ?n - ?fs" and fs: "fixed_size B = ?fs" and zB: "buffer B ! ?fs = 0"
    using write_many [OF ok z ne] start len by (auto simp: B_def mod_if)
  have "stored B = ?fs - 1"
    using arg_cong [OF con, of length] len(1) by (simp add: contents_def ring_slice_def)
  then have tl: "tail B = head B + 1"
    using okB hd fs len by (auto simp: stored_by_cases cb_ok_def split: if_splits)
  have "buffer B ! i = concat xss ! i" if "i \<in> {head B<..<?fs}" for i
  proof -
    have "contents B ! (i - tail B) = buffer B ! i"
      using that tl fs \<open>stored B = ?fs - 1\<close> by (auto simp: contents_def ring_slice_def)
    moreover have "contents B ! (i - tail B) = concat xss ! i"
    proof -
      have "?n - (?fs - 1) + (i - tail B) = i" and "?n - (?fs - 1) \<le> ?n"
        using that tl hd len(1) by auto
      then show ?thesis
        unfolding con keep_last_def by (metis nth_drop)
    qed
    ultimately show ?thesis by simp
  qed
  with okB hd tl fs zB show ?thesis by blast
qed

text \<open>
  C25: after a cleared log was given up to \<open>line_limit - 1\<close> bytes more than its memory holds, cut into
  writes in any way, and a line that starts at \<open>q\<close> runs over the last \<open>line_limit\<close> cells and more
  without a newline, \<open>printAvailableLogging\<close> never returns, however long it runs.
\<close>

theorem overfull_log_prints_for_ever:
  assumes "cb_ok b" and "head b = 0" and "tail b = 0" and "buffer b ! fixed_size b = 0"
    and "\<forall>xs \<in> set xss. xs \<noteq> []" and "0 \<notin> set (concat xss)"
    and "fixed_size b \<le> length (concat xss)" and "length (concat xss) < fixed_size b + line_limit"
    and "line_limit < q" and "q + line_limit < fixed_size b"
    and "concat xss ! (q - 1) = newline"
    and "newline \<notin> set (take (fixed_size b - q) (drop q (concat xss)))"
  shows "printAvailableLogging fuel (fold write_items xss b) = Inl Diverges"
proof (rule printAvailableLogging_lapped)
  let ?B = "fold write_items xss b"
  have B: "cb_ok ?B \<and> head ?B = length (concat xss) - fixed_size b \<and> tail ?B = head ?B + 1 \<and>
      fixed_size ?B = fixed_size b \<and> buffer ?B ! fixed_size b = 0 \<and>
      (\<forall>i \<in> {head ?B<..<fixed_size b}. buffer ?B ! i = concat xss ! i)"
    using assms(8-10) by (intro overfull_log assms(1-5,7)) simp
  then have hd: "head ?B < line_limit"
    using assms(7,8) by linarith
  have "concat xss ! i \<noteq> 0" if "i < fixed_size b" for i
    using assms(6,7) that by (metis nth_mem order_less_le_trans)
  moreover have "concat xss ! i \<noteq> newline" if "q \<le> i" "i < fixed_size b" for i
  proof -
    have "concat xss ! i = take (fixed_size b - q) (drop q (concat xss)) ! (i - q)"
      and "i - q < length (take (fixed_size b - q) (drop q (concat xss)))"
      using that assms(7) by auto
    with assms(12) show ?thesis by (metis nth_mem)
  qed
  ultimately have cells: "\<forall>i \<in> {head ?B<..<fixed_size b}. buffer ?B ! i \<noteq> 0"
      "\<forall>i \<in> {q..<fixed_size b}. buffer ?B ! i \<noteq> newline"
    using B hd assms(9) by auto
  have "q - 1 \<in> {head ?B<..<fixed_size b}"
    using hd assms(9,10) by auto
  then have nl: "buffer ?B ! (q - 1) = newline"
    using B assms(11) by metis
  show "lapped_line q ?B"
    unfolding lapped_line_def using B hd cells nl assms(9,10) by (simp add: cb_ok_def)
qed

theorem overfull_log_prints_for_ever_witness:
  "\<forall>fuel. printAvailableLogging fuel
     (fold write_items [replicate 159 97, [10], replicate 170 98]
       (new_CircularBuffer (replicate 321 0) 320)) = Inl Diverges"
proof -
  let ?b = "new_CircularBuffer (replicate 321 0) 320"
    and ?xss = "[replicate 159 97, [10], replicate 170 98] :: bytes list"
  have ok: "cb_ok ?b" and b: "head ?b = 0" "tail ?b = 0" "fixed_size ?b = 320"
      "buffer ?b ! fixed_size ?b = 0"
    by (simp_all add: cb_ok_def new_CircularBuffer_def)
  have ne: "\<forall>xs \<in> set ?xss. xs \<noteq> []" and nz: "0 \<notin> set (concat ?xss)"
    and len: "length (concat ?xss) = 330"
    by simp_all
  have nl: "concat ?xss ! (160 - 1) = newline"
    by (simp add: nth_append)
  have rest: "newline \<notin> set (take (fixed_size ?b - 160) (drop 160 (concat ?xss)))"
    using b by simp
  show ?thesis
    using overfull_log_prints_for_ever [OF ok b(1,2,4) ne nz _ _ _ _ nl rest] len b(3) by simp
qed

end
