(* ===== verification/Spec2Isabelle.thy ===== *)
theory Spec2Isabelle
  imports HexCodec Startup Reach Mesh Dumps Uninterrupted Once LogLoop
begin

text \<open>
  \<^bold>\<open>The bitchat repeater.\<close> A Raspberry Pi Pico extends the range of bitchat, a chat over Bluetooth
  Low Energy, by passing on what it hears. It advertises itself, scans for other devices, connects to
  them or is connected to, and relays every packet to all connections but those that have it. This
  development models the firmware under \<open>src/\<close> and proves what it does and where it goes wrong.

  \<^bold>\<open>Parts and theories\<close>, in the order in which they build on each other:

  \<^item> \<open>Prelude\<close>: machine integers as words, bytes, the failures of compiled C++ (\<open>failure\<close>) with the
    result type \<open>failure + 'a\<close>, and \<open>std::map\<close> and \<open>std::multimap\<close> as sorted association lists with the
    locale \<open>key_value_store\<close>.
  \<^item> \<open>CircularBuffer\<close>: the log buffer of \<open>CircularBuffer/CircularBuffer.h\<close> and its printing in
    \<open>Debugging.cpp\<close>. Its contents are abstracted to the list of unread bytes; writing keeps the newest
    bytes, reading is first in first out, interrupts may write between the steps of \<open>clear_if_empty\<close>
    (\<open>clear_step\<close>). \<open>LogLoop\<close>: an
    overfull log whose printing never ends.
  \<^item> \<open>BinaryReader\<close>, \<open>BinaryWriter\<close>: the readers and writers of \<open>Bitchat/\<close> of the same names.
  \<^item> \<open>Packets\<close>: the classes of packets (record extensions of \<open>PacketBase\<close>), peers and the packet hash.
  \<^item> \<open>ProtocolWriter\<close>: packets to bytes (\<open>ProtocolWriter.cpp\<close>).
  \<^item> \<open>BleConnection\<close>: connections and service discovery (\<open>BLE/BleConnection.cpp\<close>).
  \<^item> \<open>Tracker\<close>, \<open>TrackerSend\<close>: the state of \<open>BleConnectionTracker\<close> and its operations: stores,
    connections and time in the first, announcing, sending, raw packets and clean-up in the
    second. Flood control is the locale \<open>dedup_store\<close>, interpreted for messages and for packets.
  \<^item> \<open>Diagnostics\<close>: \<open>print_named_data\<close> of \<open>main.cpp\<close> and \<open>printStats\<close> of the tracker as sequences of formatted
    writes to the log: they cannot fail, and a dump can be read back. \<open>Dumps\<close>: the dumps of advertisements,
    services and characteristics, whose calls are commented out, and exactly when one reads outside the
    report.
  \<^item> \<open>ProtocolProcessor\<close>: bytes to packets and messages, and what is done with them
    (\<open>ProtocolProcessor.cpp\<close>), with the round trips between writer and parser. \<open>HexCodec\<close>: writing and
    reading hexadecimal peer identifiers agrees with arithmetic reference definitions.
  \<^item> \<open>Invariant\<close>: the tracker's invariant \<open>tracker_ok\<close>, kept by every operation; the parser's part of it
    through the locale \<open>parse_invariant\<close>.
  \<^item> \<open>Relay\<close>: what \<open>sendPackets\<close> does for whom. \<open>Receive\<close>: what \<open>processWrite\<close> queues, and when it fails.
    \<open>Writing\<close>: the casts and pointers of the writer in a consistent tracker, and the two cases in which
    writing goes wrong.
  \<^item> \<open>Handlers\<close>: the globals of \<open>main.cpp\<close> as the record \<open>repeater\<close> and every callback as a function on it.
  \<^item> \<open>MainLoop\<close>: the loop of \<open>main\<close> as a sequence of phases (\<open>run_phase\<close>) on the record \<open>machine\<close> (globals and
    locals), the callbacks as events (\<open>handle_event\<close>), and the step relation \<open>step\<close> with its reachable
    states: a step is a phase or a callback. \<open>Startup\<close>: what \<open>main\<close> does before the loop, as the sequence of
    its calls and the early ends of it.
  \<^item> \<open>Program\<close>: invariants of all reachable states through the locale \<open>global_invariant\<close>, leaving the
    loop, connecting, timers. \<open>Delivery\<close>: announcements, raw packets through the locale \<open>raw_sender\<close>,
    whose specification is a queue for each connection (\<open>fifo_events\<close>), and how packets and pointers get lost.
  \<^item> \<open>Interleaving\<close>: \<open>sendPackets\<close> cut into steps (\<open>send_step\<close>) with its local variables and iterators, and the
    step relation \<open>fine_step\<close> of the program in which callbacks also come between these steps, with its
    invariants through the locale \<open>interleaved_invariant\<close>. \<open>Uninterrupted\<close>: without callbacks the steps are
    \<open>sendPackets\<close>, so the program of \<open>MainLoop\<close> is a special case. \<open>Once\<close>: what the interleaved program
    does not forget before its next clean-up.
  \<^item> \<open>Reach\<close>, \<open>Mesh\<close>: several repeaters. The first follows one packet along a chain of them, the second is
    a step relation on a set of repeaters that exchange packets in any order.

  \<^bold>\<open>How the code is represented.\<close> A function that changes an object takes and returns it; one that can
  go wrong returns a result, where \<open>Inl\<close> stands for undefined behaviour (null and dangling pointers, reads
  and writes out of bounds, casts to a class the object does not have, signed overflow) or a failed \<open>assert\<close>, which is active in the
  build. Pointers to packets are addresses, because containers are ordered by them; the address of a new
  node is an argument, and theorems assume that nothing lives there (\<open>fresh\<close>). A \<open>BleConnection *\<close> is the
  key of a node or a local copy, a \<open>Peer *\<close> a key, as peers are never erased. Calls into the Bluetooth
  stack are recorded in the order in which they are made (\<open>stack_calls\<close>); its answers, the clock and the
  decoded fields of its events are arguments. Parameters stand for what is not in the repository:
  libdeflate, \<open>std::hash\<close>, the stack's constants and helpers and the generated attribute handles (records
  and arguments \<open>platform\<close>, \<open>zlib\<close>, \<open>std_hash\<close>).

  \<^bold>\<open>What is shown.\<close> The tracker stays consistent in every state the program reaches, even if
  callbacks interrupt \<open>sendPackets\<close>; what they queue meanwhile is not lost. A packet or message that was
  accepted is not queued again until a clean-up forgets it, loses a hop whenever it is passed on and is
  not passed on without one; sending never repeats a packet to a connection or returns it to its source,
  and a packet that can be written reaches everybody else the scan leaves. A plain packet or message that
  one repeater writes is what the next one reads. A packet travels along a chain exactly as far as its hop
  count says, and whatever repeaters exchange, the mesh falls silent. Reception fails in two cases only, and
  so does writing. The raw packets are a queue for each connection. The clock follows announcements;
  announcements wait for the clock; repeaters recognise each other; connecting happens one at a time; the
  pins do what they say; a start that fails waits to be switched off. Where the code does not do what it
  means to, the theorems show it: signatures, compressed payloads and encrypted contents are damaged or lost
  when relayed, announcements that are passed along are cast to a class they do not have, packets received
  by notification and clean-up leave dangling pointers, broadcasts skip connections, a ready connection
  takes the packet of another, timers compare wrapped times, a short peer identifier makes sending follow
  a null pointer, a packet queued while others are sent may move the vector under the loop, and a
  connection that disconnects meanwhile is still written to.

  \<^bold>\<open>Bounds.\<close> Integers have the width of the source (\<open>size_t\<close> has 32 bits on the target) and wrap where the
  source's do. Loops are recursions over the container they run through; \<open>printAvailableLogging\<close> has
  fuel: enough of it is shown to suffice for a log in one block, and \<open>LogLoop\<close> shows a log for which
  no amount does. The inner sleeping loop of \<open>main\<close> is a phase that may
  follow itself.

  \<^bold>\<open>Not modelled.\<close> The log messages of functions that do more than log, which touch no other state;
  sleeps; the build configuration (constants in \<open>btstack_config.h\<close>); tests. Accessors that only return or
  set a field are the fields of the records. Callbacks run in interrupts, without
  locks, and could also strike in the middle of other phases or of a single operation on a container,
  where the source says nothing about the container's state; here they come between phases and between
  the steps of \<open>sendPackets\<close>, which is where the program sleeps.
\<close>

end
